(* ===== verification/Rice_Prelude.thy ===== *)
theory Rice_Prelude
  imports Main "HOL-Library.Sublist"
begin

text \<open>
  What the components of the development share: the bytes and strings of the
  Go sources, the byte classes their scanners test, \<open>bytes.IndexByte\<close> and
  \<open>strings.Split\<close>, slices, and the generic lemmas on lists that
  carry the component proofs.

  A Go \<open>string\<close> and a \<open>[]byte\<close> are both a list of bytes; an Isabelle
  \<^typ>\<open>char\<close> is exactly one byte, so both are a \<^typ>\<open>string\<close> here.
\<close>

section \<open>Bytes\<close>

type_synonym bytes = string

definition byte :: "char \<Rightarrow> nat" where
  "byte c = of_char c"

definition in_range :: "char \<Rightarrow> char \<Rightarrow> char \<Rightarrow> bool" where
  "in_range lo hi c \<longleftrightarrow> byte lo \<le> byte c \<and> byte c \<le> byte hi"

definition is_lower :: "char \<Rightarrow> bool" where
  "is_lower c \<longleftrightarrow> in_range (CHR ''a'') (CHR ''z'') c"

definition is_upper :: "char \<Rightarrow> bool" where
  "is_upper c \<longleftrightarrow> in_range (CHR ''A'') (CHR ''Z'') c"

definition is_digit :: "char \<Rightarrow> bool" where
  "is_digit c \<longleftrightarrow> in_range (CHR ''0'') (CHR ''9'') c"

named_theorems byte_class \<open>the byte classes the scanners test, unfolded\<close>

lemmas [byte_class] =
  byte_def in_range_def is_lower_def is_upper_def is_digit_def

lemma byte_less_256 [simp]: "byte c < 256"
  by (simp add: byte_def)

lemma byte_inj [simp]: "byte c = byte d \<longleftrightarrow> c = d"
  by (simp add: byte_def)

section \<open>Durations\<close>

text \<open>\<open>time.Second\<close> and \<open>time.Millisecond\<close>, in nanoseconds.\<close>

definition second :: int where
  "second = 1000000000"

definition millisecond :: int where
  "millisecond = 1000000"

section \<open>64-bit arithmetic\<close>

definition wrap64 :: "int \<Rightarrow> int" where
  "wrap64 x = (x + 2 ^ 63) mod 2 ^ 64 - 2 ^ 63"

definition maxInt64 :: int where
  "maxInt64 = 2 ^ 63 - 1"

lemma wrap64_id: "- (2 ^ 63) \<le> x \<Longrightarrow> x \<le> maxInt64 \<Longrightarrow> wrap64 x = x"
  by (simp add: wrap64_def maxInt64_def)

section \<open>Index and split\<close>

text \<open>\<open>bytes.IndexByte\<close>: the position of the first \<open>c\<close>, \<open>None\<close> for Go's -1.\<close>

fun indexByte :: "char \<Rightarrow> bytes \<Rightarrow> nat option" where
  "indexByte c [] = None"
| "indexByte c (x # xs) = (if x = c then Some 0 else map_option Suc (indexByte c xs))"

lemma indexByte_None [simp]: "indexByte c s = None \<longleftrightarrow> c \<notin> set s"
  by (induction s) auto

lemma indexByte_SomeD:
  "indexByte c s = Some i \<Longrightarrow> i < length s \<and> s ! i = c \<and> c \<notin> set (take i s)"
  by (induction s arbitrary: i) (auto split: if_splits)

lemma indexByte_split:
  "indexByte c s = Some i \<Longrightarrow> s = take i s @ c # drop (Suc i) s"
  by (metis id_take_nth_drop indexByte_SomeD)

text \<open>\<open>strings.Split\<close> at a single byte: never the empty list.\<close>

fun splitByte :: "char \<Rightarrow> bytes \<Rightarrow> bytes list" where
  "splitByte c [] = [[]]"
| "splitByte c (x # xs) =
     (if x = c then [] # splitByte c xs
      else case splitByte c xs of [] \<Rightarrow> [[x]] | s # ss \<Rightarrow> (x # s) # ss)"

lemma splitByte_nonempty [simp]: "splitByte c s \<noteq> []"
  by (induction s) (auto split: list.splits)

section \<open>Lists\<close>

lemma takeWhile_dropWhile_Cons:
  "dropWhile P xs = y # ys \<Longrightarrow> \<not> P y"
  by (metis hd_dropWhile list.distinct(1) list.sel(1))

lemma drop_length_append [simp]: "drop (length xs) (xs @ ys) = ys"
  by simp

lemma list_update_take_drop:
  "i < length xs \<Longrightarrow> xs[i := y] = take i xs @ y # drop (Suc i) xs"
  by (rule upd_conv_take_nth_drop)

text \<open>Comparing a list with a literal in two steps, as a split node does.\<close>

lemma take_eq_split:
  assumes "n \<le> length xs"
  shows "take (length xs) q = xs \<longleftrightarrow>
    take n q = take n xs \<and> take (length xs - n) (drop n q) = drop n xs" (is "?l \<longleftrightarrow> ?r")
proof -
  have q: "take (length xs) q = take n q @ take (length xs - n) (drop n q)"
    using assms by (metis le_add_diff_inverse take_add)
  have "length (take n q) = length (take n xs)" if ?l
    using arg_cong [OF that, of length] assms by auto
  then show ?thesis
    using q by (metis append_eq_append_conv append_take_drop_id)
qed

lemma nth_in_set [simp, intro]: "i < length xs \<Longrightarrow> xs ! i \<in> set xs"
  by simp

section \<open>The first maximum of a list\<close>

text \<open>
  The loop that keeps a best value and replaces it only by a strictly better one, over
  values paired with what they are compared by.
\<close>

fun scan_max :: "'a \<times> 'k::linorder \<Rightarrow> ('a \<times> 'k) list \<Rightarrow> 'a" where
  "scan_max (b, k) [] = b"
| "scan_max (b, k) ((x, kx) # xs) = (if kx > k then scan_max (x, kx) xs else scan_max (b, k) xs)"

lemma scan_max_keep: "\<forall>y\<in>set xs. snd y \<le> k \<Longrightarrow> scan_max (b, k) xs = b"
  by (induction xs) auto

lemma scan_max_first:
  assumes "\<exists>y\<in>set xs. snd y > k"
  shows "\<exists>i<length xs. scan_max (b, k) xs = fst (xs ! i)
    \<and> (\<forall>j<length xs. snd (xs ! j) \<le> snd (xs ! i)) \<and> (\<forall>j<i. snd (xs ! j) < snd (xs ! i))
    \<and> snd (xs ! i) > k"
  using assms
proof (induction xs arbitrary: b k)
  case (Cons y xs)
  obtain x kx where y: "y = (x, kx)" by fastforce
  define k' b' where "k' = max k kx" and "b' = (if kx > k then x else b)"
  have step: "scan_max (b, k) (y # xs) = scan_max (b', k') xs"
    by (auto simp: y k'_def b'_def max_def)
  show ?case
  proof (cases "\<exists>z\<in>set xs. snd z > k'")
    case True
    then obtain i where i: "i < length xs" "scan_max (b', k') xs = fst (xs ! i)"
      "\<forall>j<length xs. snd (xs ! j) \<le> snd (xs ! i)" "\<forall>j<i. snd (xs ! j) < snd (xs ! i)" "snd (xs ! i) > k'"
      using Cons.IH by blast
    then show ?thesis
      unfolding step
      by (intro exI [of _ "Suc i"]) (auto simp: y k'_def nth_Cons split: nat.split)
  next
    case False
    then have "scan_max (b', k') xs = b'" "kx > k"
      using Cons.prems by (auto simp: scan_max_keep not_less y k'_def max_def split: if_splits)
    then show ?thesis
      unfolding step using False
      by (intro exI [of _ 0]) (auto simp: y k'_def b'_def nth_Cons not_less split: nat.split)
  qed
qed simp

end
