(* ===== verification/Params.thy ===== *)
theory Params
  imports Rice_Prelude
begin

text \<open>
  The parameter buffer of \<open>internal/router/params.go\<close>. A Go slice is a backing
  array and a length; both are kept, because \<open>truncate\<close> promises something about
  the slots beyond the length (they are zeroed, so that a pooled buffer keeps no
  finished request's bytes reachable). \<open>entries\<close> is what a reader of the buffer
  sees. The locale \<open>param_buffer\<close> is the contract the route lookup relies on; it
  is interpreted on the operations below.
\<close>

record Param =
  Key :: string
  Value :: bytes

definition zero_Param :: Param where
  "zero_Param = \<lparr>Key = [], Value = []\<rparr>"

text \<open>\<open>arr\<close> is the backing array, so its length is the slice's capacity.\<close>

record Params =
  arr :: "Param list"
  plen :: nat

definition wf_Params :: "Params \<Rightarrow> bool" where
  "wf_Params p \<longleftrightarrow> plen p \<le> length (arr p)"

definition entries :: "Params \<Rightarrow> Param list" where
  "entries p = take (plen p) (arr p)"

definition MakeParams :: "nat \<Rightarrow> Params" where
  "MakeParams capacity = \<lparr>arr = replicate capacity zero_Param, plen = 0\<rparr>"

definition Cap :: "Params \<Rightarrow> nat" where
  "Cap p = length (arr p)"

definition Len :: "Params \<Rightarrow> nat" where
  "Len p = plen p"

text \<open>
  \<open>clear(p.slots[n:])\<close> zeroes the slots from \<open>n\<close> to the current length, and
  \<open>p.slots[:n]\<close> shortens the slice. Go panics for an \<open>n\<close> beyond the length; every
  caller passes a length it read earlier.
\<close>

definition ptruncate :: "Params \<Rightarrow> nat \<Rightarrow> Params" where
  "ptruncate p n =
     \<lparr>arr = take n (arr p) @ replicate (plen p - n) zero_Param @ drop (max n (plen p)) (arr p),
      plen = n\<rparr>"

definition Reset :: "Params \<Rightarrow> Params" where
  "Reset p = ptruncate p 0"

text \<open>
  Go's \<open>append\<close>: in place while there is capacity, into a larger array otherwise.
  The new capacity follows the runtime's rule (double below 256 slots, a quarter
  more beyond), before its rounding up to an allocation size class; no lemma
  depends on it beyond there being room for the new slot.
\<close>

definition grown_cap :: "nat \<Rightarrow> nat" where
  "grown_cap c = (if c = 0 then 1 else if c < 256 then 2 * c else c + (c + 768) div 4)"

definition add :: "Params \<Rightarrow> string \<Rightarrow> bytes \<Rightarrow> Params" where
  "add p key v =
     (let x = \<lparr>Key = key, Value = v\<rparr> in
      if plen p < length (arr p)
      then \<lparr>arr = (arr p)[plen p := x], plen = Suc (plen p)\<rparr>
      else \<lparr>arr = take (plen p) (arr p) @ x #
                  replicate (grown_cap (length (arr p)) - Suc (plen p)) zero_Param,
            plen = Suc (plen p)\<rparr>)"

text \<open>The scan of \<open>Set\<close> and \<open>Get\<close>: the index of the first slot named \<open>name\<close>.\<close>

fun slot_of :: "Param list \<Rightarrow> string \<Rightarrow> nat option" where
  "slot_of [] name = None"
| "slot_of (x # xs) name = (if Key x = name then Some 0 else map_option Suc (slot_of xs name))"

definition Set :: "Params \<Rightarrow> string \<Rightarrow> bytes \<Rightarrow> Params" where
  "Set p name v =
     (case slot_of (entries p) name of
        Some i \<Rightarrow> p\<lparr>arr := (arr p)[i := (arr p ! i)\<lparr>Value := v\<rparr>]\<rparr>
      | None \<Rightarrow> add p name v)"

text \<open>\<open>Get\<close> answers nil for a missing name; nil and the empty slice read the same.\<close>

definition Get :: "Params \<Rightarrow> string \<Rightarrow> bytes" where
  "Get p name =
     (case slot_of (entries p) name of
        Some i \<Rightarrow> Value (entries p ! i)
      | None \<Rightarrow> [])"

text \<open>\<open>At\<close> panics out of range, here \<open>None\<close>.\<close>

definition At :: "Params \<Rightarrow> int \<Rightarrow> Param option" where
  "At p i = (if i < 0 \<or> i \<ge> int (plen p) then None else Some (arr p ! nat i))"

section \<open>The contract the lookup relies on\<close>

text \<open>
  \<open>ents\<close> is the reader's view. Capturing appends, rolling back to a length read
  earlier restores the view it had then.
\<close>

locale param_buffer =
  fixes invar :: "'p \<Rightarrow> bool"
    and ents :: "'p \<Rightarrow> 'e list"
    and len :: "'p \<Rightarrow> nat"
    and put :: "'p \<Rightarrow> 'k \<Rightarrow> 'v \<Rightarrow> 'p"
    and cut :: "'p \<Rightarrow> nat \<Rightarrow> 'p"
    and mk :: "'k \<Rightarrow> 'v \<Rightarrow> 'e"
  assumes len_ents: "invar p \<Longrightarrow> len p = length (ents p)"
    and ents_put: "invar p \<Longrightarrow> ents (put p k v) = ents p @ [mk k v]"
    and invar_put: "invar p \<Longrightarrow> invar (put p k v)"
    and ents_cut: "invar p \<Longrightarrow> n \<le> len p \<Longrightarrow> ents (cut p n) = take n (ents p)"
    and invar_cut: "invar p \<Longrightarrow> n \<le> len p \<Longrightarrow> invar (cut p n)"
begin

lemma len_put: "invar p \<Longrightarrow> len (put p k v) = Suc (len p)"
  by (simp add: len_ents ents_put invar_put)

text \<open>
  The step of the lookup's backtracking: whatever was captured between reading the
  length and truncating to it is gone, and nothing else is.
\<close>

lemma rollback:
  assumes "invar p" "invar q" "ents q = ents p @ cs"
  shows "ents (cut q (len p)) = ents p" "invar (cut q (len p))"
proof -
  have "len p \<le> len q"
    using assms by (simp add: len_ents)
  then show "ents (cut q (len p)) = ents p" "invar (cut q (len p))"
    using assms by (simp_all add: ents_cut invar_cut len_ents)
qed

lemma rollback_put:
  assumes "invar p"
  shows "ents (cut (put p k v) (len p)) = ents p" "invar (cut (put p k v) (len p))"
  using rollback [OF assms invar_put [OF assms] ents_put [OF assms]] by auto

end

section \<open>The buffer meets it\<close>

text \<open>
  The invariant of every buffer the router fills: the length is within the capacity
  and the slots beyond it are zero.
\<close>

definition clean :: "Params \<Rightarrow> bool" where
  "clean p \<longleftrightarrow> wf_Params p \<and> drop (plen p) (arr p) = replicate (length (arr p) - plen p) zero_Param"

lemma clean_wf [simp]: "clean p \<Longrightarrow> plen p \<le> length (arr p)"
  by (simp add: clean_def wf_Params_def)

lemma cleanI:
  assumes "arr p = es @ replicate k zero_Param" "plen p = length es"
  shows "clean p"
  using assms by (simp add: clean_def wf_Params_def)

lemma cleanE:
  assumes "clean p"
  obtains k where "arr p = entries p @ replicate k zero_Param" "plen p = length (entries p)"
proof
  show "arr p = entries p @ replicate (length (arr p) - plen p) zero_Param"
    using assms by (metis append_take_drop_id clean_def entries_def)
  show "plen p = length (entries p)"
    using assms by (simp add: entries_def)
qed

lemma entries_eqI: "arr p = es @ rest \<Longrightarrow> plen p = length es \<Longrightarrow> entries p = es"
  by (simp add: entries_def)

lemma add_normal:
  assumes "clean p"
  obtains k where "arr (add p x v) = (entries p @ [\<lparr>Key = x, Value = v\<rparr>]) @ replicate k zero_Param"
    and "plen (add p x v) = length (entries p @ [\<lparr>Key = x, Value = v\<rparr>])"
proof -
  obtain k where k: "arr p = entries p @ replicate k zero_Param" "plen p = length (entries p)"
    using assms by (rule cleanE)
  show ?thesis
  proof (cases k)
    case 0
    then show ?thesis
      using k by (intro that) (auto simp: add_def Let_def)
  next
    case (Suc j)
    then have "(arr p)[plen p := y] = (entries p @ [y]) @ replicate j zero_Param" for y
      using k by (simp add: list_update_append)
    then show ?thesis
      using k Suc by (intro that [of j]) (auto simp: add_def Let_def)
  qed
qed

lemma clean_add: "clean p \<Longrightarrow> clean (add p k v)"
  by (metis add_normal cleanI)

lemma entries_add: "clean p \<Longrightarrow> entries (add p k v) = entries p @ [\<lparr>Key = k, Value = v\<rparr>]"
  by (metis add_normal entries_eqI)

lemma ptruncate_normal:
  assumes "clean p" "n \<le> plen p"
  shows "arr (ptruncate p n) = take n (entries p) @ replicate (length (arr p) - n) zero_Param"
    and "plen (ptruncate p n) = length (take n (entries p))"
proof -
  obtain k where k: "arr p = entries p @ replicate k zero_Param" "plen p = length (entries p)"
    using assms(1) by (rule cleanE)
  have "length (arr p) - n = (plen p - n) + k"
    using k assms(2) by (metis Nat.add_diff_assoc2 length_append length_replicate)
  then show "arr (ptruncate p n) = take n (entries p) @ replicate (length (arr p) - n) zero_Param"
    using k assms(2) by (simp add: ptruncate_def max_absorb2 replicate_add [symmetric])
  show "plen (ptruncate p n) = length (take n (entries p))"
    using k assms(2) by (simp add: ptruncate_def)
qed

lemma clean_ptruncate: "clean p \<Longrightarrow> n \<le> plen p \<Longrightarrow> clean (ptruncate p n)"
  by (metis cleanI ptruncate_normal)

lemma entries_ptruncate: "clean p \<Longrightarrow> n \<le> plen p \<Longrightarrow> entries (ptruncate p n) = take n (entries p)"
  by (metis entries_eqI ptruncate_normal)

lemma Len_entries: "clean p \<Longrightarrow> Len p = length (entries p)"
  by (metis Len_def cleanE)

interpretation pb: param_buffer clean entries Len add ptruncate "\<lambda>k v. \<lparr>Key = k, Value = v\<rparr>"
  by unfold_locales
    (simp_all add: Len_entries entries_add clean_add entries_ptruncate clean_ptruncate
       flip: Len_entries, simp_all add: Len_def entries_ptruncate clean_ptruncate)

lemma clean_MakeParams [simp]: "clean (MakeParams n)"
  by (rule cleanI [of _ "[]" n]) (simp_all add: MakeParams_def)

lemma entries_MakeParams [simp]: "entries (MakeParams n) = []"
  by (simp add: MakeParams_def entries_def)

lemma clean_Reset [simp]: "clean p \<Longrightarrow> clean (Reset p)"
  by (simp add: Reset_def clean_ptruncate)

lemma entries_Reset [simp]: "clean p \<Longrightarrow> entries (Reset p) = []"
  by (simp add: Reset_def entries_ptruncate)

section \<open>Set and Get\<close>

lemma slot_of_SomeD: "slot_of xs name = Some i \<Longrightarrow> i < length xs \<and> Key (xs ! i) = name"
  by (induction xs arbitrary: i) (auto split: if_splits)

lemma slot_of_append:
  "slot_of (xs @ ys) name =
     (case slot_of xs name of
        Some i \<Rightarrow> Some i
      | None \<Rightarrow> (case slot_of ys name of Some j \<Rightarrow> Some (length xs + j) | None \<Rightarrow> None))"
  by (induction xs) (auto split: option.splits)

lemma slot_of_update_value:
  "slot_of (xs[i := (xs ! i)\<lparr>Value := v\<rparr>]) name = slot_of xs name"
proof (induction xs arbitrary: i)
  case (Cons x xs)
  then show ?case by (cases i) auto
qed simp

text \<open>The map a buffer stands for, first slot first.\<close>

definition param_of :: "Param list \<Rightarrow> string \<Rightarrow> bytes option" where
  "param_of xs name = map_option (\<lambda>i. Value (xs ! i)) (slot_of xs name)"

lemma Get_param_of: "Get p name = (case param_of (entries p) name of Some v \<Rightarrow> v | None \<Rightarrow> [])"
  by (simp add: Get_def param_of_def split: option.splits)

lemma entries_Set:
  assumes "clean p"
  shows "entries (Set p name v) =
    (case slot_of (entries p) name of
       Some i \<Rightarrow> (entries p)[i := (entries p ! i)\<lparr>Value := v\<rparr>]
     | None \<Rightarrow> entries p @ [\<lparr>Key = name, Value = v\<rparr>])"
proof (cases "slot_of (entries p) name")
  case (Some i)
  then have "i < plen p" "arr p ! i = entries p ! i"
    using assms by (auto dest!: slot_of_SomeD simp: entries_def)
  then show ?thesis
    using Some by (simp add: Set_def entries_def take_update_swap)
qed (use assms in \<open>simp add: Set_def entries_add\<close>)

lemma clean_Set:
  assumes "clean p"
  shows "clean (Set p name v)"
proof (cases "slot_of (entries p) name")
  case (Some i)
  obtain k where k: "arr p = entries p @ replicate k zero_Param" "plen p = length (entries p)"
    using assms by (rule cleanE)
  have "i < length (entries p)"
    using Some by (simp add: slot_of_SomeD)
  then have "(arr p)[i := y] = (entries p)[i := y] @ replicate k zero_Param" for y
    using k(1) by (simp add: list_update_append)
  then show ?thesis
    using Some k
    by (intro cleanI [of _ "(entries p)[i := (arr p ! i)\<lparr>Value := v\<rparr>]" k]) (simp_all add: Set_def)
qed (use assms in \<open>simp add: Set_def clean_add\<close>)

lemma Reset_eq_MakeParams:
  assumes "clean p"
  shows "Reset p = MakeParams (Cap p)"
proof -
  have "clean (Reset p)" "plen (Reset p) = 0" "length (arr (Reset p)) = length (arr p)"
    using clean_Reset [OF assms] assms by (simp_all add: Reset_def ptruncate_def)
  then show ?thesis
    by (auto simp: clean_def MakeParams_def Cap_def intro: Params.equality)
qed

lemma Cap_MakeParams [simp]: "Cap (MakeParams n) = n"
  by (simp add: Cap_def MakeParams_def)

lemma Reset_MakeParams [simp]: "Reset (MakeParams n) = MakeParams n"
  by (simp add: Reset_eq_MakeParams)

section \<open>Properties\<close>

text \<open>
  After \<open>Set\<close> the name reads the new value and every other name reads what it did;
  a buffer whose free slots were zero keeps them zero.
\<close>

lemma Set_Get:
  assumes "clean p"
  shows "clean (Set p name v) \<and> Get (Set p name v) k = (if k = name then v else Get p k)"
proof (cases "slot_of (entries p) name")
  case None
  then show ?thesis
    using clean_Set [OF assms] entries_Set [OF assms, of name v]
    by (auto simp: Get_def slot_of_append nth_append split: option.splits dest: slot_of_SomeD)
next
  case (Some i)
  then show ?thesis
    using clean_Set [OF assms] entries_Set [OF assms, of name v] slot_of_SomeD [OF Some]
    by (auto simp: Get_def slot_of_update_value nth_list_update split: option.splits dest: slot_of_SomeD)
qed

text \<open>
  Resetting a buffer empties it and zeroes every slot, whatever it captured, so
  that a pooled buffer keeps nothing of the request it served.
\<close>

lemma Reset_forgets:
  assumes "clean p"
  shows "Reset p = MakeParams (Cap p)"
  using assms by (rule Reset_eq_MakeParams)

end
