(* ===== verification/Go_Errors.thy ===== *)
theory Go_Errors
  imports Rice_Prelude
begin

text \<open>
  Errors as values: the error types of \<open>errors.go\<close> and what Go's \<open>errors\<close> and \<open>fmt\<close>
  packages do with them. An error is a finite tree: \<open>HTTPError\<close> and \<open>PanicError\<close> are
  the two types the funnel knows, \<open>Plain\<close> is any error without a cause, \<open>Wrapped\<close> one
  that wraps a cause (\<open>fmt.Errorf\<close> with a percent-w), \<open>Joined\<close> one that wraps several.
  A panic value is an error or anything else, kept as what \<open>fmt.Sprint\<close> prints of it.
\<close>

section \<open>Errors\<close>

datatype go_error =
    HTTPError (he_Code: int) (he_Message: string) (he_Err: "go_error option")
  | PanicError (pe_Value: pvalue) (pe_Stack: bytes)
  | Plain string
  | Wrapped string go_error
  | Joined "go_error list"
and pvalue = PErr go_error | PVal string

definition NewHTTPError :: "int \<Rightarrow> string \<Rightarrow> go_error" where
  "NewHTTPError code msg = HTTPError code msg None"

definition ErrNotFound :: go_error where
  "ErrNotFound = HTTPError 404 ''Not Found'' None"

definition ErrNotAcceptable :: go_error where
  "ErrNotAcceptable = HTTPError 406 ''Not Acceptable'' None"

text \<open>\<open>HTTPError.Unwrap\<close> and \<open>PanicError.Unwrap\<close>, and those of the library's errors.\<close>

fun Unwrap :: "go_error \<Rightarrow> go_error list" where
  "Unwrap (HTTPError _ _ e) = (case e of None \<Rightarrow> [] | Some x \<Rightarrow> [x])"
| "Unwrap (PanicError v _) = (case v of PErr e \<Rightarrow> [e] | PVal _ \<Rightarrow> [])"
| "Unwrap (Plain _) = []"
| "Unwrap (Wrapped _ e) = [e]"
| "Unwrap (Joined es) = es"

lemma Unwrap_smaller: "x \<in> set (Unwrap e) \<Longrightarrow> size x < size e"
  by (cases e) (auto split: option.splits pvalue.splits simp: size_list_estimation' less_Suc_eq_le)

section \<open>The walk of errors.As\<close>

fun first_some :: "'a option list \<Rightarrow> 'a option" where
  "first_some [] = None"
| "first_some (Some x # _) = Some x"
| "first_some (None # xs) = first_some xs"

lemma first_some_None: "first_some xs = None \<longleftrightarrow> (\<forall>x\<in>set xs. x = None)"
  by (induction xs rule: first_some.induct) auto

lemma first_some_SomeD: "first_some xs = Some y \<Longrightarrow> Some y \<in> set xs"
  by (induction xs rule: first_some.induct) auto

text \<open>Depth first, the error itself before its causes, causes from left to right.\<close>

function errors_As :: "(go_error \<Rightarrow> 'a option) \<Rightarrow> go_error \<Rightarrow> 'a option" where
  "errors_As sel e =
     (case sel e of Some x \<Rightarrow> Some x | None \<Rightarrow> first_some (map (errors_As sel) (Unwrap e)))"
  by pat_completeness auto
termination
  by (relation "measure (\<lambda>(_, e). size e)") (auto dest: Unwrap_smaller)

declare errors_As.simps [simp del]

fun sel_Panic :: "go_error \<Rightarrow> (pvalue \<times> bytes) option" where
  "sel_Panic (PanicError v s) = Some (v, s)"
| "sel_Panic _ = None"

fun sel_HTTP :: "go_error \<Rightarrow> (int \<times> string) option" where
  "sel_HTTP (HTTPError c m _) = Some (c, m)"
| "sel_HTTP _ = None"

text \<open>\<open>in_chain x e\<close>: \<open>x\<close> is \<open>e\<close> or is reached from it by unwrapping.\<close>

inductive in_chain :: "go_error \<Rightarrow> go_error \<Rightarrow> bool" where
  chain_refl: "in_chain e e"
| chain_step: "y \<in> set (Unwrap e) \<Longrightarrow> in_chain x y \<Longrightarrow> in_chain x e"

inductive_cases in_chainE: "in_chain x e"

lemma errors_As_None: "errors_As sel e = None \<longleftrightarrow> (\<forall>x. in_chain x e \<longrightarrow> sel x = None)"
proof (induction sel e rule: errors_As.induct)
  case (1 sel e)
  show ?case
  proof (cases "sel e")
    case (Some x)
    then show ?thesis
      using chain_refl [of e] by (subst errors_As.simps) auto
  next
    case None
    then have "errors_As sel e = None \<longleftrightarrow> (\<forall>y\<in>set (Unwrap e). errors_As sel y = None)"
      by (subst errors_As.simps) (auto simp: first_some_None)
    also have "\<dots> \<longleftrightarrow> (\<forall>y\<in>set (Unwrap e). \<forall>x. in_chain x y \<longrightarrow> sel x = None)"
      using 1 [OF None] by blast
    also have "\<dots> \<longleftrightarrow> (\<forall>x. in_chain x e \<longrightarrow> sel x = None)"
      using None by (auto intro: chain_step elim: in_chainE)
    finally show ?thesis .
  qed
qed

lemma errors_As_SomeD: "errors_As sel e = Some v \<Longrightarrow> \<exists>x. in_chain x e \<and> sel x = Some v"
proof (induction sel e rule: errors_As.induct)
  case (1 sel e)
  show ?case
  proof (cases "sel e")
    case (Some x)
    then show ?thesis
      using 1(2) chain_refl [of e] by (auto simp: errors_As.simps [of sel e])
  next
    case None
    then have "Some v \<in> set (map (errors_As sel) (Unwrap e))"
      using 1(2) by (auto simp: errors_As.simps [of sel e] dest: first_some_SomeD)
    then obtain y where "y \<in> set (Unwrap e)" "errors_As sel y = Some v" by auto
    then show ?thesis
      using 1(1) [OF None] chain_step by blast
  qed
qed

text \<open>\<open>errors.Is\<close> for a sentinel.\<close>

definition errors_Is :: "go_error option \<Rightarrow> go_error \<Rightarrow> bool" where
  "errors_Is err target =
     (case err of None \<Rightarrow> False
      | Some e \<Rightarrow> errors_As (\<lambda>x. if x = target then Some () else None) e \<noteq> None)"

text \<open>\<open>errors.Join\<close>, which drops nil errors.\<close>

definition errors_Join :: "go_error option list \<Rightarrow> go_error option" where
  "errors_Join es = (let xs = List.map_filter id es in if xs = [] then None else Some (Joined xs))"

section \<open>Error strings\<close>

definition validStatus :: "int \<Rightarrow> int" where
  "validStatus code = (if code < 100 \<or> code > 599 then 500 else code)"

text \<open>\<open>strconv.Itoa\<close>.\<close>

fun digits :: "nat \<Rightarrow> string" where
  "digits n = (if n < 10 then [char_of (48 + n)] else digits (n div 10) @ [char_of (48 + n mod 10)])"

declare digits.simps [simp del]

definition itoa :: "int \<Rightarrow> string" where
  "itoa i = (if i < 0 then CHR ''-'' # digits (nat (- i)) else digits (nat i))"

text \<open>
  \<open>Error()\<close> of every error. \<open>sm\<close> is \<open>fasthttp.StatusMessage\<close>. A joined error prints
  its members on lines of their own.
\<close>

function Error :: "(int \<Rightarrow> string) \<Rightarrow> go_error \<Rightarrow> string" where
  "Error sm (HTTPError c m e) =
     (let code = validStatus c;
          msg = (if m = [] then sm code else m);
          s = itoa code @ '': '' @ msg
      in case e of None \<Rightarrow> s | Some x \<Rightarrow> s @ '': '' @ Error sm x)"
| "Error sm (PanicError v s) = ''panic: '' @ (case v of PErr e \<Rightarrow> Error sm e | PVal t \<Rightarrow> t)"
| "Error sm (Plain s) = s"
| "Error sm (Wrapped s e) = s"
| "Error sm (Joined es) =
     concat (map (\<lambda>i. (if i = 0 then [] else [char_of (10::nat)]) @ Error sm (es ! i)) [0..<length es])"
  by pat_completeness auto
termination
  by (relation "measure (\<lambda>(_, e). size e)")
    (auto simp: less_Suc_eq_le intro: size_list_estimation' [OF nth_mem order_refl])

lemma validStatus_bounds: "100 \<le> validStatus c \<and> validStatus c \<le> 599"
  by (simp add: validStatus_def)

lemma validStatus_idem [simp]: "validStatus (validStatus c) = validStatus c"
  by (simp add: validStatus_def)

end
