(* ===== verification/Ctx.thy ===== *)
theory Ctx
  imports Params Go_Errors
begin

text \<open>
  The request context: \<open>ctx.go\<close>, \<open>ctx_param.go\<close>, \<open>ctx_store.go\<close>, \<open>ctx_response.go\<close>,
  \<open>pool.go\<close> and the two \<open>poison_*.go\<close>.

  fasthttp's \<open>RequestCtx\<close> is a parameter: a state of type \<open>'w\<close> and the operations of
  \<open>fasthttp\<close> on it. The process log is reached through it too. A \<open>Ctx\<close> holds that
  state where the source holds the pointer, \<open>None\<close> for nil. \<open>'x\<close> is a Go context, \<open>'v\<close> a
  stored value, \<open>'s\<close> a stream callback. A call may panic, so an
  operation on a Ctx is a function to an outcome and the Ctx it leaves behind.
\<close>

section \<open>Calls that may panic\<close>

datatype 'a res = Ret 'a | Panic pvalue

type_synonym ('c, 'a) call = "'c \<Rightarrow> 'a res \<times> 'c"

definition then_do :: "('c, 'a) call \<Rightarrow> ('a \<Rightarrow> ('c, 'b) call) \<Rightarrow> ('c, 'b) call" where
  "then_do f g c = (case f c of (Ret x, c') \<Rightarrow> g x c' | (Panic v, c') \<Rightarrow> (Panic v, c'))"

lemma then_do_simps [simp]:
  "f c = (Ret x, c') \<Longrightarrow> then_do f g c = g x c'"
  "f c = (Panic v, c') \<Longrightarrow> then_do f g c = (Panic v, c')"
  by (simp_all add: then_do_def)

text \<open>
  A middleware that shares state between requests, or writes a log, runs on the Ctx
  together with that state; \<open>on_ctx\<close> runs a call of the Ctx there.
\<close>

definition on_ctx :: "('c, 'a) call \<Rightarrow> ('c \<times> 'st, 'a) call" where
  "on_ctx f cs = (case f (fst cs) of (r, c') \<Rightarrow> (r, (c', snd cs)))"

lemma on_ctx_eq [simp]: "f c = (r, c') \<Longrightarrow> on_ctx f (c, st) = (r, (c', st))"
  by (simp add: on_ctx_def)

text \<open>A deferred call: it runs however the body ends, and its own panic replaces the outcome.\<close>

definition finally_do :: "('c, unit) call \<Rightarrow> ('c, 'a) call \<Rightarrow> ('c, 'a) call" where
  "finally_do g f c =
     (case f c of (r, c') \<Rightarrow> (case g c' of (Ret _, c'') \<Rightarrow> (r, c'') | (Panic v, c'') \<Rightarrow> (Panic v, c'')))"

section \<open>fasthttp\<close>

datatype log_event =
    LogUnhandled go_error
  | LogPanic pvalue bytes
  | LogInvalidStatus int int
  | LogHandlerPanicked pvalue

record ('w, 's) fasthttp =
  f_Method :: "'w \<Rightarrow> bytes"
  f_Path :: "'w \<Rightarrow> bytes"
  f_Query :: "string \<Rightarrow> 'w \<Rightarrow> bytes"
  f_Header :: "string \<Rightarrow> 'w \<Rightarrow> bytes"
  f_PostBody :: "'w \<Rightarrow> bytes"
  f_RemoteIP :: "'w \<Rightarrow> bytes"
  f_IsHead :: "'w \<Rightarrow> bool"
  f_StatusMessage :: "int \<Rightarrow> string"
  f_StatusCode :: "'w \<Rightarrow> int"
  f_Body :: "'w \<Rightarrow> bytes"
  f_SetStatusCode :: "int \<Rightarrow> 'w \<Rightarrow> 'w"
  f_SetContentType :: "string \<Rightarrow> 'w \<Rightarrow> 'w"
  f_SetBody :: "bytes \<Rightarrow> 'w \<Rightarrow> 'w"
  f_ResetBody :: "'w \<Rightarrow> 'w"
  f_SetHeader :: "string \<Rightarrow> string \<Rightarrow> 'w \<Rightarrow> 'w"
  f_AddHeader :: "string \<Rightarrow> string \<Rightarrow> 'w \<Rightarrow> 'w"
  f_PeekAll :: "string \<Rightarrow> 'w \<Rightarrow> bytes list"
  f_PeekAllResponse :: "string \<Rightarrow> 'w \<Rightarrow> bytes list"
  f_SetConnectionClose :: "'w \<Rightarrow> 'w"
  f_SetRemoteAddr :: "bytes option \<Rightarrow> 'w \<Rightarrow> 'w"
  f_ImmediateHeaderFlush :: "'w \<Rightarrow> 'w"
  f_SetBodyStreamWriter :: "'s \<Rightarrow> int \<Rightarrow> 'w \<Rightarrow> 'w"
  f_Log :: "log_event \<Rightarrow> 'w \<Rightarrow> 'w"

text \<open>
  What fasthttp documents of its response setters: a set status is read back (a zero
  status reads as 200), a set body is read back, and no setter disturbs another
  setter's part. Writing to the process log touches no response.
\<close>

definition response_laws :: "('w, 's) fasthttp \<Rightarrow> bool" where
  "response_laws F \<longleftrightarrow>
     (\<forall>c w. c \<noteq> 0 \<longrightarrow> f_StatusCode F (f_SetStatusCode F c w) = c)
     \<and> (\<forall>s w. f_StatusCode F (f_SetContentType F s w) = f_StatusCode F w)
     \<and> (\<forall>b w. f_StatusCode F (f_SetBody F b w) = f_StatusCode F w)
     \<and> (\<forall>l w. f_StatusCode F (f_Log F l w) = f_StatusCode F w)
     \<and> (\<forall>b w. f_Body F (f_SetBody F b w) = b)"

section \<open>The Ctx\<close>

text \<open>
  A key's identity is the address \<open>NewKey\<close> allocated, a number; the zero Key has none.
  The store is a slice: its backing array and its length.
\<close>

record 'v entry =
  e_key :: "nat option"
  e_val :: "'v option"

record ('w, 'x, 'v, 's) Ctx =
  poison :: bool
  fctx :: "'w option"
  has_app :: bool
  ctx :: "'x option"
  params :: Params
  store_arr :: "'v entry list"
  store_len :: nat
  handled :: bool
  streamFn :: "'s option"
  streamHeartbeat :: int
  streamSet :: bool
  route :: string

definition zero_entry :: "'v entry" where
  "zero_entry = \<lparr>e_key = None, e_val = None\<rparr>"

definition store :: "('w, 'x, 'v, 's) Ctx \<Rightarrow> 'v entry list" where
  "store c = take (store_len c) (store_arr c)"

definition storeCapacity :: nat where
  "storeCapacity = 4"

definition resetStore :: "('w, 'x, 'v, 's) Ctx \<Rightarrow> ('w, 'x, 'v, 's) Ctx" where
  "resetStore c =
     c\<lparr>store_arr := replicate (store_len c) zero_entry @ drop (store_len c) (store_arr c),
       store_len := 0\<rparr>"

definition reset :: "bool \<Rightarrow> 'w option \<Rightarrow> ('w, 'x, 'v, 's) Ctx \<Rightarrow> ('w, 'x, 'v, 's) Ctx" where
  "reset app w c =
     resetStore (c\<lparr>has_app := app, fctx := w, ctx := None, handled := False, streamFn := None,
       streamHeartbeat := 0, streamSet := False, route := [], params := Reset (params c)\<rparr>)"

section \<open>Use after release\<close>

text \<open>\<open>dbg\<close> is the build tag \<open>ricedebug\<close>; in a release build the poison does nothing.\<close>

definition errUseAfterRelease :: pvalue where
  "errUseAfterRelease = PVal ''rice: *Ctx used after its handler returned; see the borrow contract in the package documentation''"

definition poolReuse :: "bool \<Rightarrow> bool" where
  "poolReuse dbg \<longleftrightarrow> \<not> dbg"

definition mark :: "bool \<Rightarrow> ('w, 'x, 'v, 's) Ctx \<Rightarrow> ('w, 'x, 'v, 's) Ctx" where
  "mark dbg c = (if dbg then c\<lparr>poison := True\<rparr> else c)"

definition check :: "bool \<Rightarrow> (('w, 'x, 'v, 's) Ctx, unit) call" where
  "check dbg c = (if dbg \<and> poison c then (Panic errUseAfterRelease, c) else (Ret (), c))"

text \<open>Reading or writing through \<open>c.fctx\<close> dereferences it.\<close>

definition errNil :: pvalue where
  "errNil = PErr (Plain ''runtime error: invalid memory address or nil pointer dereference'')"

definition ask :: "('w \<Rightarrow> 'a) \<Rightarrow> (('w, 'x, 'v, 's) Ctx, 'a) call" where
  "ask f c = (case fctx c of None \<Rightarrow> (Panic errNil, c) | Some w \<Rightarrow> (Ret (f w), c))"

definition tell :: "('w \<Rightarrow> 'w) \<Rightarrow> (('w, 'x, 'v, 's) Ctx, unit) call" where
  "tell f c = (case fctx c of None \<Rightarrow> (Panic errNil, c) | Some w \<Rightarrow> (Ret (), c\<lparr>fctx := Some (f w)\<rparr>))"

section \<open>Reading the request\<close>

definition RequestCtx :: "bool \<Rightarrow> (('w, 'x, 'v, 's) Ctx, 'w option) call" where
  "RequestCtx dbg = then_do (check dbg) (\<lambda>_ c. (Ret (fctx c), c))"

definition Ctx_Method :: "bool \<Rightarrow> ('w, 's) fasthttp \<Rightarrow> (('w, 'x, 'v, 's) Ctx, bytes) call" where
  "Ctx_Method dbg F = then_do (check dbg) (\<lambda>_. ask (f_Method F))"

definition Ctx_Path :: "bool \<Rightarrow> ('w, 's) fasthttp \<Rightarrow> (('w, 'x, 'v, 's) Ctx, bytes) call" where
  "Ctx_Path dbg F = then_do (check dbg) (\<lambda>_. ask (f_Path F))"

definition Query :: "bool \<Rightarrow> ('w, 's) fasthttp \<Rightarrow> string \<Rightarrow> (('w, 'x, 'v, 's) Ctx, bytes) call" where
  "Query dbg F name = then_do (check dbg) (\<lambda>_. ask (f_Query F name))"

definition Header :: "bool \<Rightarrow> ('w, 's) fasthttp \<Rightarrow> string \<Rightarrow> (('w, 'x, 'v, 's) Ctx, bytes) call" where
  "Header dbg F name = then_do (check dbg) (\<lambda>_. ask (f_Header F name))"

definition Ctx_Body :: "bool \<Rightarrow> ('w, 's) fasthttp \<Rightarrow> (('w, 'x, 'v, 's) Ctx, bytes) call" where
  "Ctx_Body dbg F = then_do (check dbg) (\<lambda>_. ask (f_PostBody F))"

definition ClientIP :: "bool \<Rightarrow> ('w, 's) fasthttp \<Rightarrow> (('w, 'x, 'v, 's) Ctx, bytes) call" where
  "ClientIP dbg F = then_do (check dbg) (\<lambda>_. ask (f_RemoteIP F))"

text \<open>\<open>base\<close> is the App's base context, reached through \<open>c.app\<close>.\<close>

definition Context :: "bool \<Rightarrow> 'x \<Rightarrow> (('w, 'x, 'v, 's) Ctx, 'x) call" where
  "Context dbg base = then_do (check dbg) (\<lambda>_ c.
     case ctx c of
       Some x \<Rightarrow> (Ret x, c)
     | None \<Rightarrow> if has_app c then (Ret base, c) else (Panic errNil, c))"

definition SetContext :: "bool \<Rightarrow> 'x option \<Rightarrow> (('w, 'x, 'v, 's) Ctx, unit) call" where
  "SetContext dbg x = then_do (check dbg) (\<lambda>_ c.
     case x of
       None \<Rightarrow> (Panic (PVal ''rice: SetContext: context is nil''), c)
     | Some _ \<Rightarrow> (Ret (), c\<lparr>ctx := x\<rparr>))"

definition Route :: "bool \<Rightarrow> (('w, 'x, 'v, 's) Ctx, string) call" where
  "Route dbg = then_do (check dbg) (\<lambda>_ c. (Ret (route c), c))"

definition Ctx_Param :: "bool \<Rightarrow> string \<Rightarrow> (('w, 'x, 'v, 's) Ctx, bytes) call" where
  "Ctx_Param dbg name = then_do (check dbg) (\<lambda>_ c. (Ret (Get (params c) name), c))"

definition ParamString :: "bool \<Rightarrow> string \<Rightarrow> (('w, 'x, 'v, 's) Ctx, string) call" where
  "ParamString dbg name = then_do (check dbg) (\<lambda>_ c. (Ret (Get (params c) name), c))"

section \<open>The per-request store\<close>

fun entry_of :: "'v entry list \<Rightarrow> nat \<Rightarrow> nat option" where
  "entry_of [] k = None"
| "entry_of (e # es) k = (if e_key e = Some k then Some 0 else map_option Suc (entry_of es k))"

definition store_append :: "'v entry \<Rightarrow> ('w, 'x, 'v, 's) Ctx \<Rightarrow> ('w, 'x, 'v, 's) Ctx" where
  "store_append e c =
     (if store_len c < length (store_arr c)
      then c\<lparr>store_arr := (store_arr c)[store_len c := e], store_len := Suc (store_len c)\<rparr>
      else c\<lparr>store_arr := store c @ e #
               replicate (grown_cap (length (store_arr c)) - Suc (store_len c)) zero_entry,
             store_len := Suc (store_len c)\<rparr>)"

definition ctx_set :: "nat \<Rightarrow> 'v option \<Rightarrow> ('w, 'x, 'v, 's) Ctx \<Rightarrow> ('w, 'x, 'v, 's) Ctx" where
  "ctx_set k v c =
     (case entry_of (store c) k of
        Some i \<Rightarrow> c\<lparr>store_arr := (store_arr c)[i := (store_arr c ! i)\<lparr>e_val := v\<rparr>]\<rparr>
      | None \<Rightarrow> store_append \<lparr>e_key = Some k, e_val = v\<rparr> c)"

definition ctx_get :: "nat \<Rightarrow> ('w, 'x, 'v, 's) Ctx \<Rightarrow> 'v option \<times> bool" where
  "ctx_get k c =
     (case entry_of (store c) k of
        Some i \<Rightarrow> (e_val (store c ! i), True)
      | None \<Rightarrow> (None, False))"

text \<open>
  A Key is its identity and its name. \<open>fresh\<close> is the address the allocator returns for
  a new one. The zero value of the type a key fixes is \<open>None\<close>, what a nil reads as.
\<close>

record Key =
  k_id :: "nat option"
  k_name :: string

definition NewKey :: "nat \<Rightarrow> string \<Rightarrow> Key res" where
  "NewKey fresh name =
     (if name = [] then Panic (PVal ''rice: NewKey: name must not be empty'')
      else Ret \<lparr>k_id = Some fresh, k_name = name\<rparr>)"

definition mustBeMade :: "Key \<Rightarrow> (('w, 'x, 'v, 's) Ctx, nat) call" where
  "mustBeMade k c =
     (case k_id k of
        None \<Rightarrow> (Panic (PVal ''rice: Key used without NewKey; create keys with rice.NewKey''), c)
      | Some i \<Rightarrow> (Ret i, c))"

definition Key_Set :: "bool \<Rightarrow> Key \<Rightarrow> 'v option \<Rightarrow> (('w, 'x, 'v, 's) Ctx, unit) call" where
  "Key_Set dbg k v =
     then_do (check dbg) (\<lambda>_. then_do (mustBeMade k) (\<lambda>i c. (Ret (), ctx_set i v c)))"

definition Key_Get :: "bool \<Rightarrow> Key \<Rightarrow> (('w, 'x, 'v, 's) Ctx, 'v option \<times> bool) call" where
  "Key_Get dbg k =
     then_do (check dbg) (\<lambda>_. then_do (mustBeMade k) (\<lambda>i c. (Ret (ctx_get i c), c)))"

definition Key_String :: "Key \<Rightarrow> string" where
  "Key_String k = (case k_id k of None \<Rightarrow> [] | Some _ \<Rightarrow> k_name k)"

section \<open>Writing the response\<close>

definition MIMETextPlainUTF8 :: string where
  "MIMETextPlainUTF8 = ''text/plain; charset=utf-8''"

definition MIMEApplicationJSON :: string where
  "MIMEApplicationJSON = ''application/json''"

definition Status :: "bool \<Rightarrow> ('w, 's) fasthttp \<Rightarrow> int \<Rightarrow> (('w, 'x, 'v, 's) Ctx, unit) call" where
  "Status dbg F code = then_do (check dbg) (\<lambda>_. tell (f_SetStatusCode F code))"

definition SetHeader :: "bool \<Rightarrow> ('w, 's) fasthttp \<Rightarrow> string \<Rightarrow> string \<Rightarrow> (('w, 'x, 'v, 's) Ctx, unit) call" where
  "SetHeader dbg F k v = then_do (check dbg) (\<lambda>_. tell (f_SetHeader F k v))"

definition SetContentType :: "bool \<Rightarrow> ('w, 's) fasthttp \<Rightarrow> string \<Rightarrow> (('w, 'x, 'v, 's) Ctx, unit) call" where
  "SetContentType dbg F v = then_do (check dbg) (\<lambda>_. tell (f_SetContentType F v))"

definition Ctx_String ::
  "bool \<Rightarrow> ('w, 's) fasthttp \<Rightarrow> int \<Rightarrow> string \<Rightarrow> (('w, 'x, 'v, 's) Ctx, go_error option) call"
where
  "Ctx_String dbg F code s =
     then_do (check dbg) (\<lambda>_.
     then_do (tell (f_SetStatusCode F code)) (\<lambda>_.
     then_do (tell (f_SetContentType F MIMETextPlainUTF8)) (\<lambda>_.
     then_do (tell (f_SetBody F s)) (\<lambda>_ c. (Ret None, c)))))"

definition Bytes ::
  "bool \<Rightarrow> ('w, 's) fasthttp \<Rightarrow> int \<Rightarrow> bytes \<Rightarrow> (('w, 'x, 'v, 's) Ctx, go_error option) call"
where
  "Bytes dbg F code b =
     then_do (check dbg) (\<lambda>_.
     then_do (tell (f_SetStatusCode F code)) (\<lambda>_.
     then_do (tell (f_SetBody F b)) (\<lambda>_ c. (Ret None, c))))"

definition NoContent ::
  "bool \<Rightarrow> ('w, 's) fasthttp \<Rightarrow> int \<Rightarrow> (('w, 'x, 'v, 's) Ctx, go_error option) call"
where
  "NoContent dbg F code =
     then_do (check dbg) (\<lambda>_.
     then_do (tell (f_SetStatusCode F code)) (\<lambda>_.
     then_do (tell (f_ResetBody F)) (\<lambda>_.
     then_do (tell (f_SetContentType F [])) (\<lambda>_ c. (Ret None, c)))))"

text \<open>\<open>marshal\<close> is \<open>json.Marshal\<close>: an error or the encoded bytes.\<close>

definition JSON ::
  "bool \<Rightarrow> ('w, 's) fasthttp \<Rightarrow> ('j \<Rightarrow> go_error + bytes) \<Rightarrow> int \<Rightarrow> 'j \<Rightarrow>
   (('w, 'x, 'v, 's) Ctx, go_error option) call"
where
  "JSON dbg F marshal code v =
     then_do (check dbg) (\<lambda>_ c.
       case marshal v of
         Inl err \<Rightarrow> (Ret (Some err), c)
       | Inr b \<Rightarrow>
           then_do (tell (f_SetStatusCode F code)) (\<lambda>_.
           then_do (tell (f_SetContentType F MIMEApplicationJSON)) (\<lambda>_.
           then_do (tell (f_SetBody F b)) (\<lambda>_ c. (Ret None, c)))) c)"

section \<open>The pool\<close>

definition newCtx :: "nat \<Rightarrow> ('w, 'x, 'v, 's) Ctx" where
  "newCtx maxParams =
     \<lparr>poison = False, fctx = None, has_app = False, ctx = None, params = MakeParams maxParams,
      store_arr = replicate storeCapacity zero_entry, store_len = 0, handled = False,
      streamFn = None, streamHeartbeat = 0, streamSet = False, route = []\<rparr>"

text \<open>
  \<open>sync.Pool\<close> hands out any Ctx it holds, or a new one; \<open>pick\<close> is its choice, and a
  choice out of range is an empty pool or a dropped entry.
\<close>

definition acquire ::
  "nat \<Rightarrow> nat \<Rightarrow> ('w, 'x, 'v, 's) Ctx list \<Rightarrow> 'w \<Rightarrow>
   ('w, 'x, 'v, 's) Ctx \<times> ('w, 'x, 'v, 's) Ctx list"
where
  "acquire maxParams pick pool w =
     (if pick < length pool
      then (reset True (Some w) (pool ! pick), take pick pool @ drop (Suc pick) pool)
      else (reset True (Some w) (newCtx maxParams), pool))"

definition release ::
  "bool \<Rightarrow> ('w, 'x, 'v, 's) Ctx \<Rightarrow> ('w, 'x, 'v, 's) Ctx list \<Rightarrow> ('w, 'x, 'v, 's) Ctx list"
where
  "release dbg c pool =
     (let c' = mark dbg (reset False None c)
      in if poolReuse dbg then c' # pool else pool)"

section \<open>The store as a map\<close>

text \<open>The slots beyond the store's length are zero, so they keep nothing reachable.\<close>

definition clean_store :: "('w, 'x, 'v, 's) Ctx \<Rightarrow> bool" where
  "clean_store c \<longleftrightarrow> store_len c \<le> length (store_arr c)
     \<and> drop (store_len c) (store_arr c) = replicate (length (store_arr c) - store_len c) zero_entry"

definition clean_Ctx :: "('w, 'x, 'v, 's) Ctx \<Rightarrow> bool" where
  "clean_Ctx c \<longleftrightarrow> clean (params c) \<and> clean_store c"

lemma clean_storeI:
  assumes "store_arr c = es @ replicate k zero_entry" "store_len c = length es"
  shows "clean_store c" "store c = es"
  using assms by (simp_all add: clean_store_def store_def)

lemma clean_storeE:
  assumes "clean_store c"
  obtains k where "store_arr c = store c @ replicate k zero_entry" "store_len c = length (store c)"
proof
  show "store_arr c = store c @ replicate (length (store_arr c) - store_len c) zero_entry"
    using assms unfolding clean_store_def store_def by (metis append_take_drop_id)
  show "store_len c = length (store c)"
    using assms by (simp add: clean_store_def store_def)
qed

lemma store_append_spec:
  assumes "clean_store c"
  shows "clean_store (store_append e c)" "store (store_append e c) = store c @ [e]"
proof -
  obtain k where k: "store_arr c = store c @ replicate k zero_entry" "store_len c = length (store c)"
    using assms by (rule clean_storeE)
  have "\<exists>k'. store_arr (store_append e c) = (store c @ [e]) @ replicate k' zero_entry"
  proof (cases k)
    case (Suc j)
    then have "(store_arr c)[store_len c := e] = (store c @ [e]) @ replicate j zero_entry"
      using k by (simp add: list_update_append)
    then show ?thesis
      using k Suc by (auto simp: store_append_def)
  qed (use k in \<open>auto simp: store_append_def\<close>)
  then obtain k' where "store_arr (store_append e c) = (store c @ [e]) @ replicate k' zero_entry" ..
  moreover have "store_len (store_append e c) = length (store c @ [e])"
    using k(2) by (simp add: store_append_def)
  ultimately show "clean_store (store_append e c)" "store (store_append e c) = store c @ [e]"
    by (rule clean_storeI)+
qed

lemma entry_of_SomeD: "entry_of es k = Some i \<Longrightarrow> i < length es \<and> e_key (es ! i) = Some k"
  by (induction es arbitrary: i) (auto split: if_splits)

lemma entry_of_append:
  "entry_of (es @ fs) k = (case entry_of es k of Some i \<Rightarrow> Some i
     | None \<Rightarrow> map_option ((+) (length es)) (entry_of fs k))"
proof (induction es)
  case Nil
  then show ?case by (simp add: option.map_ident_strong)
next
  case (Cons e es)
  then show ?case
    by (cases "entry_of fs k") (auto split: option.splits)
qed

lemma entry_of_update_val: "entry_of (es[i := (es ! i)\<lparr>e_val := v\<rparr>]) k = entry_of es k"
  by (induction es arbitrary: i) (auto split: nat.split)

lemma ctx_set_spec:
  assumes "clean_store c"
  shows "clean_store (ctx_set k v c)"
    and "store (ctx_set k v c) = (case entry_of (store c) k of
       Some i \<Rightarrow> (store c)[i := (store c ! i)\<lparr>e_val := v\<rparr>]
     | None \<Rightarrow> store c @ [\<lparr>e_key = Some k, e_val = v\<rparr>])"
proof -
  obtain m where m: "store_arr c = store c @ replicate m zero_entry" "store_len c = length (store c)"
    using assms by (rule clean_storeE)
  have upd: "store_arr (ctx_set k v c) = (store c)[i := (store c ! i)\<lparr>e_val := v\<rparr>] @ replicate m zero_entry
      \<and> store_len (ctx_set k v c) = length (store c)"
    if "entry_of (store c) k = Some i" for i
    using that m entry_of_SomeD [OF that]
    by (simp add: ctx_set_def list_update_append nth_append)
  show "clean_store (ctx_set k v c)"
    using upd store_append_spec(1) [OF assms]
    by (cases "entry_of (store c) k") (auto simp: ctx_set_def intro: clean_storeI(1))
  show "store (ctx_set k v c) = (case entry_of (store c) k of
       Some i \<Rightarrow> (store c)[i := (store c ! i)\<lparr>e_val := v\<rparr>]
     | None \<Rightarrow> store c @ [\<lparr>e_key = Some k, e_val = v\<rparr>])"
    using upd store_append_spec(2) [OF assms]
    by (cases "entry_of (store c) k") (auto simp: ctx_set_def intro: clean_storeI(2))
qed

lemma ctx_set_get:
  assumes "clean_store c"
  shows "ctx_get j (ctx_set k v c) = (if j = k then (v, True) else ctx_get j c)"
proof (cases "entry_of (store c) k")
  case None
  then show ?thesis
    using ctx_set_spec [OF assms, of k v]
    by (auto simp: ctx_get_def entry_of_append nth_append split: option.splits dest: entry_of_SomeD)
next
  case (Some i)
  then show ?thesis
    using ctx_set_spec [OF assms, of k v] entry_of_SomeD [OF Some]
    by (auto simp: ctx_get_def entry_of_update_val nth_list_update split: option.splits dest: entry_of_SomeD)
qed

lemma clean_resetStore:
  assumes "clean_store c"
  shows "store_arr (resetStore c) = replicate (length (store_arr c)) zero_entry"
    "store_len (resetStore c) = 0"
proof -
  obtain m where "store_arr c = store c @ replicate m zero_entry" "store_len c = length (store c)"
    using assms by (rule clean_storeE)
  then show "store_arr (resetStore c) = replicate (length (store_arr c)) zero_entry"
    "store_len (resetStore c) = 0"
    by (simp_all add: resetStore_def replicate_add [symmetric] add.commute)
qed

lemma clean_store_fields [simp]:
  "clean_store (c\<lparr>fctx := a1\<rparr>) = clean_store c" "clean_store (c\<lparr>ctx := a2\<rparr>) = clean_store c"
  "clean_store (c\<lparr>params := a3\<rparr>) = clean_store c" "clean_store (c\<lparr>handled := b1\<rparr>) = clean_store c"
  "clean_store (c\<lparr>streamFn := a4\<rparr>) = clean_store c" "clean_store (c\<lparr>route := a5\<rparr>) = clean_store c"
  "clean_store (c\<lparr>streamHeartbeat := a6\<rparr>) = clean_store c" "clean_store (c\<lparr>streamSet := b2\<rparr>) = clean_store c"
  "clean_store (c\<lparr>poison := b3\<rparr>) = clean_store c" "clean_store (c\<lparr>has_app := b4\<rparr>) = clean_store c"
  by (simp_all add: clean_store_def)

section \<open>What a pooled Ctx keeps\<close>

text \<open>Nothing but the capacities of its two buffers.\<close>

definition blank :: "('w, 'x, 'v, 's) Ctx \<Rightarrow> bool" where
  "blank c \<longleftrightarrow> (\<exists>n k. c = (newCtx n)\<lparr>store_arr := replicate k zero_entry\<rparr>)"

lemma blank_newCtx: "blank (newCtx n)"
  by (auto simp: blank_def newCtx_def)

lemma reset_blank:
  assumes "clean_Ctx c" "\<not> poison c"
  shows "reset app w c = (newCtx (Cap (params c)))\<lparr>store_arr := replicate (length (store_arr c)) zero_entry,
     has_app := app, fctx := w\<rparr>"
proof -
  let ?c = "c\<lparr>has_app := app, fctx := w, ctx := None, handled := False, streamFn := None,
     streamHeartbeat := 0, streamSet := False, route := [], params := Reset (params c)\<rparr>"
  have "Reset (params c) = MakeParams (Cap (params c))"
    using assms(1) by (intro Reset_eq_MakeParams) (simp add: clean_Ctx_def)
  moreover have "clean_store ?c" using assms(1) by (simp add: clean_Ctx_def)
  from clean_resetStore [OF this] have "store_arr (resetStore ?c) = replicate (length (store_arr c)) zero_entry"
    "store_len (resetStore ?c) = 0" by simp_all
  ultimately show ?thesis
    using assms(2) by (auto simp: reset_def newCtx_def resetStore_def intro: Ctx.equality)
qed

lemma clean_blank:
  assumes "blank c"
  shows "clean_Ctx c" "\<not> poison c"
  using assms by (auto simp: blank_def clean_Ctx_def newCtx_def clean_store_def)

lemma blank_release:
  assumes "clean_Ctx c" "\<not> poison c" "\<forall>d\<in>set pool. blank d"
  shows "\<forall>d\<in>set (release dbg c pool). blank d"
  using assms(3) reset_blank [OF assms(1,2), of False None]
  by (auto simp: release_def Let_def poolReuse_def mark_def blank_def newCtx_def)

lemma acquire_blank:
  assumes "\<forall>d\<in>set pool. blank d" "acquire maxParams pick pool w = (c, pool')"
  shows "\<exists>n k. c = (newCtx n)\<lparr>store_arr := replicate k zero_entry, has_app := True, fctx := Some w\<rparr>"
    and "\<forall>d\<in>set pool'. blank d"
proof -
  define d where "d = (if pick < length pool then pool ! pick else newCtx maxParams)"
  have "blank d"
    using assms(1) blank_newCtx by (auto simp: d_def)
  then have "c = (newCtx (Cap (params d)))\<lparr>store_arr := replicate (length (store_arr d)) zero_entry,
      has_app := True, fctx := Some w\<rparr>"
    using reset_blank [OF clean_blank [OF \<open>blank d\<close>]] assms(2)
    by (auto simp: acquire_def d_def split: if_splits)
  then show "\<exists>n k. c = (newCtx n)\<lparr>store_arr := replicate k zero_entry, has_app := True, fctx := Some w\<rparr>"
    by blast
  show "\<forall>d\<in>set pool'. blank d"
  proof -
    have "set pool' \<subseteq> set pool"
      using assms(2) set_take_subset [of pick pool] set_drop_subset [of "Suc pick" pool]
      by (auto simp: acquire_def split: if_splits)
    then show ?thesis using assms(1) by blast
  qed
qed

section \<open>Well-behaved calls\<close>

text \<open>
  A Ctx bound to a request, and the calls that keep it so and never unsettle a settled
  request. Every exported operation is one, and so is every composition of them: it is
  the hypothesis the dispatch theorems make of the application's code, which cannot
  reach the private fields.
\<close>

definition bound :: "('w, 'x, 'v, 's) Ctx \<Rightarrow> bool" where
  "bound c \<longleftrightarrow> fctx c \<noteq> None \<and> has_app c \<and> clean_Ctx c \<and> \<not> poison c"

definition well_behaved :: "(('w, 'x, 'v, 's) Ctx, 'a) call \<Rightarrow> bool" where
  "well_behaved f \<longleftrightarrow>
     (\<forall>c. bound c \<longrightarrow> bound (snd (f c)) \<and> (handled c \<longrightarrow> handled (snd (f c))))"

named_theorems api \<open>the calls that are well behaved\<close>

lemma wb_then_do [api]:
  assumes "well_behaved f" "\<And>x. well_behaved (g x)"
  shows "well_behaved (then_do f g)"
  unfolding well_behaved_def
proof (intro allI impI)
  fix c :: "('a, 'b, 'c, 'd) Ctx"
  assume "bound c"
  then have f: "bound (snd (f c))" "handled c \<longrightarrow> handled (snd (f c))"
    using assms(1) by (auto simp: well_behaved_def)
  obtain r c' where fc: "f c = (r, c')" by fastforce
  show "bound (snd (then_do f g c)) \<and> (handled c \<longrightarrow> handled (snd (then_do f g c)))"
    using f fc assms(2) by (cases r) (auto simp: well_behaved_def)
qed

lemma wb_ret [api]: "well_behaved (\<lambda>c. (f c, c))"
  by (simp add: well_behaved_def)

lemma wb_check [api]: "well_behaved (check dbg)"
  by (simp add: well_behaved_def check_def)

lemma wb_ask [api]: "well_behaved (ask f)"
  by (simp add: well_behaved_def ask_def split: option.split)

lemma wb_tell [api]: "well_behaved (tell f)"
  by (auto simp: well_behaved_def tell_def bound_def clean_Ctx_def split: option.split)

lemma wb_mustBeMade [api]: "well_behaved (mustBeMade k)"
  by (simp add: well_behaved_def mustBeMade_def split: option.split)

lemma wb_ctx_set [api]: "well_behaved (\<lambda>c. (r, ctx_set k v c))"
proof -
  have "fctx (ctx_set k v c) = fctx c" "has_app (ctx_set k v c) = has_app c"
    "params (ctx_set k v c) = params c" "poison (ctx_set k v c) = poison c"
    "handled (ctx_set k v c) = handled c" for c :: "('a, 'b, 'c, 'd) Ctx"
    by (simp_all add: ctx_set_def store_append_def split: option.split)
  then show ?thesis
    by (auto simp: well_behaved_def bound_def clean_Ctx_def ctx_set_spec)
qed

lemma wb_SetContext [api]: "well_behaved (SetContext dbg x)"
proof -
  have "well_behaved (\<lambda>c. case x of None \<Rightarrow> (Panic v, c) | Some _ \<Rightarrow> (Ret (), c\<lparr>ctx := x\<rparr>))" for v
    by (auto simp: well_behaved_def bound_def clean_Ctx_def split: option.split)
  then show ?thesis
    unfolding SetContext_def by (intro api)
qed

lemma wb_JSON [api]: "well_behaved (JSON dbg F marshal code v)"
  unfolding JSON_def by (cases "marshal v") (auto intro!: api)

lemma wb_Context [api]: "well_behaved (Context dbg base)"
proof -
  have "well_behaved (\<lambda>c. case ctx c of Some x \<Rightarrow> (Ret x, c)
     | None \<Rightarrow> if has_app c then (Ret base, c) else (Panic errNil, c))"
    by (auto simp: well_behaved_def split: option.split)
  then show ?thesis
    unfolding Context_def by (intro api)
qed

lemma wb_api [api]:
  "well_behaved (RequestCtx dbg)" "well_behaved (Ctx_Method dbg F)" "well_behaved (Ctx_Path dbg F)"
  "well_behaved (Query dbg F name)" "well_behaved (Header dbg F name)" "well_behaved (Ctx_Body dbg F)"
  "well_behaved (ClientIP dbg F)" "well_behaved (Route dbg)" "well_behaved (Ctx_Param dbg name)"
  "well_behaved (ParamString dbg name)" "well_behaved (Key_Set dbg k x)" "well_behaved (Key_Get dbg k)"
  "well_behaved (Status dbg F code)" "well_behaved (SetHeader dbg F hk hv)"
  "well_behaved (SetContentType dbg F hv)" "well_behaved (Ctx_String dbg F code s)"
  "well_behaved (Bytes dbg F code b)" "well_behaved (NoContent dbg F code)"
  unfolding RequestCtx_def Ctx_Method_def Ctx_Path_def Query_def Header_def Ctx_Body_def ClientIP_def
    Route_def Ctx_Param_def ParamString_def Key_Set_def Key_Get_def Status_def SetHeader_def
    SetContentType_def Ctx_String_def Bytes_def NoContent_def
  by (intro api)+

section \<open>What the calls do on a bound Ctx\<close>

text \<open>
  The middleware theories compute with these: on a Ctx bound to a request no operation
  fails, readers leave it alone, and writers change the one part they name.
\<close>

definition req :: "('w, 'x, 'v, 's) Ctx \<Rightarrow> 'w" where
  "req c = the (fctx c)"

definition on_req :: "('w \<Rightarrow> 'w) \<Rightarrow> ('w, 'x, 'v, 's) Ctx \<Rightarrow> ('w, 'x, 'v, 's) Ctx" where
  "on_req f c = c\<lparr>fctx := Some (f (req c))\<rparr>"

definition cur_ctx :: "'x \<Rightarrow> ('w, 'x, 'v, 's) Ctx \<Rightarrow> 'x" where
  "cur_ctx base c = (case ctx c of Some x \<Rightarrow> x | None \<Rightarrow> base)"

named_theorems bound_calls \<open>the operations evaluated on a bound Ctx\<close>

lemma check_bound [bound_calls]: "bound c \<Longrightarrow> check dbg c = (Ret (), c)"
  by (simp add: bound_def check_def)

lemma ask_bound [bound_calls]: "bound c \<Longrightarrow> ask f c = (Ret (f (req c)), c)"
  by (auto simp: bound_def ask_def req_def)

lemma tell_bound [bound_calls]: "bound c \<Longrightarrow> tell f c = (Ret (), on_req f c)"
  by (auto simp: bound_def tell_def req_def on_req_def)

lemma readers_bound [bound_calls]:
  assumes "bound c"
  shows "RequestCtx dbg c = (Ret (fctx c), c)" "Header dbg F name c = (Ret (f_Header F name (req c)), c)"
    "Ctx_Method dbg F c = (Ret (f_Method F (req c)), c)" "Ctx_Path dbg F c = (Ret (f_Path F (req c)), c)"
    "Ctx_Body dbg F c = (Ret (f_PostBody F (req c)), c)" "ClientIP dbg F c = (Ret (f_RemoteIP F (req c)), c)"
    "Route dbg c = (Ret (route c), c)" "Context dbg base c = (Ret (cur_ctx base c), c)"
  using assms check_bound [OF assms, of dbg] ask_bound [OF assms]
  by (auto simp: RequestCtx_def Header_def Ctx_Method_def Ctx_Path_def Ctx_Body_def ClientIP_def Route_def
      Context_def cur_ctx_def bound_def split: option.split)

lemma writers_bound [bound_calls]:
  assumes "bound c"
  shows "SetHeader dbg F k v c = (Ret (), on_req (f_SetHeader F k v) c)"
    "Status dbg F code c = (Ret (), on_req (f_SetStatusCode F code) c)"
    "SetContext dbg (Some x) c = (Ret (), c\<lparr>ctx := Some x\<rparr>)"
    "Key_Set dbg \<lparr>k_id = Some i, k_name = nm\<rparr> y c = (Ret (), ctx_set i y c)"
    "Key_Get dbg \<lparr>k_id = Some i, k_name = nm\<rparr> c = (Ret (ctx_get i c), c)"
  using check_bound [OF assms, of dbg] tell_bound [OF assms]
  by (simp_all add: SetHeader_def Status_def SetContext_def Key_Set_def Key_Get_def mustBeMade_def)

lemma bound_on_req [bound_calls]: "bound c \<Longrightarrow> bound (on_req f c)"
  using wb_tell [of f] tell_bound [of c f] unfolding well_behaved_def by (metis snd_conv)

lemma bound_ctx_set [bound_calls]: "bound c \<Longrightarrow> bound (ctx_set k v c)"
  using wb_ctx_set [of "Ret ()" k v] unfolding well_behaved_def by fastforce

lemma bound_SetContext [bound_calls]: "bound c \<Longrightarrow> bound (c\<lparr>ctx := x\<rparr>)"
  by (simp add: bound_def clean_Ctx_def)

lemma req_updates [simp]:
  "req (on_req f c) = f (req c)" "req (ctx_set k v c) = req c" "req (c\<lparr>ctx := x\<rparr>) = req c"
  "ctx (on_req f c) = ctx c" "route (on_req f c) = route c" "handled (on_req f c) = handled c"
  by (simp_all add: req_def on_req_def ctx_set_def store_append_def split: option.split)

lemma ctx_get_on_req [simp]: "ctx_get k (on_req f c) = ctx_get k c"
proof -
  have "store (on_req f c) = store c" by (simp add: store_def on_req_def)
  then show ?thesis by (simp add: ctx_get_def split: option.split)
qed

lemma on_req_on_req [simp]: "on_req g (on_req f c) = on_req (\<lambda>w. g (f w)) c"
  by (simp add: on_req_def req_def)

lemma String_bound [bound_calls]:
  assumes "bound c"
  shows "Ctx_String dbg F code s c =
     (Ret None, on_req (\<lambda>w. f_SetBody F s (f_SetContentType F MIMETextPlainUTF8 (f_SetStatusCode F code w))) c)"
  using assms by (simp add: Ctx_String_def bound_calls)

lemma bound_acquired: "bound ((newCtx n)\<lparr>fctx := Some w, has_app := True\<rparr> :: ('w, 'x, 'v, 's) Ctx)"
  by (simp add: bound_def newCtx_def clean_Ctx_def clean_store_def)

section \<open>A transport to run it on\<close>

text \<open>A plain response record with the operations the laws describe.\<close>

record 's wire =
  wi_method :: bytes
  wi_path :: bytes
  wi_status :: int
  wi_ctype :: string
  wi_body :: bytes
  wi_headers :: "(string \<times> string) list"
  wi_close :: bool
  wi_remote :: "bytes option"
  wi_log :: "log_event list"
  wi_stream :: "('s \<times> int) option"

definition wire_http :: "('s wire, 's) fasthttp" where
  "wire_http =
     \<lparr>f_Method = wi_method, f_Path = wi_path, f_Query = (\<lambda>_ _. []), f_Header = (\<lambda>_ _. []),
      f_PostBody = (\<lambda>_. []), f_RemoteIP = (\<lambda>_. []), f_IsHead = (\<lambda>w. wi_method w = ''HEAD''),
      f_StatusMessage = (\<lambda>_. ''Status''),
      f_StatusCode = (\<lambda>w. if wi_status w = 0 then 200 else wi_status w), f_Body = wi_body,
      f_SetStatusCode = (\<lambda>c w. w\<lparr>wi_status := c\<rparr>), f_SetContentType = (\<lambda>s w. w\<lparr>wi_ctype := s\<rparr>),
      f_SetBody = (\<lambda>b w. w\<lparr>wi_body := b\<rparr>), f_ResetBody = (\<lambda>w. w\<lparr>wi_body := []\<rparr>),
      f_SetHeader = (\<lambda>k v w. w\<lparr>wi_headers := filter (\<lambda>h. fst h \<noteq> k) (wi_headers w) @ [(k, v)]\<rparr>),
      f_AddHeader = (\<lambda>k v w. w\<lparr>wi_headers := wi_headers w @ [(k, v)]\<rparr>), f_PeekAll = (\<lambda>_ _. []),
      f_PeekAllResponse = (\<lambda>k w. map snd (filter (\<lambda>h. fst h = k) (wi_headers w))),
      f_SetConnectionClose = (\<lambda>w. w\<lparr>wi_close := True\<rparr>),
      f_SetRemoteAddr = (\<lambda>a w. w\<lparr>wi_remote := a\<rparr>), f_ImmediateHeaderFlush = (\<lambda>w. w),
      f_SetBodyStreamWriter = (\<lambda>fn hb w. w\<lparr>wi_stream := Some (fn, hb)\<rparr>),
      f_Log = (\<lambda>l w. w\<lparr>wi_log := l # wi_log w\<rparr>)\<rparr>"

definition get_wire :: "nat wire" where
  "get_wire = \<lparr>wi_method = ''GET'', wi_path = ''/a'', wi_status = 0, wi_ctype = [], wi_body = [],
     wi_headers = [], wi_close = False, wi_remote = None, wi_log = [], wi_stream = None\<rparr>"

lemma wire_laws: "response_laws wire_http"
  by (simp add: response_laws_def wire_http_def)

section \<open>Properties\<close>

text \<open>
  A key's value in the per-request store is the last one set under that key's
  identity, other keys are not disturbed, and storing keeps the slots beyond the
  store's length zero.
\<close>

lemma store_get_set:
  assumes "clean_store c"
  shows "clean_store (ctx_set k v c)
    \<and> ctx_get j (ctx_set k v c) = (if j = k then (v, True) else ctx_get j c)"
  using assms ctx_set_spec(1) ctx_set_get by blast



text \<open>
  In a debug build a released Ctx is never handed out again and every use of it
  panics with the borrow-contract message instead of touching any request.
\<close>

lemma use_after_release_panics:
  fixes c :: "('w, 'x, 'v, 's) Ctx"
  defines "d \<equiv> mark True (reset False None c)"
  shows "release True c pool = pool
    \<and> Ctx_Method True F d = (Panic errUseAfterRelease, d)
    \<and> Ctx_Body True F d = (Panic errUseAfterRelease, d)
    \<and> Ctx_Param True name d = (Panic errUseAfterRelease, d)
    \<and> Key_Get True key d = (Panic errUseAfterRelease, d)
    \<and> Key_Set True key v d = (Panic errUseAfterRelease, d)
    \<and> Ctx_String True F code s d = (Panic errUseAfterRelease, d)
    \<and> JSON True F marshal code j d = (Panic errUseAfterRelease, d)"
  by (simp add: d_def release_def poolReuse_def mark_def check_def then_do_def Ctx_Method_def
      Ctx_Body_def Ctx_Param_def Key_Get_def Key_Set_def Ctx_String_def JSON_def)

text \<open>
  A value that does not encode leaves the response exactly as it was and hands the
  encoder's error to the funnel.
\<close>

lemma JSON_error_writes_nothing:
  assumes "marshal v = Inl err" "\<not> poison c"
  shows "JSON dbg F marshal code v c = (Ret (Some err), c)"
  using assms by (simp add: JSON_def then_do_def check_def)

end
