(* ===== verification/Rate_Limit.thy ===== *)
theory Rate_Limit
  imports Ctx "HOL-Library.Signed_Division"
begin

text \<open>
  Rate limiting: \<open>middleware/ratelimit.go\<close> and \<open>middleware/memorystore.go\<close>.

  An \<open>int64\<close> is an \<^typ>\<open>int\<close> whose every sum, difference and product is wrapped with
  \<open>wrap64\<close>; Go's division truncates, which is \<open>sdiv\<close> and \<open>smod\<close>. The locale
  \<open>rate_limit_store\<close> is the contract of the interface \<open>RateLimitStore\<close>: GCRA over a
  theoretical arrival time per key. What it implies for a client (how many requests a
  key gets through) is proved inside it, and it is interpreted on the sharded, sweeping,
  wrapping \<open>MemoryStore\<close>.
\<close>

section \<open>Limits\<close>

record Limit =
  Rate :: int
  Per :: int
  Burst :: int

definition Limit_params :: "Limit \<Rightarrow> string + int \<times> int" where
  "Limit_params l =
     (if Rate l \<le> 0 then Inl ''Rate must be positive''
      else if Per l \<le> 0 then Inl ''Per must be positive''
      else if Burst l < 0 then Inl ''Burst may not be negative''
      else
        let interval = Per l sdiv Rate l
        in if interval = 0 then Inl ''Per / Rate is below one nanosecond''
           else
             let burst = (if Burst l = 0 then Rate l else Burst l)
             in if burst > maxInt64 sdiv 4 sdiv interval
                then Inl ''Burst * Per / Rate exceeds about 73 years''
                else Inr (interval, burst))"

definition horizon :: int where
  "horizon = maxInt64 div 4"

lemma sdiv_nonneg: "0 \<le> a \<Longrightarrow> 0 < b \<Longrightarrow> a sdiv b = a div (b::int)"
  by (simp add: signed_divide_int_def sgn_if)

lemma Limit_params_bounds:
  assumes "Limit_params l = Inr (i, b)"
  shows "0 < i" "0 < b" "b * i \<le> horizon"
proof -
  have pos: "Rate l > 0" "Per l > 0" "Burst l \<ge> 0" and i: "i = Per l sdiv Rate l" "i \<noteq> 0"
    and b: "b = (if Burst l = 0 then Rate l else Burst l)" "b \<le> maxInt64 sdiv 4 sdiv i"
    using assms by (auto simp: Limit_params_def Let_def split: if_splits)
  then have "i = Per l div Rate l"
    by (simp add: sdiv_nonneg)
  then show i0: "0 < i"
    using pos i(2) pos_imp_zdiv_nonneg_iff [of "Rate l" "Per l"] by linarith
  show "0 < b" using b(1) pos by auto
  have "maxInt64 sdiv 4 = horizon" "0 \<le> horizon"
    by (simp_all add: sdiv_nonneg maxInt64_def horizon_def)
  then have "b \<le> horizon div i"
    using b(2) i0 by (simp add: sdiv_nonneg)
  then have "b * i \<le> horizon div i * i"
    using i0 by simp
  also have "\<dots> \<le> horizon"
    using i0 by (metis add.commute div_mult_mod_eq le_add_same_cancel2 pos_mod_sign)
  finally show "b * i \<le> horizon" .
qed

section \<open>MemoryStore\<close>

definition memoryShards :: nat where
  "memoryShards = 64"

record memoryShard =
  tat :: "string \<Rightarrow> int option"
  lastSweep :: int

record MemoryStore =
  sweepEvery :: int
  shards :: "nat \<Rightarrow> memoryShard"

text \<open>A minute, in nanoseconds.\<close>

definition NewMemoryStore :: MemoryStore where
  "NewMemoryStore =
     \<lparr>sweepEvery = 60000000000, shards = (\<lambda>_. \<lparr>tat = (\<lambda>_. None), lastSweep = 0\<rparr>)\<rparr>"

definition sweep :: "int \<Rightarrow> int \<Rightarrow> memoryShard \<Rightarrow> memoryShard" where
  "sweep every now sh =
     (if wrap64 (now - lastSweep sh) \<ge> every
      then \<lparr>tat = (\<lambda>k. case tat sh k of Some t \<Rightarrow> if t \<le> now then None else Some t | None \<Rightarrow> None),
            lastSweep = now\<rparr>
      else sh)"

text \<open>
  \<open>hash\<close> is the seeded \<open>maphash.String\<close>; \<open>now\<close> is the monotonic time since the store was
  made, in nanoseconds.
\<close>

definition shard_of :: "(string \<Rightarrow> nat) \<Rightarrow> string \<Rightarrow> nat" where
  "shard_of hash key = hash key mod memoryShards"

definition Take ::
  "(string \<Rightarrow> nat) \<Rightarrow> MemoryStore \<Rightarrow> int \<Rightarrow> string \<Rightarrow> Limit \<Rightarrow> (go_error + int) \<times> MemoryStore"
where
  "Take hash s now key l =
     (case Limit_params l of
        Inl msg \<Rightarrow> (Inl (Plain (''rice: middleware.MemoryStore: '' @ msg)), s)
      | Inr (interval, burst) \<Rightarrow>
          let n = shard_of hash key;
              sh = sweep (sweepEvery s) now (shards s n);
              t = (case tat sh key of None \<Rightarrow> now | Some t \<Rightarrow> if t < now then now else t);
              next = wrap64 (t + interval);
              allowAt = wrap64 (next - wrap64 (burst * interval))
          in if now < allowAt
             then (Inr (wrap64 (allowAt - now)), s\<lparr>shards := (shards s)(n := sh)\<rparr>)
             else (Inr 0, s\<lparr>shards := (shards s)(n := sh\<lparr>tat := (tat sh)(key \<mapsto> next)\<rparr>)\<rparr>))"

section \<open>Sequences of requests\<close>

text \<open>
  Requests with their time, key and limit, charged one after the other by \<open>take_one\<close>; the
  answers beside the final state.
\<close>

fun run ::
  "('s \<Rightarrow> int \<Rightarrow> 'k \<Rightarrow> Limit \<Rightarrow> ('e + int) \<times> 's) \<Rightarrow> 's \<Rightarrow> (int \<times> 'k \<times> Limit) list \<Rightarrow>
   ('e + int) list \<times> 's"
where
  "run take_one s [] = ([], s)"
| "run take_one s ((t, k, l) # es) =
     (let (r, s') = take_one s t k l; (rs, s'') = run take_one s' es in (r # rs, s''))"

text \<open>How many requests of a key were admitted.\<close>

fun admitted :: "'k \<Rightarrow> (int \<times> 'k \<times> Limit) list \<Rightarrow> ('e + int) list \<Rightarrow> nat" where
  "admitted k ((_, k', _) # es) (r # rs) =
     (if k' = k \<and> r = Inr 0 then Suc (admitted k es rs) else admitted k es rs)"
| "admitted k _ _ = 0"

text \<open>Times do not decrease, stay within \<open>limit\<close>, and key \<open>k\<close> always comes with \<open>l\<close>.\<close>

fun scheduled :: "int \<Rightarrow> 'k \<Rightarrow> Limit \<Rightarrow> int \<Rightarrow> (int \<times> 'k \<times> Limit) list \<Rightarrow> bool" where
  "scheduled limit k l t [] = True"
| "scheduled limit k l t ((t', k', l') # es) \<longleftrightarrow>
     t \<le> t' \<and> t' \<le> limit \<and> (k' = k \<longrightarrow> l' = l) \<and> scheduled limit k l t' es"

section \<open>The contract of a RateLimitStore\<close>

text \<open>
  \<open>eff s now k\<close> is the theoretical arrival time of key \<open>k\<close> as seen at time \<open>now\<close>: when the
  next request would arrive if the key kept exactly to its rate. \<open>inv s now\<close> holds of the
  states a store can be in at time \<open>now\<close>; time does not run past \<open>limit\<close>.
\<close>

locale rate_limit_store =
  fixes inv :: "'s \<Rightarrow> int \<Rightarrow> bool"
    and eff :: "'s \<Rightarrow> int \<Rightarrow> 'k \<Rightarrow> int"
    and take_one :: "'s \<Rightarrow> int \<Rightarrow> 'k \<Rightarrow> Limit \<Rightarrow> ('e + int) \<times> 's"
    and limit :: int
  assumes inv_later: "inv s t \<Longrightarrow> t \<le> t' \<Longrightarrow> t' \<le> limit \<Longrightarrow> inv s t'"
    and eff_later: "inv s t \<Longrightarrow> t \<le> t' \<Longrightarrow> eff s t' k = max t' (eff s t k)"
    and eff_now: "inv s t \<Longrightarrow> t \<le> eff s t k"
    and inv_take: "inv s t \<Longrightarrow> inv (snd (take_one s t k l)) t"
    and take_bad: "Limit_params l = Inl msg \<Longrightarrow> inv s t \<Longrightarrow>
      isl (fst (take_one s t k l)) \<and> eff (snd (take_one s t k l)) t k' = eff s t k'"
    and take_ok: "Limit_params l = Inr (i, b) \<Longrightarrow> inv s t \<Longrightarrow> eff s t k + i \<le> t + b * i \<Longrightarrow>
      fst (take_one s t k l) = Inr 0
      \<and> eff (snd (take_one s t k l)) t k' = (if k' = k then eff s t k + i else eff s t k')"
    and take_wait: "Limit_params l = Inr (i, b) \<Longrightarrow> inv s t \<Longrightarrow> eff s t k + i > t + b * i \<Longrightarrow>
      fst (take_one s t k l) = Inr (eff s t k + i - b * i - t)
      \<and> eff (snd (take_one s t k l)) t k' = eff s t k'"
begin

lemma eff_take:
  assumes "inv s t" "Limit_params l = Inr (i, b)" "k' = k \<longrightarrow> l' = l"
  shows "if k' = k \<and> fst (take_one s t k' l') = Inr 0
    then eff (snd (take_one s t k' l')) t k = eff s t k + i \<and> eff s t k + i \<le> t + b * i
    else eff (snd (take_one s t k' l')) t k = eff s t k"
proof (cases "k' = k")
  case True
  then show ?thesis
    using assms take_ok [OF assms(2,1), of k k] take_wait [OF assms(2,1), of k k]
    by (cases "eff s t k + i \<le> t + b * i") auto
next
  case False
  then show ?thesis
    using take_bad [of l' _ s t k' k] take_ok [of l' _ _ s t k' k] take_wait [of l' _ _ s t k' k] assms(1)
    by (cases "Limit_params l'") (auto, metis linorder_not_le surj_pair)
qed

text \<open>
  GCRA's bound: over any stretch of time a key gets through at most its burst plus one
  request per interval elapsed, whatever the other keys do.
\<close>

lemma admitted_bound:
  assumes "Limit_params l = Inr (i, b)" "inv s t0" "scheduled limit k l t0 es" "run take_one s es = (rs, s')"
    and "es \<noteq> []" "0 < b" "0 < i"
  shows "int (admitted k es rs) * i \<le> fst (last es) - t0 + b * i"
proof -
  have "eff s t0 k + int (admitted k es rs) * i \<le> max (eff s t0 k) (fst (last es) + b * i) \<and> t0 \<le> fst (last es)"
    using assms(2-5)
  proof (induction es arbitrary: s t0 rs s')
    case (Cons e es)
    obtain t k' l' where e: "e = (t, k', l')" by (cases e)
    obtain r s1 where one: "take_one s t k' l' = (r, s1)" by fastforce
    obtain rs1 s2 where rest: "run take_one s1 es = (rs1, s2)" by fastforce
    have t: "t0 \<le> t" "t \<le> limit" "k' = k \<longrightarrow> l' = l" "scheduled limit k l t es"
      using Cons.prems(2) e by auto
    have rs: "rs = r # rs1" using Cons.prems(3) e one rest by simp
    have inv: "inv s t" "inv s1 t"
      using inv_later [OF Cons.prems(1) t(1,2)] inv_take [of s t k' l'] one by auto
    have eff: "eff s t k = max t (eff s t0 k)"
      by (rule eff_later [OF Cons.prems(1) t(1)])
    have step: "if k' = k \<and> r = Inr 0 then eff s1 t k = eff s t k + i \<and> eff s t k + i \<le> t + b * i
        else eff s1 t k = eff s t k"
      using eff_take [OF inv(1) assms(1) t(3)] by (simp only: one fst_conv snd_conv)
    show ?case
    proof (cases "es = []")
      case True
      then show ?thesis
        using e rs rest step eff t(1) by (auto simp: algebra_simps)
    next
      case False
      have last: "eff s1 t k + int (admitted k es rs1) * i \<le> max (eff s1 t k) (fst (last es) + b * i)"
        "t \<le> fst (last es)"
        using Cons.IH [OF inv(2) t(4) rest False] by auto
      have "0 < b * i" using assms(6,7) by simp
      then show ?thesis
        using e rs False last step eff t(1)
        by (auto simp: algebra_simps split: if_splits)
    qed
  qed simp
  moreover have "t0 \<le> eff s t0 k" by (rule eff_now [OF assms(2)])
  moreover have "0 < b * i" using assms(6,7) by simp
  ultimately show ?thesis by (auto simp: max_def split: if_splits)
qed

end

section \<open>MemoryStore meets it\<close>

definition mem_inv :: "MemoryStore \<Rightarrow> int \<Rightarrow> bool" where
  "mem_inv s now \<longleftrightarrow> 0 \<le> now \<and> now \<le> horizon
     \<and> (\<forall>n k v. tat (shards s n) k = Some v \<longrightarrow> v \<le> now + horizon)
     \<and> (\<forall>n. 0 \<le> lastSweep (shards s n) \<and> lastSweep (shards s n) \<le> now)"

definition arrival :: "memoryShard \<Rightarrow> int \<Rightarrow> string \<Rightarrow> int" where
  "arrival sh now k = (case tat sh k of None \<Rightarrow> now | Some v \<Rightarrow> max now v)"

definition mem_eff :: "(string \<Rightarrow> nat) \<Rightarrow> MemoryStore \<Rightarrow> int \<Rightarrow> string \<Rightarrow> int" where
  "mem_eff hash s now k = arrival (shards s (shard_of hash k)) now k"

text \<open>Sweeping forgets only what reads the same when absent.\<close>

lemma arrival_sweep: "arrival (sweep every now sh) now k = arrival sh now k"
  by (auto simp: arrival_def sweep_def split: option.splits)

lemma sweep_fields:
  "tat (sweep every now sh) k = Some v \<Longrightarrow> tat sh k = Some v"
  "lastSweep (sweep every now sh) = lastSweep sh \<or> lastSweep (sweep every now sh) = now"
  by (auto simp: sweep_def split: option.splits if_splits)

lemma arrival_bounds:
  assumes "mem_inv s now"
  shows "now \<le> mem_eff hash s now k" "mem_eff hash s now k \<le> now + horizon"
  using assms by (auto simp: mem_eff_def arrival_def mem_inv_def split: option.splits)

text \<open>None of the sums of \<open>Take\<close> wraps, so it is plain GCRA.\<close>

lemma Take_cases:
  fixes hash :: "string \<Rightarrow> nat" and key :: string
  assumes inv: "mem_inv s now" and l: "Limit_params l = Inr (i, b)"
  defines "E \<equiv> mem_eff hash s now key" and "n \<equiv> shard_of hash key"
  defines "sh \<equiv> sweep (sweepEvery s) now (shards s n)"
  shows "Take hash s now key l =
    (if now < E + i - b * i
     then (Inr (E + i - b * i - now), s\<lparr>shards := (shards s)(n := sh)\<rparr>)
     else (Inr 0, s\<lparr>shards := (shards s)(n := sh\<lparr>tat := (tat sh)(key \<mapsto> E + i)\<rparr>)\<rparr>))"
proof -
  note lb = Limit_params_bounds [OF l]
  have E: "now \<le> E" "E \<le> now + horizon" "0 \<le> now" "now \<le> horizon"
    using arrival_bounds [OF inv, of hash key] inv by (auto simp: E_def mem_inv_def)
  have "i \<le> b * i" using mult_right_mono [of 1 b i] lb by auto
  then have i: "i \<le> horizon" using lb(3) by linarith
  have h: "horizon * 4 \<le> maxInt64" "0 \<le> horizon" "- (2 ^ 63) = - maxInt64 - 1"
    by (simp_all add: horizon_def maxInt64_def)
  have W: "wrap64 x = x" if "- maxInt64 \<le> x" "x \<le> maxInt64" for x
    using that h(3) by (intro wrap64_id) linarith+
  have wraps: "wrap64 (b * i) = b * i" "wrap64 (E + i) = E + i"
    "wrap64 (E + i - b * i) = E + i - b * i" "wrap64 (E + i - b * i - now) = E + i - b * i - now"
    using E i lb(1,3) mult_pos_pos [OF lb(2,1)] h(1,2) by (auto intro!: W)
  have t: "(case tat sh key of None \<Rightarrow> now | Some t \<Rightarrow> if t < now then now else t) = E"
    using arrival_sweep [of "sweepEvery s" now "shards s n" key]
    by (auto simp: E_def mem_eff_def n_def [symmetric] sh_def arrival_def max_def split: option.splits)
  show ?thesis
    unfolding Take_def l by (simp add: Let_def n_def [symmetric] sh_def [symmetric] t wraps)
qed

lemma mem_inv_put:
  assumes inv: "mem_inv s now" and sh: "sh = sweep (sweepEvery s) now (shards s n)"
  shows "mem_inv (s\<lparr>shards := (shards s)(n := sh)\<rparr>) now"
    and "v \<le> now + horizon \<Longrightarrow> mem_inv (s\<lparr>shards := (shards s)(n := sh\<lparr>tat := (tat sh)(key \<mapsto> v)\<rparr>)\<rparr>) now"
proof -
  have "tat sh k = Some u \<Longrightarrow> u \<le> now + horizon" for k u
    using inv sweep_fields(1) unfolding sh mem_inv_def by blast
  moreover have "0 \<le> lastSweep sh \<and> lastSweep sh \<le> now"
    using inv sweep_fields(2) [of "sweepEvery s" now "shards s n"] by (auto simp: sh mem_inv_def)
  ultimately show "mem_inv (s\<lparr>shards := (shards s)(n := sh)\<rparr>) now"
    "v \<le> now + horizon \<Longrightarrow> mem_inv (s\<lparr>shards := (shards s)(n := sh\<lparr>tat := (tat sh)(key \<mapsto> v)\<rparr>)\<rparr>) now"
    using inv by (auto simp: mem_inv_def)
qed

lemma mem_eff_put:
  assumes "n = shard_of hash key" "sh = sweep (sweepEvery s) now (shards s n)"
  shows "mem_eff hash (s\<lparr>shards := (shards s)(n := sh)\<rparr>) now k = mem_eff hash s now k"
    and "now \<le> v \<Longrightarrow> mem_eff hash (s\<lparr>shards := (shards s)(n := sh\<lparr>tat := (tat sh)(key \<mapsto> v)\<rparr>)\<rparr>) now k =
      (if k = key then v else mem_eff hash s now k)"
proof -
  have "arrival sh now k = arrival (shards s n) now k" by (simp add: assms(2) arrival_sweep)
  then show "mem_eff hash (s\<lparr>shards := (shards s)(n := sh)\<rparr>) now k = mem_eff hash s now k"
    and "now \<le> v \<Longrightarrow> mem_eff hash (s\<lparr>shards := (shards s)(n := sh\<lparr>tat := (tat sh)(key \<mapsto> v)\<rparr>)\<rparr>) now k =
      (if k = key then v else mem_eff hash s now k)"
    by (auto simp: mem_eff_def arrival_def assms(1))
qed

interpretation ms: rate_limit_store mem_inv "mem_eff hash" "Take hash" horizon for hash
proof unfold_locales
  fix s t k l i b k'
  show "mem_inv s t'" if "mem_inv s t" "t \<le> t'" "t' \<le> horizon" for t'
    using that unfolding mem_inv_def
    by (auto intro: order_trans [of _ "t + horizon"] order_trans [of _ t])
  show "mem_eff hash s t' k = max t' (mem_eff hash s t k)" if "mem_inv s t" "t \<le> t'" for t'
    using that by (auto simp: mem_eff_def arrival_def split: option.splits)
  show "t \<le> mem_eff hash s t k" if "mem_inv s t"
    using arrival_bounds [OF that] by simp
  show "isl (fst (Take hash s t k l)) \<and> mem_eff hash (snd (Take hash s t k l)) t k' = mem_eff hash s t k'"
    if "Limit_params l = Inl msg" "mem_inv s t" for msg
    using that by (simp add: Take_def)
  show "fst (Take hash s t k l) = Inr 0
      \<and> mem_eff hash (snd (Take hash s t k l)) t k' = (if k' = k then mem_eff hash s t k + i else mem_eff hash s t k')"
    if "Limit_params l = Inr (i, b)" "mem_inv s t" "mem_eff hash s t k + i \<le> t + b * i"
    using that Take_cases [OF that(2,1), of hash k] arrival_bounds(1) [OF that(2), of hash k]
      Limit_params_bounds [OF that(1)] by (simp add: mem_eff_put)
  show "fst (Take hash s t k l) = Inr (mem_eff hash s t k + i - b * i - t)
      \<and> mem_eff hash (snd (Take hash s t k l)) t k' = mem_eff hash s t k'"
    if "Limit_params l = Inr (i, b)" "mem_inv s t" "mem_eff hash s t k + i > t + b * i"
    using that Take_cases [OF that(2,1), of hash k] by (simp add: mem_eff_put)
  show "mem_inv (snd (Take hash s t k l)) t" if inv: "mem_inv s t"
  proof (cases "Limit_params l")
    case (Inl msg)
    then show ?thesis using inv by (simp add: Take_def)
  next
    case (Inr ib)
    then obtain i b where l: "Limit_params l = Inr (i, b)" by (cases ib) auto
    show ?thesis
      using Take_cases [OF inv l, of hash k] mem_inv_put [OF inv refl] Limit_params_bounds [OF l]
      by (auto simp: not_less)
  qed
qed

section \<open>The middleware\<close>

definition errTooManyRequests :: go_error where
  "errTooManyRequests = HTTPError 429 ''Too Many Requests'' None"

definition retryAfter :: "int \<Rightarrow> int" where
  "retryAfter wait =
     (let s = wait sdiv second in max (if wait smod second \<noteq> 0 then wrap64 (s + 1) else s) 1)"

text \<open>\<open>net.IP.To4\<close>: four bytes, or the last four of an IPv4-mapped address.\<close>

definition To4 :: "bytes \<Rightarrow> bytes option" where
  "To4 ip =
     (if length ip = 4 then Some ip
      else if length ip = 16 \<and> take 12 ip = replicate 10 (char_of (0::nat)) @ replicate 2 (char_of (255::nat))
      then Some (drop 12 ip)
      else None)"

definition clientKey_of :: "bytes \<Rightarrow> string" where
  "clientKey_of ip =
     (case To4 ip of
        Some v4 \<Rightarrow> replicate 10 (char_of (0::nat)) @ replicate 2 (char_of (255::nat)) @ v4
      | None \<Rightarrow>
          if length ip = 16 then take 8 ip @ replicate 8 (char_of (0::nat))
          else replicate 16 (char_of (0::nat)))"

definition clientKey :: "bool \<Rightarrow> ('w, 's) fasthttp \<Rightarrow> (('w, 'x, 'v, 's) Ctx, go_error + string) call" where
  "clientKey dbg F = then_do (ClientIP dbg F) (\<lambda>ip c. (Ret (Inr (clientKey_of ip)), c))"

text \<open>
  The store is shared by all requests, so a handler below the middleware runs on the
  request's Ctx together with the store.
\<close>

definition RateLimit ::
  "bool \<Rightarrow> ('w, 's) fasthttp \<Rightarrow> 'x \<Rightarrow>
   (('w, 'x, 'v, 's) Ctx, go_error + string) call \<Rightarrow>
   ('st \<Rightarrow> 'x \<Rightarrow> string \<Rightarrow> Limit \<Rightarrow> (go_error + int) \<times> 'st) \<Rightarrow> Limit \<Rightarrow>
   (('w, 'x, 'v, 's) Ctx \<times> 'st, go_error option) call \<Rightarrow>
   (('w, 'x, 'v, 's) Ctx \<times> 'st, go_error option) call"
where
  "RateLimit dbg F base keyFunc store_Take limit next =
     then_do (on_ctx keyFunc) (\<lambda>key.
       case key of
         Inl err \<Rightarrow> (\<lambda>cs. (Ret (Some err), cs))
       | Inr k \<Rightarrow>
           then_do (on_ctx (Context dbg base)) (\<lambda>x cs.
             case store_Take (snd cs) x k limit of
               (Inl err, st) \<Rightarrow> (Ret (Some err), (fst cs, st))
             | (Inr wait, st) \<Rightarrow>
                 if wait > 0 then
                   then_do (on_ctx (SetHeader dbg F ''Retry-After'' (itoa (retryAfter wait))))
                     (\<lambda>_ cs. (Ret (Some errTooManyRequests), cs)) (fst cs, st)
                 else next (fst cs, st)))"

text \<open>The constructor: a Limit that cannot work panics.\<close>

definition RateLimit_new :: "Limit \<Rightarrow> 'm \<Rightarrow> 'm res" where
  "RateLimit_new limit mw =
     (case Limit_params limit of
        Inl msg \<Rightarrow> Panic (PVal (''rice: middleware.RateLimit: '' @ msg))
      | Inr _ \<Rightarrow> Ret mw)"

section \<open>Properties\<close>

text \<open>
  C12: The MemoryStore is GCRA. However its keys are sharded and whenever it sweeps, and
  with every sum taken in 64 bits, up to a quarter of the 64-bit range of uptime: a
  request is admitted exactly when the key's theoretical arrival time is within its
  burst, an admitted one is charged one interval, a refused one is told exactly how long
  to wait and is not charged, and no other key is touched.
\<close>

theorem MemoryStore_is_GCRA:
  assumes "mem_inv s now" "Limit_params l = Inr (interval, burst)"
  shows "let E = mem_eff hash s now key;
             allowed = (E + interval - burst * interval \<le> now);
             res = Take hash s now key l
         in fst res = Inr (if allowed then 0 else E + interval - burst * interval - now)
            \<and> mem_inv (snd res) now
            \<and> (\<forall>k. mem_eff hash (snd res) now k =
                 (if k = key \<and> allowed then E + interval else mem_eff hash s now k))"
  using ms.take_ok [OF assms(2,1), of hash key] ms.take_wait [OF assms(2,1), of hash key]
    ms.inv_take [OF assms(1), of hash key l]
  by (cases "mem_eff hash s now key + interval \<le> now + burst * interval") (auto simp: Let_def algebra_simps)

lemma mem_inv_New: "mem_inv NewMemoryStore 0"
  by (simp add: mem_inv_def NewMemoryStore_def horizon_def maxInt64_def)

theorem MemoryStore_is_GCRA_witness:
  "fst (Take (\<lambda>_. 7) NewMemoryStore 0 ''k'' \<lparr>Rate = 100, Per = 60000000000, Burst = 20\<rparr>) = Inr 0"
proof -
  have "Limit_params \<lparr>Rate = 100, Per = 60000000000, Burst = 20\<rparr> = Inr (600000000, 20)"
    by (simp add: Limit_params_def Let_def sdiv_nonneg maxInt64_def)
  moreover have "mem_eff (\<lambda>_. 7) NewMemoryStore 0 ''k'' = 0"
    by (simp add: mem_eff_def arrival_def NewMemoryStore_def)
  ultimately show ?thesis
    using MemoryStore_is_GCRA [OF mem_inv_New, of "\<lparr>Rate = 100, Per = 60000000000, Burst = 20\<rparr>"
        600000000 20 "\<lambda>_. 7" "''k''"]
    by (simp add: Let_def)
qed

text \<open>
  C19: The rate is kept. In any sequence of requests to a MemoryStore, with any other keys
  between them, a key that is always limited by the same Limit gets at most its burst
  plus one request for every interval that passed.
\<close>

theorem MemoryStore_rate_bound:
  assumes "Limit_params l = Inr (interval, burst)" "mem_inv s t0"
    and "scheduled horizon k l t0 es" "es \<noteq> []" "run (Take hash) s es = (rs, s')"
  shows "int (admitted k es rs) \<le> burst + (fst (last es) - t0) div interval"
proof -
  note lb = Limit_params_bounds [OF assms(1)]
  have "int (admitted k es rs) * interval \<le> fst (last es) - t0 + burst * interval"
    by (rule ms.admitted_bound [OF assms(1-3,5,4) lb(2,1)])
  then have "int (admitted k es rs) \<le> (fst (last es) - t0 + burst * interval) div interval"
    using lb(1) by (metis div_le_mono linorder_not_less nonzero_mult_div_cancel_right order_less_irrefl zdiv_mono1)
  then show ?thesis
    using lb(1) by simp
qed

theorem MemoryStore_rate_bound_witness:
  "int (admitted ''k'' [(0, ''k'', \<lparr>Rate = 1, Per = 10, Burst = 1\<rparr>), (3, ''k'', \<lparr>Rate = 1, Per = 10, Burst = 1\<rparr>)]
      (fst (run (Take (\<lambda>_. 0)) NewMemoryStore
        [(0, ''k'', \<lparr>Rate = 1, Per = 10, Burst = 1\<rparr>), (3, ''k'', \<lparr>Rate = 1, Per = 10, Burst = 1\<rparr>)]))) \<le> 1"
proof -
  let ?l = "\<lparr>Rate = 1, Per = 10, Burst = 1\<rparr>" and ?es = "[(0, ''k'', \<lparr>Rate = 1, Per = 10, Burst = 1\<rparr>), (3, ''k'', \<lparr>Rate = 1, Per = 10, Burst = 1\<rparr>)]"
  have "Limit_params ?l = Inr (10, 1)"
    by (simp add: Limit_params_def Let_def sdiv_nonneg maxInt64_def)
  moreover have "scheduled horizon ''k'' ?l 0 ?es"
    by (simp add: horizon_def maxInt64_def)
  ultimately show ?thesis
    using MemoryStore_rate_bound [OF _ mem_inv_New, of ?l 10 1 "''k''" ?es "\<lambda>_. 0"]
    by (cases "run (Take (\<lambda>_. 0)) NewMemoryStore ?es") simp
qed

text \<open>
  \<open>Retry-After\<close> is the wait in whole seconds rounded up: a client that waits as told
  waits long enough, and never a whole second too long.
\<close>

lemma retryAfter_rounds_up:
  assumes "0 < wait" "wait \<le> maxInt64"
  shows "1 \<le> retryAfter wait \<and> wait \<le> retryAfter wait * second \<and> (retryAfter wait - 1) * second < wait"
proof -
  define q m where "q = wait div second" and "m = wait mod second"
  have ops: "wait sdiv second = q" "wait smod second = m"
    using assms(1) by (simp_all add: q_def m_def sdiv_nonneg second_def signed_modulo_int_def algebra_simps
        minus_mult_div_eq_mod)
  have qm: "wait = q * second + m" "0 \<le> m" "m < second" "0 \<le> q" "q < wait"
    using assms(1) by (simp_all add: q_def m_def second_def pos_imp_zdiv_nonneg_iff int_div_less_self)
  have q1: "wrap64 (q + 1) = q + 1"
    using qm(4,5) assms(2) by (intro wrap64_id) auto
  show ?thesis
  proof (cases "m = 0")
    case True
    then have "q \<noteq> 0" using qm(1) assms(1) by auto
    then have "retryAfter wait = q" "1 \<le> q"
      using True qm(4) by (auto simp: retryAfter_def ops Let_def)
    then show ?thesis using True qm(1) by (simp add: algebra_simps second_def)
  next
    case False
    then have "retryAfter wait = q + 1"
      using q1 qm(4) by (simp add: retryAfter_def ops Let_def)
    then show ?thesis using False qm by (simp add: algebra_simps)
  qed
qed

text \<open>
  The default rate-limit key separates clients as promised: an IPv4 address and its
  IPv4-mapped form share a key, two other IPv6 addresses share one exactly when they are
  in the same /64, and no IPv6 client shares a key with an IPv4 client.
\<close>

lemma clientKey_separates:
  assumes "length v4 = 4" "length a = 16" "length b = 16" "To4 a = None" "To4 b = None"
  shows "clientKey_of (replicate 10 (char_of (0::nat)) @ replicate 2 (char_of (255::nat)) @ v4) = clientKey_of v4
    \<and> (clientKey_of a = clientKey_of b \<longleftrightarrow> take 8 a = take 8 b)
    \<and> clientKey_of a \<noteq> clientKey_of v4"
proof -
  let ?m = "replicate 10 (char_of (0::nat)) @ replicate 2 (char_of (255::nat)) @ v4"
  have "To4 v4 = Some v4" "To4 ?m = Some v4"
    using assms(1) by (simp_all add: To4_def)
  moreover have "take 8 a @ replicate 8 (char_of (0::nat)) \<noteq> ?m"
  proof
    assume "take 8 a @ replicate 8 (char_of (0::nat)) = ?m"
    then have "(take 8 a @ replicate 8 (char_of (0::nat))) ! 10 = ?m ! 10" by simp
    then show False using assms(2) by (simp add: nth_append)
  qed
  ultimately show ?thesis
    using assms by (simp add: clientKey_of_def)
qed

end
