(* ===== verification/Real_IP.thy ===== *)
theory Real_IP
  imports Ctx
begin

text \<open>
  \<open>middleware/realip.go\<close>: which entry of X-Forwarded-For is the client, and how an entry
  is read. \<open>net.ParseIP\<close> of Go's standard library is modelled too, as the parser of
  dotted IPv4 and of IPv6 text it is; its result is the 16-byte form, \<open>None\<close> for nil.
\<close>

section \<open>net.ParseIP\<close>

fun all_digits :: "nat \<Rightarrow> bytes \<Rightarrow> nat option" where
  "all_digits n [] = Some n"
| "all_digits n (c # s) = (if is_digit c then all_digits (10 * n + (byte c - 48)) s else None)"

text \<open>A field of a dotted address: one to three digits, at most 255, no leading zero.\<close>

definition parse_octet :: "bytes \<Rightarrow> char option" where
  "parse_octet s =
     (if s = [] \<or> length s > 3 \<or> (length s > 1 \<and> hd s = CHR ''0'') then None
      else case all_digits 0 s of
             None \<Rightarrow> None
           | Some n \<Rightarrow> if n > 255 then None else Some (char_of n))"

definition parse_v4 :: "bytes \<Rightarrow> bytes option" where
  "parse_v4 s =
     (let fs = map parse_octet (splitByte (CHR ''.'') s)
      in if length fs = 4 \<and> list_all (\<lambda>f. f \<noteq> None) fs then Some (map the fs) else None)"

definition hex_digit :: "char \<Rightarrow> nat option" where
  "hex_digit c =
     (if is_digit c then Some (byte c - 48)
      else if in_range (CHR ''a'') (CHR ''f'') c then Some (byte c - 87)
      else if in_range (CHR ''A'') (CHR ''F'') c then Some (byte c - 55)
      else None)"

text \<open>The digits of a 16-bit group, and the text after them.\<close>

definition hex_run :: "bytes \<Rightarrow> bytes \<times> bytes" where
  "hex_run s = (takeWhile (\<lambda>c. hex_digit c \<noteq> None) s, dropWhile (\<lambda>c. hex_digit c \<noteq> None) s)"

definition hex_value :: "bytes \<Rightarrow> nat" where
  "hex_value ds = foldl (\<lambda>n c. 16 * n + the (hex_digit c)) 0 ds"

text \<open>
  The loop over the groups. \<open>ip\<close> is what has been read, \<open>ell\<close> where the \<open>::\<close> was.
\<close>

function v6_loop :: "bytes \<Rightarrow> bytes \<Rightarrow> nat option \<Rightarrow> (bytes \<times> nat option) option" where
  "v6_loop s ip ell =
     (if length ip \<ge> 16 then (if s = [] then Some (ip, ell) else None)
      else
        let ds = fst (hex_run s); rest = snd (hex_run s)
        in if ds = [] \<or> length ds > 4 then None
           else if rest \<noteq> [] \<and> hd rest = CHR ''.'' then
             (if (ell = None \<and> length ip \<noteq> 12) \<or> length ip + 4 > 16 then None
              else case parse_v4 s of None \<Rightarrow> None | Some v4 \<Rightarrow> Some (ip @ v4, ell))
           else
             let ip' = ip @ [char_of (hex_value ds div 256), char_of (hex_value ds mod 256)]
             in if rest = [] then Some (ip', ell)
                else if hd rest \<noteq> CHR '':'' \<or> length rest = 1 then None
                else if hd (tl rest) = CHR '':'' then
                  (if ell \<noteq> None then None
                   else if tl (tl rest) = [] then Some (ip', Some (length ip'))
                   else v6_loop (tl (tl rest)) ip' (Some (length ip')))
                else v6_loop (tl rest) ip' ell)"
  by pat_completeness auto
termination
proof (relation "measure (\<lambda>(s, _, _). length s)", goal_cases)
  case (2 s ip ell ds rest ip')
  have "length rest \<le> length s"
    using 2 by (simp add: hex_run_def length_dropWhile_le)
  moreover have "0 < length rest" using 2 by simp
  ultimately have "length rest - 2 < length s" by linarith
  then show ?case by simp
next
  case (3 s ip ell ds rest ip')
  have "length rest \<le> length s"
    using 3 by (simp add: hex_run_def length_dropWhile_le)
  moreover have "0 < length rest" using 3 by simp
  ultimately have "length rest - 1 < length s" by linarith
  then show ?case by simp
qed simp

declare v6_loop.simps [simp del]

definition parse_v6 :: "bytes \<Rightarrow> bytes option" where
  "parse_v6 s =
     (let lead = (take 2 s = ''::'');
          ell0 = (if lead then Some 0 else None);
          s' = (if lead then drop 2 s else s)
      in case (if lead \<and> s' = [] then Some ([], Some 0) else v6_loop s' [] ell0) of
           None \<Rightarrow> None
         | Some (ip, ell) \<Rightarrow>
             if length ip < 16 then
               (case ell of
                  None \<Rightarrow> None
                | Some e \<Rightarrow> Some (take e ip @ replicate (16 - length ip) (char_of (0::nat)) @ drop e ip))
             else if ell \<noteq> None then None
             else Some ip)"

definition v4_in_v6 :: bytes where
  "v4_in_v6 = replicate 10 (char_of (0::nat)) @ replicate 2 (char_of (255::nat))"

text \<open>The first of dot, colon and percent decides; a zone is refused.\<close>

definition ParseIP :: "bytes \<Rightarrow> bytes option" where
  "ParseIP s =
     (case dropWhile (\<lambda>c. c \<notin> set ''.:%'') s of
        [] \<Rightarrow> None
      | c # _ \<Rightarrow>
          if c = CHR ''.'' then map_option ((@) v4_in_v6) (parse_v4 s)
          else if c = CHR '':'' then (if CHR ''%'' \<in> set s then None else parse_v6 s)
          else None)"

section \<open>Entries\<close>

definition validPort :: "bytes \<Rightarrow> bool" where
  "validPort p \<longleftrightarrow> p \<noteq> [] \<and> length p \<le> 5
     \<and> (case all_digits 0 p of None \<Rightarrow> False | Some n \<Rightarrow> 1 \<le> n \<and> n \<le> 65535)"

definition validPortSuffix :: "bytes \<Rightarrow> bool" where
  "validPortSuffix rest \<longleftrightarrow> rest = [] \<or> hd rest = CHR '':'' \<and> validPort (tl rest)"

definition trimBlank :: "bytes \<Rightarrow> bytes" where
  "trimBlank s =
     (let blank = (\<lambda>c. c = CHR '' '' \<or> c = char_of (9::nat))
      in rev (dropWhile blank (rev (dropWhile blank s))))"

definition parseEntry :: "bytes \<Rightarrow> bytes option" where
  "parseEntry entry0 =
     (let e = trimBlank entry0
      in if e \<noteq> [] \<and> hd e = CHR ''['' then
           (case indexByte (CHR '']'') e of
              None \<Rightarrow> None
            | Some n \<Rightarrow>
                if \<not> validPortSuffix (drop (Suc n) e) then None
                else
                  let host = drop 1 (take n e)
                  in if CHR '':'' \<notin> set host then None else ParseIP host)
         else
           (case indexByte (CHR '':'') e of
              Some i \<Rightarrow>
                if CHR '':'' \<notin> set (drop (Suc i) e)
                then (if \<not> validPort (drop (Suc i) e) then None else ParseIP (take i e))
                else ParseIP e
            | None \<Rightarrow> ParseIP e))"

section \<open>Counting from the right\<close>

text \<open>\<open>bytes.LastIndexByte\<close> and what the loop takes off the end of a line.\<close>

definition last_entry :: "bytes \<Rightarrow> bytes \<times> bytes" where
  "last_entry line =
     (if CHR '','' \<in> set line
      then (rev (takeWhile (\<lambda>c. c \<noteq> CHR '','') (rev line)),
            rev (tl (dropWhile (\<lambda>c. c \<noteq> CHR '','') (rev line))))
      else (line, []))"

lemma last_entry_shorter:
  assumes "line \<noteq> []"
  shows "length (snd (last_entry line)) < length line"
proof -
  have "length (dropWhile (\<lambda>c. c \<noteq> CHR '','') (rev line)) \<le> length line" "0 < length line"
    using assms length_dropWhile_le [of _ "rev line"] by simp_all
  then have "length (dropWhile (\<lambda>c. c \<noteq> CHR '','') (rev line)) - 1 < length line" by linarith
  then show ?thesis using assms by (simp add: last_entry_def)
qed

text \<open>The inner loop: the entry it stops at, or how many entries have been seen.\<close>

function resolve_line :: "int \<Rightarrow> int \<Rightarrow> bytes \<Rightarrow> bytes + int" where
  "resolve_line hops seen line =
     (if line = [] then Inr seen
      else
        let entry = fst (last_entry line); rest = snd (last_entry line)
        in if seen + 1 < hops then resolve_line hops (seen + 1) rest else Inl entry)"
  by pat_completeness auto
termination
  by (relation "measure (\<lambda>(_, _, line). length line)") (auto simp: last_entry_shorter)

declare resolve_line.simps [simp del]

fun resolve_lines :: "int \<Rightarrow> int \<Rightarrow> bytes list \<Rightarrow> bytes option" where
  "resolve_lines hops seen [] = None"
| "resolve_lines hops seen (line # lines) =
     (case resolve_line hops seen line of
        Inl entry \<Rightarrow> parseEntry entry
      | Inr seen' \<Rightarrow> resolve_lines hops seen' lines)"

definition resolve :: "bytes list \<Rightarrow> int \<Rightarrow> bytes option" where
  "resolve lines hops = resolve_lines hops 0 (rev lines)"

definition RealIP ::
  "bool \<Rightarrow> ('w, 's) fasthttp \<Rightarrow> int \<Rightarrow>
   ((('w, 'x, 'v, 's) Ctx, go_error option) call \<Rightarrow> (('w, 'x, 'v, 's) Ctx, go_error option) call) res"
where
  "RealIP dbg F hops =
     (if hops < 1 then Panic (PVal ''rice: middleware.RealIP: trustedHops must be at least 1'')
      else Ret (\<lambda>next.
        then_do (check dbg) (\<lambda>_.
        then_do (tell (\<lambda>w. f_SetRemoteAddr F (resolve (f_PeekAll F ''X-Forwarded-For'' w) hops) w)) (\<lambda>_.
          next))))"

section \<open>The entries of a header\<close>

text \<open>
  Splitting at commas, except that a comma at the very start of a line has no entry before
  it: the loop stops when nothing is left of the line.
\<close>

definition line_entries :: "bytes \<Rightarrow> bytes list" where
  "line_entries line = (case splitByte (CHR '','') line of [] # es \<Rightarrow> es | es \<Rightarrow> es)"

definition entries_of :: "bytes list \<Rightarrow> bytes list" where
  "entries_of lines = concat (map line_entries lines)"

lemma splitByte_no: "c \<notin> set s \<Longrightarrow> splitByte c s = [s]"
  by (induction s) auto

lemma splitByte_append: "splitByte c (s @ c # t) = splitByte c s @ splitByte c t"
  by (induction s) (auto split: list.split)

lemma last_entry_split:
  assumes "CHR '','' \<in> set line"
  shows "line = snd (last_entry line) @ CHR '','' # fst (last_entry line)" "CHR '','' \<notin> set (fst (last_entry line))"
proof -
  let ?t = "takeWhile (\<lambda>c. c \<noteq> CHR '','') (rev line)" and ?d = "dropWhile (\<lambda>c. c \<noteq> CHR '','') (rev line)"
  have "?d \<noteq> []" using assms by (auto simp: dropWhile_eq_Nil_conv)
  then obtain x d where d: "?d = x # d" by (cases ?d) auto
  then have "x = CHR '',''" using takeWhile_dropWhile_Cons by fastforce
  then have "rev line = ?t @ CHR '','' # d"
    using d takeWhile_dropWhile_id [of "\<lambda>c. c \<noteq> CHR '',''" "rev line"] by simp
  then have "rev (rev line) = rev (?t @ CHR '','' # d)" by (rule arg_cong)
  then show "line = snd (last_entry line) @ CHR '','' # fst (last_entry line)"
    using assms d by (simp add: last_entry_def)
  show "CHR '','' \<notin> set (fst (last_entry line))"
    using assms by (auto simp: last_entry_def dest: set_takeWhileD)
qed

lemma line_entries_Nil [simp]: "line_entries [] = []"
  by (simp add: line_entries_def)

lemma line_entries_step:
  assumes "line \<noteq> []"
  shows "line_entries line = line_entries (snd (last_entry line)) @ [fst (last_entry line)]"
proof (cases "CHR '','' \<in> set line")
  case True
  have "splitByte (CHR '','') line = splitByte (CHR '','') (snd (last_entry line)) @ [fst (last_entry line)]"
    using last_entry_split [OF True] splitByte_append splitByte_no by metis
  then show ?thesis
    using splitByte_nonempty [of "CHR '',''" "snd (last_entry line)"]
    by (cases "splitByte (CHR '','') (snd (last_entry line))") (auto simp: line_entries_def split: list.split)
next
  case False
  then show ?thesis
    using assms by (cases line) (auto simp: last_entry_def line_entries_def splitByte_no)
qed

lemma resolve_line_spec:
  assumes "seen < hops"
  shows "resolve_line hops seen line =
    (if int (length (line_entries line)) < hops - seen then Inr (seen + int (length (line_entries line)))
     else Inl (rev (line_entries line) ! nat (hops - seen - 1)))"
  using assms
proof (induction hops seen line rule: resolve_line.induct)
  case (1 hops seen line)
  show ?case
  proof (cases "line = []")
    case True
    then show ?thesis using 1(2) by (simp add: resolve_line.simps [of hops seen "[]"])
  next
    case False
    note step = line_entries_step [OF False]
    show ?thesis
    proof (cases "seen + 1 < hops")
      case True
      have "nat (hops - seen - 1) = Suc (nat (hops - (seen + 1) - 1))" using True by simp
      then show ?thesis
        using 1(1) [OF False refl refl True] True False step
        by (simp add: resolve_line.simps [of hops seen line] algebra_simps)
    next
      case no: False
      then have "hops - seen - 1 = 0" using 1(2) by simp
      then show ?thesis
        using no False step 1(2) by (simp add: resolve_line.simps [of hops seen line])
    qed
  qed
qed

lemma resolve_lines_spec:
  assumes "seen < hops"
  shows "resolve_lines hops seen lines =
    (let es = concat (map (\<lambda>line. rev (line_entries line)) lines)
     in if int (length es) < hops - seen then None else parseEntry (es ! nat (hops - seen - 1)))"
  using assms
proof (induction lines arbitrary: seen)
  case (Cons line lines)
  let ?n = "int (length (line_entries line))"
  show ?case
  proof (cases "?n < hops - seen")
    case True
    then have "nat (hops - seen - 1) - length (line_entries line) = nat (hops - (seen + ?n) - 1)"
      "\<not> nat (hops - seen - 1) < length (line_entries line)" by linarith+
    then show ?thesis
      using Cons.IH [of "seen + ?n"] Cons.prems True
      by (simp add: resolve_line_spec Let_def nth_append algebra_simps)
  next
    case False
    then have "nat (hops - seen - 1) < length (line_entries line)" using Cons.prems by linarith
    then show ?thesis
      using Cons.prems False by (simp add: resolve_line_spec Let_def nth_append)
  qed
qed simp

lemma resolve_spec:
  assumes "1 \<le> hops"
  shows "resolve lines hops =
    (if int (length (entries_of lines)) < hops then None
     else parseEntry (rev (entries_of lines) ! nat (hops - 1)))"
proof -
  have "concat (map (\<lambda>line. rev (line_entries line)) (rev lines)) = rev (entries_of lines)"
    by (simp add: entries_of_def rev_concat rev_map [symmetric] comp_def)
  then show ?thesis
    using assms resolve_lines_spec [of 0 hops "rev lines"] by (simp add: resolve_def Let_def)
qed

section \<open>Properties\<close>

text \<open>
  C13: The client's address cannot be forged. When the trusted proxies have appended their
  entries \<open>t\<close> after the last comma of the client's own text, the entry \<open>trustedHops\<close> from
  the right is the answer, whatever header lines and whatever text the client sent
  before it.
\<close>

theorem resolve_unforgeable:
  assumes "1 \<le> hops" "hops \<le> int (length (splitByte (CHR '','') t))"
  shows "resolve (client_lines @ [client_text @ CHR '','' # t]) hops =
    parseEntry (rev (splitByte (CHR '','') t) ! nat (hops - 1))"
proof -
  have "\<exists>pre. line_entries (client_text @ CHR '','' # t) = pre @ splitByte (CHR '','') t"
    using splitByte_nonempty [of "CHR '',''" client_text]
    by (cases "splitByte (CHR '','') client_text")
      (auto simp: line_entries_def splitByte_append split: list.split)
  then obtain pre where "entries_of (client_lines @ [client_text @ CHR '','' # t]) = pre @ splitByte (CHR '','') t"
    by (auto simp: entries_of_def)
  moreover have "nat (hops - 1) < length (splitByte (CHR '','') t)" using assms by linarith
  ultimately show ?thesis
    using assms by (simp add: resolve_spec nth_append)
qed

theorem resolve_unforgeable_witness:
  "resolve ([''6.6.6.6''] @ [''evil'' @ CHR '','' # ''1.2.3.4'']) 1 = parseEntry ''1.2.3.4''"
proof -
  have "splitByte (CHR '','') ''1.2.3.4'' = [''1.2.3.4'']" by code_simp
  then show ?thesis
    using resolve_unforgeable [of 1 "''1.2.3.4''" "[''6.6.6.6'']" "''evil''"] by simp
qed

text \<open>
  RealIP sets the address on every request: with fewer entries than hops it restores
  the connection's own address rather than leave the previous request's in place, and
  a count below 1 is refused at construction.
\<close>

lemma RealIP_always_sets:
  assumes "1 \<le> hops" "fctx c = Some w" "\<not> poison c"
  shows "\<exists>mw. RealIP dbg F hops = Ret mw
    \<and> mw next c = next (c\<lparr>fctx := Some (f_SetRemoteAddr F
        (let es = entries_of (f_PeekAll F ''X-Forwarded-For'' w)
         in if int (length es) < hops then None else parseEntry (rev es ! nat (hops - 1))) w)\<rparr>)"
  using assms by (simp add: RealIP_def then_do_def check_def tell_def resolve_spec Let_def)


end
