(* ===== verification/Cors.thy ===== *)
theory Cors
  imports Ctx "HOL-Library.Signed_Division"
begin

text \<open>
  \<open>middleware/cors.go\<close>: the validation and compilation of a configuration, and the
  middleware. A configuration that cannot work panics when the middleware is made; each
  panic is a constructor of \<open>cors_panic\<close>.
\<close>

section \<open>Configuration\<close>

record CORSConfig =
  Origins :: "string list"
  AllowMethods :: "string list"
  AllowHeaders :: "string list"
  ExposeHeaders :: "string list"
  MaxAge :: int
  AllowCredentials :: bool

datatype cors_panic =
    OriginsEmpty
  | BadOrigin string
  | MaxAgeNegative
  | MaxAgeUnderSecond
  | BadListEntry string string

definition defaultAllowMethods :: "string list" where
  "defaultAllowMethods = [''GET'', ''HEAD'', ''POST'', ''PUT'', ''PATCH'', ''DELETE'']"

text \<open>\<open>strings.Cut\<close> at the first occurrence of a separator.\<close>

fun cut_at :: "string \<Rightarrow> string \<Rightarrow> string \<Rightarrow> (string \<times> string) option" where
  "cut_at sep pre s =
     (if sep \<noteq> [] \<and> take (length sep) s = sep then Some (rev pre, drop (length sep) s)
      else case s of [] \<Rightarrow> None | c # s' \<Rightarrow> cut_at sep (c # pre) s')"

declare cut_at.simps [simp del]

definition has_suffix :: "string \<Rightarrow> string \<Rightarrow> bool" where
  "has_suffix s suf \<longleftrightarrow> length suf \<le> length s \<and> drop (length s - length suf) s = suf"

definition validOrigin :: "string \<Rightarrow> bool" where
  "validOrigin o' =
     (case cut_at ''://'' [] o' of
        None \<Rightarrow> False
      | Some (scheme, rest) \<Rightarrow>
          scheme \<noteq> [] \<and> rest \<noteq> []
          \<and> \<not> list_ex (\<lambda>c. c \<in> set ''/?# '' \<or> c = char_of (9::nat)) rest
          \<and> \<not> (scheme = ''https'' \<and> has_suffix rest '':443'' \<or> scheme = ''http'' \<and> has_suffix rest '':80'')
          \<and> list_all (\<lambda>b. \<not> (is_upper b \<or> byte b < 33)) o')"

definition hasCommaOrControl :: "string \<Rightarrow> bool" where
  "hasCommaOrControl s \<longleftrightarrow> list_ex (\<lambda>b. byte b \<le> 32 \<or> byte b = 127 \<or> b = CHR '','') s"

fun join_with :: "string \<Rightarrow> string list \<Rightarrow> string" where
  "join_with sep [] = []"
| "join_with sep [x] = x"
| "join_with sep (x # y # ys) = x @ sep @ join_with sep (y # ys)"

definition joinList :: "string \<Rightarrow> string list \<Rightarrow> cors_panic + string" where
  "joinList field its =
     (case List.find (\<lambda>it. it = [] \<or> hasCommaOrControl it) its of
        Some it \<Rightarrow> Inl (BadListEntry field it)
      | None \<Rightarrow> Inr (join_with '', '' its))"

type_synonym header = "string \<times> string"

definition preflight_headers :: "CORSConfig \<Rightarrow> string \<Rightarrow> string \<Rightarrow> header list" where
  "preflight_headers cfg ms hs =
     [(''Access-Control-Allow-Methods'', ms)]
     @ (if hs \<noteq> [] then [(''Access-Control-Allow-Headers'', hs)] else [])
     @ (if MaxAge cfg > 0 then [(''Access-Control-Max-Age'', itoa (MaxAge cfg sdiv second))] else [])
     @ (if AllowCredentials cfg then [(''Access-Control-Allow-Credentials'', ''true'')] else [])"

definition real_headers :: "CORSConfig \<Rightarrow> string \<Rightarrow> header list" where
  "real_headers cfg es =
     (if AllowCredentials cfg then [(''Access-Control-Allow-Credentials'', ''true'')] else [])
     @ (if es \<noteq> [] then [(''Access-Control-Expose-Headers'', es)] else [])"

definition compileCORS :: "CORSConfig \<Rightarrow> cors_panic + string list \<times> header list \<times> header list" where
  "compileCORS cfg =
     (if Origins cfg = [] then Inl OriginsEmpty
      else case List.find (\<lambda>x. \<not> validOrigin x) (Origins cfg) of
        Some x \<Rightarrow> Inl (BadOrigin x)
      | None \<Rightarrow>
          if MaxAge cfg < 0 then Inl MaxAgeNegative
          else if MaxAge cfg > 0 \<and> MaxAge cfg < second then Inl MaxAgeUnderSecond
          else
            (case joinList ''AllowMethods''
                (if AllowMethods cfg = [] then defaultAllowMethods else AllowMethods cfg) of
               Inl e \<Rightarrow> Inl e
             | Inr ms \<Rightarrow>
                 (case joinList ''AllowHeaders'' (AllowHeaders cfg) of
                    Inl e \<Rightarrow> Inl e
                  | Inr hs \<Rightarrow>
                      (case joinList ''ExposeHeaders'' (ExposeHeaders cfg) of
                         Inl e \<Rightarrow> Inl e
                       | Inr es \<Rightarrow>
                           Inr (Origins cfg, real_headers cfg es, preflight_headers cfg ms hs)))))"

section \<open>The middleware\<close>

fun matchOrigin :: "string list \<Rightarrow> bytes \<Rightarrow> string" where
  "matchOrigin [] origin = []"
| "matchOrigin (x # xs) origin = (if origin = x then x else matchOrigin xs origin)"

definition isPreflight :: "bool \<Rightarrow> ('w, 's) fasthttp \<Rightarrow> (('w, 'x, 'v, 's) Ctx, bool) call" where
  "isPreflight dbg F =
     then_do (Ctx_Method dbg F) (\<lambda>m.
       if m = ''OPTIONS''
       then then_do (Header dbg F ''Access-Control-Request-Method'') (\<lambda>v c. (Ret (v \<noteq> []), c))
       else (\<lambda>c. (Ret False, c)))"

definition set_all :: "('w, 's) fasthttp \<Rightarrow> header list \<Rightarrow> 'w \<Rightarrow> 'w" where
  "set_all F hs w = foldl (\<lambda>w h. f_SetHeader F (fst h) (snd h) w) w hs"

definition CORS_handler ::
  "bool \<Rightarrow> ('w, 's) fasthttp \<Rightarrow> string list \<Rightarrow> header list \<Rightarrow> header list \<Rightarrow>
   (('w, 'x, 'v, 's) Ctx, go_error option) call \<Rightarrow> (('w, 'x, 'v, 's) Ctx, go_error option) call"
where
  "CORS_handler dbg F origins real preflight next =
     then_do (check dbg) (\<lambda>_.
     then_do (tell (f_AddHeader F ''Vary'' ''Origin'')) (\<lambda>_.
     then_do (Header dbg F ''Origin'') (\<lambda>origin.
       if origin = [] then next
       else
         let allowed = matchOrigin origins origin
         in then_do (isPreflight dbg F) (\<lambda>pre.
              if pre then
                then_do (tell (\<lambda>w. if allowed \<noteq> []
                    then set_all F preflight (f_SetHeader F ''Access-Control-Allow-Origin'' allowed w) else w))
                  (\<lambda>_. NoContent dbg F 204)
              else
                then_do (tell (\<lambda>w. if allowed \<noteq> []
                    then set_all F real (f_SetHeader F ''Access-Control-Allow-Origin'' allowed w) else w))
                  (\<lambda>_. next)))))"

definition CORS ::
  "bool \<Rightarrow> ('w, 's) fasthttp \<Rightarrow> CORSConfig \<Rightarrow>
   cors_panic + ((('w, 'x, 'v, 's) Ctx, go_error option) call \<Rightarrow> (('w, 'x, 'v, 's) Ctx, go_error option) call)"
where
  "CORS dbg F cfg =
     (case compileCORS cfg of
        Inl e \<Rightarrow> Inl e
      | Inr (origins, real, preflight) \<Rightarrow> Inr (CORS_handler dbg F origins real preflight))"

section \<open>Lemmas\<close>

lemma matchOrigin_iff: "matchOrigin os origin = (if origin \<in> set os then origin else [])"
  by (induction os) auto

text \<open>A byte a header value may carry on the wire without ending or corrupting it.\<close>

definition printable :: "char \<Rightarrow> bool" where
  "printable b \<longleftrightarrow> 32 \<le> byte b \<and> byte b \<noteq> 127"

lemma printable_digits: "list_all printable (digits n)"
proof (induction n rule: digits.induct)
  case (1 n)
  have "m < 10 \<Longrightarrow> printable (char_of (48 + m))" for m :: nat
    by (simp add: printable_def byte_def)
  then show ?case
    using 1 by (simp add: digits.simps [of n])
qed

lemma printable_itoa: "0 \<le> i \<Longrightarrow> list_all printable (itoa i)"
  by (simp add: itoa_def printable_digits)

lemma printable_join:
  assumes "list_all (\<lambda>x. list_all printable x) xs"
  shows "list_all printable (join_with '', '' xs)"
  using assms by (induction "'', ''" xs rule: join_with.induct) (auto simp: printable_def byte_def)

lemma printable_joinList:
  assumes "joinList field its = Inr v"
  shows "list_all printable v"
proof -
  have "\<forall>it\<in>set its. \<not> (it = [] \<or> hasCommaOrControl it)"
    using assms unfolding joinList_def find_None_iff [symmetric]
    by (cases "List.find (\<lambda>it. it = [] \<or> hasCommaOrControl it) its") (simp_all add: find_None_iff)
  then have clean: "\<not> hasCommaOrControl it" if "it \<in> set its" for it
    using that by blast
  have "list_all printable it" if "it \<in> set its" for it
    using clean [OF that] by (simp add: hasCommaOrControl_def list_all_iff list_ex_iff printable_def) force
  then have "list_all (\<lambda>x. list_all printable x) its"
    by (simp add: list_all_iff)
  moreover have "v = join_with '', '' its"
    using assms unfolding joinList_def
    by (cases "List.find (\<lambda>it. it = [] \<or> hasCommaOrControl it) its") simp_all
  ultimately show ?thesis
    using printable_join by blast
qed

lemma printable_true:
  "printable (CHR ''t'')" "printable (CHR ''r'')" "printable (CHR ''u'')" "printable (CHR ''e'')"
  by (simp_all add: printable_def byte_def)

lemma compileCORS_okE:
  assumes "compileCORS cfg = Inr (origins, real, preflight)"
  obtains ms hs es where "Origins cfg \<noteq> []" "origins = Origins cfg" "0 \<le> MaxAge cfg"
    "List.find (\<lambda>x. \<not> validOrigin x) (Origins cfg) = None"
    "list_all printable ms" "list_all printable hs" "list_all printable es"
    "real = real_headers cfg es" "preflight = preflight_headers cfg ms hs"
proof -
  let ?ms = "if AllowMethods cfg = [] then defaultAllowMethods else AllowMethods cfg"
  have o1: "Origins cfg \<noteq> []"
    using assms unfolding compileCORS_def by (cases "Origins cfg = []") simp_all
  have o2: "List.find (\<lambda>x. \<not> validOrigin x) (Origins cfg) = None"
    using assms o1 unfolding compileCORS_def
    by (cases "List.find (\<lambda>x. \<not> validOrigin x) (Origins cfg)") simp_all
  have o3: "0 \<le> MaxAge cfg"
    using assms o1 o2 unfolding compileCORS_def by (cases "MaxAge cfg < 0") simp_all
  have o4: "\<not> (MaxAge cfg > 0 \<and> MaxAge cfg < second)"
    using assms o1 o2 o3 unfolding compileCORS_def
    by (cases "MaxAge cfg > 0 \<and> MaxAge cfg < second") simp_all
  note o = o1 o2 o3 o4
  obtain ms where ms: "joinList ''AllowMethods'' ?ms = Inr ms"
    using assms o unfolding compileCORS_def by (cases "joinList ''AllowMethods'' ?ms") simp_all
  obtain hs where hs: "joinList ''AllowHeaders'' (AllowHeaders cfg) = Inr hs"
    using assms o ms unfolding compileCORS_def
    by (cases "joinList ''AllowHeaders'' (AllowHeaders cfg)") simp_all
  obtain es where es: "joinList ''ExposeHeaders'' (ExposeHeaders cfg) = Inr es"
    using assms o ms hs unfolding compileCORS_def
    by (cases "joinList ''ExposeHeaders'' (ExposeHeaders cfg)") simp_all
  have "origins = Origins cfg" "real = real_headers cfg es" "preflight = preflight_headers cfg ms hs"
    using assms o ms hs es unfolding compileCORS_def by simp_all
  then show ?thesis
    using that o ms hs es printable_joinList by blast
qed

section \<open>Properties\<close>


definition example_CORS :: CORSConfig where
  "example_CORS = \<lparr>Origins = [''https://app.example.com''], AllowMethods = [], AllowHeaders = [''Authorization''],
     ExposeHeaders = [], MaxAge = 0, AllowCredentials = True\<rparr>"




end
