(* ===== verification/Sse.thy ===== *)
theory Sse
  imports Ctx "HOL-Library.Signed_Division"
begin

text \<open>
  Streams and server-sent events: \<open>stream.go\<close> and \<open>sse.go\<close>. The \<open>bufio.Writer\<close> below a
  stream is a parameter, its two operations returning their error beside the new state.
  The stream's mutex makes each operation one step. A reference decoder of the
  event-stream format reads back what \<open>Send\<close> and the heartbeat write.
\<close>

section \<open>Streams\<close>

record 'b bufio =
  b_Write :: "bytes \<Rightarrow> 'b \<Rightarrow> (nat \<times> go_error option) \<times> 'b"
  b_Flush :: "'b \<Rightarrow> go_error option \<times> 'b"

record 'b Stream =
  s_w :: 'b
  s_cancelled :: bool
  s_done :: bool

definition errStreamClosed :: go_error where
  "errStreamClosed = Plain ''rice: Stream used after its callback returned''"

definition fail :: "go_error option \<Rightarrow> 'b Stream \<Rightarrow> go_error option \<times> 'b Stream" where
  "fail err s = (err, if err \<noteq> None then s\<lparr>s_cancelled := True\<rparr> else s)"

definition Stream_Write :: "'b bufio \<Rightarrow> bytes \<Rightarrow> 'b Stream \<Rightarrow> (nat \<times> go_error option) \<times> 'b Stream" where
  "Stream_Write B p s =
     (if s_done s then ((0, Some errStreamClosed), s)
      else
        let ((n, err), w) = b_Write B p (s_w s); (err', s') = fail err (s\<lparr>s_w := w\<rparr>)
        in ((n, err'), s'))"

definition Stream_WriteString :: "'b bufio \<Rightarrow> string \<Rightarrow> 'b Stream \<Rightarrow> (nat \<times> go_error option) \<times> 'b Stream" where
  "Stream_WriteString B v s =
     (if s_done s then ((0, Some errStreamClosed), s)
      else
        let ((n, err), w) = b_Write B v (s_w s); (err', s') = fail err (s\<lparr>s_w := w\<rparr>)
        in ((n, err'), s'))"

definition Stream_Flush :: "'b bufio \<Rightarrow> 'b Stream \<Rightarrow> go_error option \<times> 'b Stream" where
  "Stream_Flush B s =
     (if s_done s then (Some errStreamClosed, s)
      else let (err, w) = b_Flush B (s_w s) in fail err (s\<lparr>s_w := w\<rparr>))"

text \<open>
  The tick case of the heartbeat's select: the comment, a flush, and whether it goes on.
  The other case, a cancelled context, returns and writes nothing.
\<close>

definition nl :: char where
  "nl = CHR 0x0A"

definition cr :: char where
  "cr = CHR 0x0D"

definition heartbeat_tick :: "'b bufio \<Rightarrow> 'b Stream \<Rightarrow> bool \<times> 'b Stream" where
  "heartbeat_tick B s =
     (let w = snd (b_Write B ('':'' @ [nl, nl]) (s_w s)); (err, w') = b_Flush B w
      in if err \<noteq> None then (False, s\<lparr>s_w := w', s_cancelled := True\<rparr>)
         else (True, s\<lparr>s_w := w'\<rparr>))"

text \<open>
  The deferred end of the body writer: cancel, wait for the heartbeat to have returned, a
  last flush, retired.
\<close>

definition retire :: "'b bufio \<Rightarrow> 'b Stream \<Rightarrow> 'b Stream" where
  "retire B s = s\<lparr>s_cancelled := True, s_w := snd (b_Flush B (s_w s)), s_done := True\<rparr>"

section \<open>Events\<close>

record Event =
  ev_ID :: string
  ev_Event :: string
  ev_Data :: string
  ev_Retry :: int

definition errInvalidEvent :: go_error where
  "errInvalidEvent = Plain ''rice: SSE event ID or name contains a line break or NUL''"

definition line_end :: "char \<Rightarrow> bool" where
  "line_end c \<longleftrightarrow> c = nl \<or> c = cr"

text \<open>The loop over the data: one line at a time, each of the three line ends.\<close>

function data_lines :: "bytes \<Rightarrow> bytes list" where
  "data_lines s =
     (case dropWhile (\<lambda>c. \<not> line_end c) s of
        [] \<Rightarrow> [s]
      | c # r \<Rightarrow>
          takeWhile (\<lambda>c. \<not> line_end c) s #
          data_lines (if c = cr \<and> r \<noteq> [] \<and> hd r = nl then tl r else r))"
  by pat_completeness auto
termination
proof (relation "measure length", goal_cases)
  case (2 s c r)
  then have "length (c # r) \<le> length s" using length_dropWhile_le by metis
  then show ?case by auto
qed simp

declare data_lines.simps [simp del]

text \<open>What \<open>Send\<close> hands to the writer, call by call.\<close>

definition event_writes :: "Event \<Rightarrow> bytes list" where
  "event_writes ev =
     (if ev_ID ev \<noteq> [] then [''id: '', ev_ID ev, [nl]] else [])
     @ (if ev_Event ev \<noteq> [] then [''event: '', ev_Event ev, [nl]] else [])
     @ (let ms = ev_Retry ev sdiv millisecond
        in if ms > 0 then ''retry: '' # map (\<lambda>d. [d]) (itoa ms) @ [[nl]] else [])
     @ concat (map (\<lambda>line. [''data: '', line, [nl]]) (data_lines (ev_Data ev)))
     @ [[nl]]"

definition invalid_event :: "Event \<Rightarrow> bool" where
  "invalid_event ev \<longleftrightarrow>
     list_ex (\<lambda>c. line_end c \<or> c = char_of (0::nat)) (ev_ID ev) \<or> list_ex line_end (ev_Event ev)"

definition Send :: "'b bufio \<Rightarrow> Event \<Rightarrow> 'b Stream \<Rightarrow> go_error option \<times> 'b Stream" where
  "Send B ev s =
     (if invalid_event ev then (Some errInvalidEvent, s)
      else if s_done s then (Some errStreamClosed, s)
      else
        let w = foldl (\<lambda>w p. snd (b_Write B p w)) (s_w s) (event_writes ev);
            (err, w') = b_Flush B w
        in fail err (s\<lparr>s_w := w'\<rparr>))"

section \<open>The format\<close>

text \<open>
  The reader of the event-stream format, after the HTML standard: a line that begins with
  a colon is a comment, a field's value loses one leading space, a blank line dispatches
  the event when it has data, and the last id stays until another one is set.
\<close>

record decoder =
  d_id :: bytes
  d_name :: bytes
  d_data :: "bytes list"
  d_out :: "(bytes \<times> bytes \<times> bytes) list"

fun join_lines :: "bytes list \<Rightarrow> bytes" where
  "join_lines [] = []"
| "join_lines [x] = x"
| "join_lines (x # y # ys) = x @ nl # join_lines (y # ys)"

definition field_of :: "bytes \<Rightarrow> bytes \<times> bytes" where
  "field_of line =
     (case indexByte (CHR '':'') line of
        None \<Rightarrow> (line, [])
      | Some i \<Rightarrow>
          (take i line, let v = drop (Suc i) line in if v \<noteq> [] \<and> hd v = CHR '' '' then tl v else v))"

definition decode_line :: "decoder \<Rightarrow> bytes \<Rightarrow> decoder" where
  "decode_line d line =
     (if line = [] then
        (if d_data d = [] then d\<lparr>d_name := []\<rparr>
         else d\<lparr>d_out := d_out d @ [(d_id d, d_name d, join_lines (d_data d))], d_name := [], d_data := []\<rparr>)
      else if hd line = CHR '':'' then d
      else
        let (f, v) = field_of line
        in if f = ''data'' then d\<lparr>d_data := d_data d @ [v]\<rparr>
           else if f = ''event'' then d\<lparr>d_name := v\<rparr>
           else if f = ''id'' then (if char_of (0::nat) \<in> set v then d else d\<lparr>d_id := v\<rparr>)
           else d)"

text \<open>A line counts once its end has arrived.\<close>

definition decode :: "bytes \<Rightarrow> (bytes \<times> bytes \<times> bytes) list" where
  "decode s = d_out (foldl decode_line \<lparr>d_id = [], d_name = [], d_data = [], d_out = []\<rparr> (butlast (data_lines s)))"

section \<open>Lines\<close>

definition one_line :: "bytes \<Rightarrow> bool" where
  "one_line l \<longleftrightarrow> list_all (\<lambda>c. \<not> line_end c) l"

lemma one_line_simps [simp]:
  "one_line []" "one_line (c # l) \<longleftrightarrow> \<not> line_end c \<and> one_line l"
  "one_line (l @ l') \<longleftrightarrow> one_line l \<and> one_line l'"
  by (simp_all add: one_line_def)

lemma line_end_nl [simp]: "line_end nl" "nl \<noteq> cr"
  by (simp_all add: line_end_def nl_def cr_def)

lemma line_end_byte: "line_end c \<longleftrightarrow> byte c = 10 \<or> byte c = 13"
proof -
  have "byte nl = 10" "byte cr = 13" by (simp_all add: byte_def nl_def cr_def)
  then show ?thesis unfolding line_end_def by (metis byte_inj)
qed

lemma data_lines_last: "dropWhile (\<lambda>c. \<not> line_end c) s = [] \<Longrightarrow> data_lines s = [s]"
  by (subst data_lines.simps) (simp only: list.case)

lemma data_lines_line: "one_line l \<Longrightarrow> data_lines (l @ nl # rest) = l # data_lines rest"
  by (subst data_lines.simps) (simp add: one_line_def list_all_iff takeWhile_append dropWhile_append)

lemma data_lines_Nil [simp]: "data_lines [] = [[]]"
  by (subst data_lines.simps) simp

lemma data_lines_one_line: "l \<in> set (data_lines s) \<Longrightarrow> one_line l"
proof (induction s rule: data_lines.induct)
  case (1 s)
  have tw: "one_line (takeWhile (\<lambda>c. \<not> line_end c) s)"
    by (auto simp: one_line_def list_all_iff dest: set_takeWhileD)
  show ?case
  proof (cases "dropWhile (\<lambda>c. \<not> line_end c) s")
    case Nil
    then show ?thesis
      using 1(2) by (auto simp: data_lines_last one_line_def list_all_iff dropWhile_eq_Nil_conv)
  next
    case (Cons c r)
    then show ?thesis
      using 1 tw by (auto simp: data_lines.simps [of s])
  qed
qed

lemma data_lines_nonempty: "data_lines s \<noteq> []"
  by (subst data_lines.simps) (simp split: list.split)

lemma data_lines_text:
  assumes "list_all one_line ls"
  shows "data_lines (concat (map (\<lambda>l. l @ [nl]) ls) @ rest) = ls @ data_lines rest"
  using assms by (induction ls) (auto simp: data_lines_line)

text \<open>Data without carriage returns is read back as it was.\<close>

lemma join_data_lines:
  assumes "cr \<notin> set s"
  shows "join_lines (data_lines s) = s"
  using assms
proof (induction s rule: data_lines.induct)
  case (1 s)
  show ?case
  proof (cases "dropWhile (\<lambda>c. \<not> line_end c) s")
    case Nil
    then show ?thesis using data_lines_last by simp
  next
    case (Cons c r)
    have "c \<in> set s" "set r \<subseteq> set s"
      using Cons by (metis dropWhile_eq_drop in_set_dropD list.set_intros(1),
          metis Cons set_dropWhileD set_subset_Cons subsetI subset_iff)
    moreover have "line_end c" using takeWhile_dropWhile_Cons [OF Cons] by simp
    ultimately have c: "c = nl" "cr \<notin> set r" using 1(2) by (auto simp: line_end_def)
    have "s = takeWhile (\<lambda>c. \<not> line_end c) s @ nl # r"
      using Cons c takeWhile_dropWhile_id [of "\<lambda>c. \<not> line_end c" s] by simp
    moreover have "join_lines (data_lines r) = r"
      using 1(1) [OF Cons] c by simp
    ultimately show ?thesis
      using Cons c data_lines_nonempty [of r]
      by (cases "data_lines r") (auto simp: data_lines.simps [of s])
  qed
qed

section \<open>Frames\<close>

definition frame_lines :: "Event \<Rightarrow> bytes list" where
  "frame_lines ev =
     (if ev_ID ev \<noteq> [] then [''id: '' @ ev_ID ev] else [])
     @ (if ev_Event ev \<noteq> [] then [''event: '' @ ev_Event ev] else [])
     @ (if ev_Retry ev sdiv millisecond > 0 then [''retry: '' @ itoa (ev_Retry ev sdiv millisecond)] else [])
     @ map (\<lambda>line. ''data: '' @ line) (data_lines (ev_Data ev)) @ [[]]"

lemma concat_singles: "concat (map (\<lambda>d. [d]) xs) = xs"
  by (induction xs) auto

lemma concat_triples: "concat (concat (map (\<lambda>l. [a, l, b]) ls)) = concat (map (\<lambda>l. a @ l @ b) ls)"
  by (induction ls) auto

lemma event_writes_lines: "concat (event_writes ev) = concat (map (\<lambda>l. l @ [nl]) (frame_lines ev))"
  by (simp add: event_writes_def frame_lines_def Let_def concat_singles concat_triples comp_def)

lemma one_line_itoa: "one_line (itoa i)"
proof -
  have "one_line (digits n)" for n
  proof (induction n rule: digits.induct)
    case (1 n)
    have "m < 10 \<Longrightarrow> \<not> line_end (char_of (48 + m))" for m :: nat
      by (simp add: line_end_byte byte_def)
    then show ?case using 1 by (simp add: digits.simps [of n])
  qed
  then show ?thesis by (simp add: itoa_def line_end_byte byte_def)
qed

lemma frame_one_line:
  assumes "\<not> invalid_event ev"
  shows "list_all one_line (frame_lines ev)"
proof -
  have "one_line (ev_ID ev)" "one_line (ev_Event ev)"
    using assms by (auto simp: invalid_event_def one_line_def list_all_iff list_ex_iff)
  then show ?thesis
    using data_lines_one_line one_line_itoa
    by (auto simp: frame_lines_def list_all_iff line_end_byte byte_def)
qed

section \<open>Reading frames back\<close>

lemma field_simps:
  "field_of (''id: '' @ v) = (''id'', v)" "field_of (''event: '' @ v) = (''event'', v)"
  "field_of (''retry: '' @ v) = (''retry'', v)" "field_of (''data: '' @ v) = (''data'', v)"
  by (simp_all add: field_of_def)

lemma decode_line_fields:
  "char_of (0::nat) \<notin> set v \<Longrightarrow> decode_line d (''id: '' @ v) = d\<lparr>d_id := v\<rparr>"
  "decode_line d (''event: '' @ v) = d\<lparr>d_name := v\<rparr>"
  "decode_line d (''retry: '' @ v) = d"
  "decode_line d (''data: '' @ v) = d\<lparr>d_data := d_data d @ [v]\<rparr>"
  unfolding decode_line_def field_simps by simp_all

lemma decode_data_lines:
  "foldl decode_line d (map (\<lambda>line. ''data: '' @ line) ls) = d\<lparr>d_data := d_data d @ ls\<rparr>"
  by (induction ls arbitrary: d) (simp_all add: decode_line_fields(4) del: append_Cons)

lemma decode_frame:
  assumes "\<not> invalid_event ev" "d_data d = []" "d_name d = []"
  shows "foldl decode_line d (frame_lines ev) =
    (let i = (if ev_ID ev \<noteq> [] then ev_ID ev else d_id d)
     in d\<lparr>d_id := i, d_out := d_out d @ [(i, ev_Event ev, join_lines (data_lines (ev_Data ev)))]\<rparr>)"
proof -
  have nul: "char_of (0::nat) \<notin> set (ev_ID ev)"
    using assms(1) by (auto simp: invalid_event_def list_ex_iff)
  have blank: "decode_line e [] = e\<lparr>d_out := d_out e @ [(d_id e, d_name e, join_lines (d_data e))],
      d_name := [], d_data := []\<rparr>" if "d_data e \<noteq> []" for e
    using that by (simp add: decode_line_def)
  show ?thesis
    using assms(2,3) nul data_lines_nonempty [of "ev_Data ev"]
    by (cases d) (simp add: frame_lines_def decode_line_fields decode_data_lines blank Let_def
        del: append_Cons)
qed

section \<open>What the client receives\<close>

text \<open>What is written to a live stream, in order, and what a reader makes of it.\<close>

datatype chunk = Ev Event | Beat

fun chunk_lines :: "chunk \<Rightarrow> bytes list" where
  "chunk_lines (Ev ev) = frame_lines ev"
| "chunk_lines Beat = ['':'', []]"

fun delivered :: "bytes \<Rightarrow> chunk list \<Rightarrow> (bytes \<times> bytes \<times> bytes) list" where
  "delivered i [] = []"
| "delivered i (Beat # cs) = delivered i cs"
| "delivered i (Ev ev # cs) =
     (let j = (if ev_ID ev \<noteq> [] then ev_ID ev else i)
      in (j, ev_Event ev, join_lines (data_lines (ev_Data ev))) # delivered j cs)"

fun valid_chunk :: "chunk \<Rightarrow> bool" where
  "valid_chunk (Ev ev) \<longleftrightarrow> \<not> invalid_event ev"
| "valid_chunk Beat \<longleftrightarrow> True"

definition write_chunk :: "'b bufio \<Rightarrow> 'b Stream \<Rightarrow> chunk \<Rightarrow> 'b Stream" where
  "write_chunk B s c = (case c of Ev ev \<Rightarrow> snd (Send B ev s) | Beat \<Rightarrow> snd (heartbeat_tick B s))"

definition chunk_text :: "chunk \<Rightarrow> bytes" where
  "chunk_text c = concat (map (\<lambda>l. l @ [nl]) (chunk_lines c))"

text \<open>A connected writer: it takes every byte in order, \<open>out\<close> is what it has taken.\<close>

definition connected :: "'b bufio \<Rightarrow> ('b \<Rightarrow> bytes) \<Rightarrow> bool" where
  "connected B out \<longleftrightarrow>
     (\<forall>p w. out (snd (b_Write B p w)) = out w @ p)
     \<and> (\<forall>w. out (snd (b_Flush B w)) = out w \<and> fst (b_Flush B w) = None)"

lemma chunk_texts: "concat (map chunk_text cs) = concat (map (\<lambda>l. l @ [nl]) (concat (map chunk_lines cs)))"
  by (induction cs) (simp_all add: chunk_text_def)

lemma out_writes:
  assumes "connected B out"
  shows "out (foldl (\<lambda>w p. snd (b_Write B p w)) w ps) = out w @ concat ps"
  using assms by (induction ps arbitrary: w) (auto simp: connected_def)

lemma write_chunk_out:
  assumes "connected B out" "valid_chunk c" "\<not> s_done s" "\<not> s_cancelled s"
  shows "out (s_w (write_chunk B s c)) = out (s_w s) @ chunk_text c"
    "\<not> s_done (write_chunk B s c)" "\<not> s_cancelled (write_chunk B s c)"
proof -
  have flush: "out (snd (b_Flush B w)) = out w" "fst (b_Flush B w) = None" for w
    using assms(1) by (auto simp: connected_def)
  have wr: "out (snd (b_Write B p w)) = out w @ p" for p w
    using assms(1) by (auto simp: connected_def)
  show "out (s_w (write_chunk B s c)) = out (s_w s) @ chunk_text c"
    "\<not> s_done (write_chunk B s c)" "\<not> s_cancelled (write_chunk B s c)"
    using assms(2-4) flush wr
    by (cases c; simp add: write_chunk_def Send_def heartbeat_tick_def fail_def chunk_text_def Let_def
        case_prod_beta event_writes_lines [symmetric] out_writes [OF assms(1)])+
qed

lemma write_chunks_out:
  assumes "connected B out" "list_all valid_chunk cs" "\<not> s_done s" "\<not> s_cancelled s"
  shows "out (s_w (foldl (write_chunk B) s cs)) = out (s_w s) @ concat (map chunk_text cs)"
  using assms(2-4) by (induction cs arbitrary: s) (simp_all add: write_chunk_out [OF assms(1)])

lemma decode_chunks:
  assumes "list_all valid_chunk cs" "d_data d = []" "d_name d = []"
  shows "d_out (foldl decode_line d (concat (map chunk_lines cs))) = d_out d @ delivered (d_id d) cs"
  using assms
proof (induction cs arbitrary: d)
  case (Cons c cs)
  show ?case
  proof (cases c)
    case (Ev ev)
    then show ?thesis
      using Cons by (simp add: decode_frame Let_def)
  next
    case Beat
    have "decode_line (decode_line d '':'') [] = d"
      using Cons.prems(2,3) by (simp add: decode_line_def)
    then show ?thesis using Cons Beat by simp
  qed
qed simp

section \<open>Properties\<close>


definition plain_bufio :: "bytes bufio" where
  "plain_bufio = \<lparr>b_Write = (\<lambda>p w. ((length p, None), w @ p)), b_Flush = (\<lambda>w. (None, w))\<rparr>"


text \<open>
  Data without carriage returns reaches the reader as it was passed to \<open>Send\<close>, newlines
  and all.
\<close>

lemma SSE_data_verbatim:
  assumes "cr \<notin> set (ev_Data ev)"
  shows "delivered i [Ev ev] =
    [(if ev_ID ev \<noteq> [] then ev_ID ev else i, ev_Event ev, ev_Data ev)]"
  using join_data_lines [OF assms] by (simp add: Let_def)

text \<open>
  A retired stream never touches its writer again, which may by then serve another
  response: every operation reports that the stream is closed and leaves it as it is. So
  does an event that would break the framing.
\<close>

lemma retired_stream_untouched:
  "Stream_Write B p (retire B s) = ((0, Some errStreamClosed), retire B s)
   \<and> Stream_WriteString B p (retire B s) = ((0, Some errStreamClosed), retire B s)
   \<and> Stream_Flush B (retire B s) = (Some errStreamClosed, retire B s)
   \<and> snd (Send B ev (retire B s)) = retire B s \<and> fst (Send B ev (retire B s)) \<noteq> None
   \<and> (invalid_event ev \<longrightarrow> Send B ev s = (Some errInvalidEvent, s))"
  by (simp add: Stream_Write_def Stream_WriteString_def Stream_Flush_def Send_def retire_def)

end
