(* ===== verification/Lifecycle.thy ===== *)
theory Lifecycle
  imports Ctx
begin

text \<open>
  Serving and shutting down: \<open>server.go\<close>, \<open>lifecycle.go\<close> and \<open>conns.go\<close>.

  Any number of \<open>Serve\<close> and \<open>Shutdown\<close> calls run at once. Each is a program counter and
  its local variables; a step of the machine takes one call over one critical section
  or one blocking operation of its code, and \<open>lreach\<close> interleaves the calls freely.
  fasthttp's \<open>Serve\<close> and \<open>ShutdownWithContext\<close>, the hooks and the clock are outside: what
  they answer is the \<open>pick\<close> of a step. The connection set of \<open>conns.go\<close> is a machine of
  its own at the end.
\<close>

section \<open>The state\<close>

datatype serve_pc =
    S_Lock
  | S_Hook nat
  | S_Publish
  | S_Serving
  | S_Defer "go_error option"
  | S_Unserve "go_error option"
  | S_Ret "go_error option"

datatype shut_pc =
    D_Lock
  | D_Streams
  | D_Drain
  | D_Wait
  | D_Turn
  | D_Turn2
  | D_Srv
  | D_CloseLn
  | D_Srv2
  | D_Finish "go_error option"
  | D_Once "go_error option"
  | D_Hook nat "go_error list" "go_error option"
  | D_Release "go_error list" "go_error option"
  | D_Ret "go_error option"

record life =
  closed :: bool
  serving :: bool
  a_ln :: "nat option"
  ready :: bool
  draining :: bool
  drainOnce :: bool
  drainEnd :: "int option"
  sem :: "nat option"
  shutdownOnce :: bool
  staticDown :: bool
  hooksStarted :: bool
  shutdownDone :: bool
  streamsCancelled :: bool
  forceClosed :: bool
  closedLns :: "nat set"
  hookLog :: "nat list"

text \<open>
  What the App was configured with: the number of hooks of each kind and the drain delay.
  A \<open>pick\<close> is what the outside answers in one step: whether the call sees its ctx ended
  (and, where a select could also go on, takes that case), the error of the ctx, the error
  of the hook or of the fasthttp call that runs in the step, and the time.
\<close>

record lconf =
  nOnStart :: nat
  nOnShutdown :: nat
  c_drainDelay :: int

record pick =
  late :: bool
  ctxErr :: go_error
  answer :: "go_error option"
  p_now :: int

text \<open>Registering a hook, \<open>Inl\<close> the panic: \<open>isNil\<close> says that the hook is nil.\<close>

definition OnStart :: "bool \<Rightarrow> bool \<Rightarrow> lconf \<Rightarrow> string + lconf" where
  "OnStart isNil built cf =
     (if isNil then Inl ''rice: OnStart: hook is nil''
      else if built then Inl ''rice: cannot call OnStart after Build; hooks must be registered before serving begins''
      else Inr (cf\<lparr>nOnStart := nOnStart cf + 1\<rparr>))"

definition OnShutdown :: "bool \<Rightarrow> bool \<Rightarrow> lconf \<Rightarrow> string + lconf" where
  "OnShutdown isNil built cf =
     (if isNil then Inl ''rice: OnShutdown: hook is nil''
      else if built then Inl ''rice: cannot call OnShutdown after Build; hooks must be registered before serving begins''
      else Inr (cf\<lparr>nOnShutdown := nOnShutdown cf + 1\<rparr>))"

definition ErrAlreadyServing :: go_error where
  "ErrAlreadyServing = Plain ''rice: App is already serving''"

definition ErrShutdownTimeout :: "go_error \<Rightarrow> go_error" where
  "ErrShutdownTimeout err = Joined [Plain ''rice: shutdown timed out'', err]"

text \<open>\<open>net.ErrClosed\<close>.\<close>

definition ErrNetClosed :: go_error where
  "ErrNetClosed = Plain ''use of closed network connection''"

definition start_life :: life where
  "start_life =
     \<lparr>closed = False, serving = False, a_ln = None, ready = False, draining = False, drainOnce = False,
      drainEnd = None, sem = None, shutdownOnce = False, staticDown = False, hooksStarted = False, shutdownDone = False,
      streamsCancelled = False, forceClosed = False, closedLns = {}, hookLog = []\<rparr>"

definition close_ln :: "nat \<Rightarrow> life \<Rightarrow> life" where
  "close_ln l s = s\<lparr>closedLns := insert l (closedLns s)\<rparr>"

text \<open>\<open>Ready\<close> and \<open>Addr\<close>; \<open>addr\<close> is the listener's own \<open>Addr().String()\<close>.\<close>

definition Ready :: "life \<Rightarrow> bool" where
  "Ready s = ready s"

definition Addr :: "(nat \<Rightarrow> string) \<Rightarrow> life \<Rightarrow> string" where
  "Addr addr s = (case a_ln s of None \<Rightarrow> [] | Some l \<Rightarrow> addr l)"

section \<open>Serve\<close>

fun Serve_step :: "lconf \<Rightarrow> pick \<Rightarrow> nat \<Rightarrow> serve_pc \<Rightarrow> life \<Rightarrow> serve_pc \<times> life" where
  "Serve_step cf p l S_Lock s =
     (if closed s then (S_Ret None, close_ln l s)
      else if serving s then (S_Ret (Some ErrAlreadyServing), close_ln l s)
      else (S_Hook 0, s\<lparr>serving := True\<rparr>))"
| "Serve_step cf p l (S_Hook i) s =
     (if i < nOnStart cf then
        (case answer p of
           None \<Rightarrow> (S_Hook (Suc i), s)
         | Some err \<Rightarrow> (S_Defer (Some err), close_ln l s))
      else (S_Publish, s))"
| "Serve_step cf p l S_Publish s =
     (if closed s then (S_Defer None, close_ln l s)
      else (S_Serving, s\<lparr>a_ln := Some l, ready := True\<rparr>))"
| "Serve_step cf p l S_Serving s = (S_Defer (answer p), s)"
| "Serve_step cf p l (S_Defer r) s = (S_Unserve r, s\<lparr>ready := False\<rparr>)"
| "Serve_step cf p l (S_Unserve r) s = (S_Ret r, s\<lparr>serving := False\<rparr>)"
| "Serve_step cf p l (S_Ret r) s = (S_Ret r, s)"

section \<open>Shutdown\<close>

text \<open>
  The two phases of \<open>drain\<close>: what \<open>drainOnce\<close> guards, and whether the wait is over at a
  time. A call that can neither go on nor give up is blocked, \<open>None\<close>. The local \<open>ln\<close> is
  the listener read under the lock. The \<open>OnShutdown\<close> hooks run from the last to the first.
\<close>

definition drain_once :: "lconf \<Rightarrow> pick \<Rightarrow> life \<Rightarrow> life" where
  "drain_once cf p s =
     (if drainOnce s then s
      else s\<lparr>drainOnce := True, ready := False, draining := True,
             drainEnd := (if ready s \<and> c_drainDelay cf > 0 then Some (p_now p + c_drainDelay cf) else drainEnd s)\<rparr>)"

definition drain_over :: "pick \<Rightarrow> life \<Rightarrow> bool" where
  "drain_over p s = (case drainEnd s of None \<Rightarrow> True | Some e \<Rightarrow> e - p_now p \<le> 0 \<or> late p)"

fun Shutdown_step ::
  "lconf \<Rightarrow> pick \<Rightarrow> nat \<Rightarrow> nat option \<Rightarrow> shut_pc \<Rightarrow> life \<Rightarrow> (shut_pc \<times> nat option \<times> life) option"
where
  "Shutdown_step cf p me ln D_Lock s = Some (D_Streams, a_ln s, s\<lparr>closed := True\<rparr>)"
| "Shutdown_step cf p me ln D_Streams s = Some (D_Drain, ln, s\<lparr>streamsCancelled := True\<rparr>)"
| "Shutdown_step cf p me ln D_Drain s = Some (D_Wait, ln, drain_once cf p s)"
| "Shutdown_step cf p me ln D_Wait s = (if drain_over p s then Some (D_Turn, ln, s) else None)"
| "Shutdown_step cf p me ln D_Turn s =
     (if sem s = None then Some (D_Srv, ln, s\<lparr>sem := Some me\<rparr>) else Some (D_Turn2, ln, s))"
| "Shutdown_step cf p me ln D_Turn2 s =
     (if late p then Some (D_Ret (Some (ErrShutdownTimeout (ctxErr p))), ln, s\<lparr>forceClosed := True\<rparr>)
      else if sem s = None then Some (D_Srv, ln, s\<lparr>sem := Some me\<rparr>)
      else None)"
| "Shutdown_step cf p me ln D_Srv s =
     (let err = (if errors_Is (answer p) ErrNetClosed then None else answer p)
      in if err = None \<and> ln \<noteq> None then Some (D_CloseLn, ln, s) else Some (D_Finish err, ln, s))"
| "Shutdown_step cf p me ln D_CloseLn s =
     Some (D_Srv2, ln, case ln of None \<Rightarrow> s | Some l \<Rightarrow> close_ln l s)"
| "Shutdown_step cf p me ln D_Srv2 s =
     Some (D_Finish (if late p \<and> errors_Is (answer p) (ctxErr p) then answer p else None), ln, s)"
| "Shutdown_step cf p me ln (D_Finish err) s =
     (if late p \<and> errors_Is err (ctxErr p)
      then Some (D_Once (Some (ErrShutdownTimeout (ctxErr p))), ln, s\<lparr>forceClosed := True\<rparr>)
      else Some (D_Once err, ln, s))"
| "Shutdown_step cf p me ln (D_Once err) s =
     (if shutdownOnce s then Some (D_Release [] err, ln, s)
      else Some (D_Hook (nOnShutdown cf) [] err, ln,
                 s\<lparr>shutdownOnce := True, staticDown := True, hooksStarted := True\<rparr>))"
| "Shutdown_step cf p me ln (D_Hook i errs err) s =
     (case i of
        0 \<Rightarrow> Some (D_Release errs err, ln, s\<lparr>shutdownDone := True\<rparr>)
      | Suc j \<Rightarrow>
          Some (D_Hook j (case answer p of None \<Rightarrow> errs | Some e \<Rightarrow> errs @ [e]) err, ln,
                s\<lparr>hookLog := hookLog s @ [j]\<rparr>))"
| "Shutdown_step cf p me ln (D_Release errs err) s =
     Some (D_Ret (if errs = [] then err else errors_Join (err # map Some errs)), ln, s\<lparr>sem := None\<rparr>)"
| "Shutdown_step cf p me ln (D_Ret r) s = None"

section \<open>RunContext\<close>

text \<open>
  \<open>RunContext\<close> starts a \<open>Serve\<close> call \<open>t\<close> of its own and, when its ctx ends, a \<open>Shutdown\<close>
  call \<open>u\<close>; \<open>joined\<close> says whether it still has to wait for what \<open>Serve\<close> returns.
  \<open>serve_pc\<close> and \<open>shut_pc\<close> arguments are where those calls are.
\<close>

datatype run_pc =
    R_Listen
  | R_Select nat
  | R_Nil nat
  | R_Within nat bool
  | R_Shut nat nat bool
  | R_Join "go_error option" nat
  | R_Await "go_error option"
  | R_Ret "go_error option"

definition RunContext_panics :: "int \<Rightarrow> bool" where
  "RunContext_panics grace \<longleftrightarrow> grace < 0"

definition shutdownWithin_total :: "int \<Rightarrow> int \<Rightarrow> int" where
  "shutdownWithin_total drainDelay grace =
     (let total = wrap64 (drainDelay + grace) in if total < grace then maxInt64 else total)"

definition awaitRunningHooks :: "life \<Rightarrow> bool" where
  "awaitRunningHooks s = (if hooksStarted s then shutdownDone s else True)"

fun RunContext_step ::
  "pick \<Rightarrow> (nat \<Rightarrow> (nat \<times> serve_pc) option) \<Rightarrow> (nat \<Rightarrow> (nat option \<times> shut_pc) option) \<Rightarrow> run_pc \<Rightarrow> life \<Rightarrow>
   run_pc option"
where
  "RunContext_step p sv sh (R_Select t) s =
     (if late p then Some (R_Within t True)
      else case sv t of
             Some (_, S_Ret r) \<Rightarrow> Some (case r of Some err \<Rightarrow> R_Await (Some err) | None \<Rightarrow> R_Nil t)
           | _ \<Rightarrow> None)"
| "RunContext_step p sv sh (R_Nil t) s =
     (if late p then Some (R_Within t False) else if shutdownDone s then Some (R_Ret None) else None)"
| "RunContext_step p sv sh (R_Shut t u joined) s =
     (case sh u of
        Some (_, D_Ret e) \<Rightarrow> Some (if joined then R_Join e t else R_Await e)
      | _ \<Rightarrow> None)"
| "RunContext_step p sv sh (R_Join e t) s =
     (case sv t of Some (_, S_Ret r) \<Rightarrow> Some (R_Await (errors_Join [e, r])) | _ \<Rightarrow> None)"
| "RunContext_step p sv sh (R_Await e) s = (if awaitRunningHooks s then Some (R_Ret e) else None)"
| "RunContext_step p sv sh _ s = None"

section \<open>All calls together\<close>

record sys =
  life :: life
  serves :: "nat \<Rightarrow> (nat \<times> serve_pc) option"
  shuts :: "nat \<Rightarrow> (nat option \<times> shut_pc) option"
  runs :: "nat \<Rightarrow> run_pc option"

definition start_sys :: sys where
  "start_sys = \<lparr>life = start_life, serves = (\<lambda>_. None), shuts = (\<lambda>_. None), runs = (\<lambda>_. None)\<rparr>"

inductive lreach :: "lconf \<Rightarrow> sys \<Rightarrow> bool" for cf :: lconf where
  l_init: "lreach cf start_sys"
| l_serve: "lreach cf y \<Longrightarrow> serves y t = None \<Longrightarrow> lreach cf (y\<lparr>serves := (serves y)(t \<mapsto> (l, S_Lock))\<rparr>)"
| l_shutdown: "lreach cf y \<Longrightarrow> shuts y t = None \<Longrightarrow>
    lreach cf (y\<lparr>shuts := (shuts y)(t \<mapsto> (None, D_Lock))\<rparr>)"
| l_serve_step: "lreach cf y \<Longrightarrow> serves y t = Some (l, pc) \<Longrightarrow>
    Serve_step cf p l pc (life y) = (pc', s') \<Longrightarrow>
    lreach cf (y\<lparr>life := s', serves := (serves y)(t \<mapsto> (l, pc'))\<rparr>)"
| l_shutdown_step: "lreach cf y \<Longrightarrow> shuts y t = Some (ln, pc) \<Longrightarrow>
    Shutdown_step cf p t ln pc (life y) = Some (pc', ln', s') \<Longrightarrow>
    lreach cf (y\<lparr>life := s', shuts := (shuts y)(t \<mapsto> (ln', pc'))\<rparr>)"
| l_run: "lreach cf y \<Longrightarrow> runs y r = None \<Longrightarrow> lreach cf (y\<lparr>runs := (runs y)(r \<mapsto> R_Listen)\<rparr>)"
| l_run_fail: "lreach cf y \<Longrightarrow> runs y r = Some R_Listen \<Longrightarrow>
    lreach cf (y\<lparr>runs := (runs y)(r \<mapsto> R_Ret (Some err))\<rparr>)"
| l_run_serve: "lreach cf y \<Longrightarrow> runs y r = Some R_Listen \<Longrightarrow> serves y t = None \<Longrightarrow>
    lreach cf (y\<lparr>serves := (serves y)(t \<mapsto> (l, S_Lock)), runs := (runs y)(r \<mapsto> R_Select t)\<rparr>)"
| l_run_shutdown: "lreach cf y \<Longrightarrow> runs y r = Some (R_Within t joined) \<Longrightarrow> shuts y u = None \<Longrightarrow>
    lreach cf (y\<lparr>shuts := (shuts y)(u \<mapsto> (None, D_Lock)), runs := (runs y)(r \<mapsto> R_Shut t u joined)\<rparr>)"
| l_run_step: "lreach cf y \<Longrightarrow> runs y r = Some pc \<Longrightarrow>
    RunContext_step p (serves y) (shuts y) pc (life y) = Some pc' \<Longrightarrow>
    lreach cf (y\<lparr>runs := (runs y)(r \<mapsto> pc')\<rparr>)"

section \<open>Invariants\<close>

text \<open>A \<open>Serve\<close> call that holds the App, and a \<open>Shutdown\<close> call that has the turn.\<close>

fun holds_app :: "serve_pc \<Rightarrow> bool" where
  "holds_app S_Lock = False"
| "holds_app (S_Ret _) = False"
| "holds_app _ = True"

fun has_turn :: "shut_pc \<Rightarrow> bool" where
  "has_turn D_Srv = True"
| "has_turn D_CloseLn = True"
| "has_turn D_Srv2 = True"
| "has_turn (D_Finish _) = True"
| "has_turn (D_Once _) = True"
| "has_turn (D_Hook _ _ _) = True"
| "has_turn (D_Release _ _) = True"
| "has_turn _ = False"

fun past_lock :: "shut_pc \<Rightarrow> bool" where
  "past_lock D_Lock = False"
| "past_lock _ = True"

definition inv_serve :: "sys \<Rightarrow> bool" where
  "inv_serve y \<longleftrightarrow>
     (\<forall>t l pc. serves y t = Some (l, pc) \<longrightarrow> holds_app pc \<longrightarrow> serving (life y))
     \<and> (\<forall>t l pc t' l' pc'. serves y t = Some (l, pc) \<longrightarrow> serves y t' = Some (l', pc') \<longrightarrow>
          holds_app pc \<longrightarrow> holds_app pc' \<longrightarrow> t = t')"

definition inv_ready :: "sys \<Rightarrow> bool" where
  "inv_ready y \<longleftrightarrow>
     (\<forall>t ln pc. shuts y t = Some (ln, pc) \<longrightarrow> past_lock pc \<longrightarrow> closed (life y))
     \<and> (drainOnce (life y) \<longrightarrow> closed (life y) \<and> \<not> ready (life y))"

definition inv_turn :: "sys \<Rightarrow> bool" where
  "inv_turn y \<longleftrightarrow> (\<forall>t ln pc. shuts y t = Some (ln, pc) \<longrightarrow> has_turn pc \<longrightarrow> sem (life y) = Some t)"

text \<open>How far the hooks have run: the call that runs them, and the hooks it has left.\<close>

fun at_hook :: "shut_pc \<Rightarrow> nat option" where
  "at_hook (D_Hook i _ _) = Some i"
| "at_hook _ = None"

definition hook_of :: "sys \<Rightarrow> nat \<Rightarrow> nat option" where
  "hook_of y t = (case shuts y t of None \<Rightarrow> None | Some (ln, pc) \<Rightarrow> at_hook pc)"

definition inv_hooks :: "nat \<Rightarrow> sys \<Rightarrow> bool" where
  "inv_hooks nstop y \<longleftrightarrow>
     (\<not> shutdownOnce (life y) \<longrightarrow> hookLog (life y) = [] \<and> \<not> shutdownDone (life y) \<and> (\<forall>t. hook_of y t = None))
     \<and> (\<forall>t i. hook_of y t = Some i \<longrightarrow>
          i \<le> nstop \<and> hookLog (life y) = rev [i..<nstop] \<and> \<not> shutdownDone (life y))
     \<and> (shutdownDone (life y) \<longrightarrow> hookLog (life y) = rev [0..<nstop])
     \<and> (shutdownOnce (life y) \<longrightarrow> \<not> shutdownDone (life y) \<longrightarrow> (\<exists>t i. hook_of y t = Some i))"

lemma life_fields [simp]:
  "closed (close_ln l s) = closed s" "serving (close_ln l s) = serving s" "ready (close_ln l s) = ready s"
  "drainOnce (close_ln l s) = drainOnce s" "sem (close_ln l s) = sem s"
  "shutdownOnce (close_ln l s) = shutdownOnce s" "shutdownDone (close_ln l s) = shutdownDone s"
  "hookLog (close_ln l s) = hookLog s" "hooksStarted (close_ln l s) = hooksStarted s"
  by (simp_all add: close_ln_def)

lemma drain_once_fields [simp]:
  "closed (drain_once cf p s) = closed s" "serving (drain_once cf p s) = serving s"
  "sem (drain_once cf p s) = sem s" "shutdownOnce (drain_once cf p s) = shutdownOnce s"
  "shutdownDone (drain_once cf p s) = shutdownDone s" "hookLog (drain_once cf p s) = hookLog s"
  "hooksStarted (drain_once cf p s) = hooksStarted s" "drainOnce (drain_once cf p s)"
  "ready (drain_once cf p s) \<longleftrightarrow> ready s \<and> drainOnce s"
  by (auto simp: drain_once_def)

text \<open>What one step of each kind of call does to the parts the invariants speak of.\<close>

lemma Serve_step_frame:
  assumes "Serve_step cf p l pc s = (pc', s')"
  shows "closed s' = closed s" "drainOnce s' = drainOnce s" "sem s' = sem s"
    "shutdownOnce s' = shutdownOnce s" "shutdownDone s' = shutdownDone s" "hookLog s' = hookLog s"
    "ready s' \<longrightarrow> ready s \<or> \<not> closed s"
    "(holds_app pc \<longrightarrow> serving s) \<longrightarrow> holds_app pc' \<longrightarrow> serving s'"
  using assms by (cases pc; auto split: if_splits option.splits)+

lemma Serve_step_serving:
  assumes "Serve_step cf p l pc s = (pc', s')"
  shows "serving s \<and> \<not> holds_app pc \<longrightarrow> serving s' \<and> \<not> holds_app pc'"
    "\<not> serving s \<and> serving s' \<longrightarrow> pc = S_Lock"
    "serving s \<and> \<not> serving s' \<longrightarrow> holds_app pc \<and> \<not> holds_app pc'"
    "holds_app pc' \<and> \<not> holds_app pc \<longrightarrow> \<not> serving s"
  using assms by (cases pc; auto split: if_splits option.splits)+

lemma Shutdown_step_frame:
  assumes "Shutdown_step cf p t ln pc s = Some (pc', ln', s')"
  shows "serving s' = serving s" "closed s \<longrightarrow> closed s'" "ready s' \<longrightarrow> ready s"
    "past_lock pc'" "past_lock pc \<or> closed s'"
    "drainOnce s' \<longrightarrow> drainOnce s \<or> (past_lock pc \<and> \<not> ready s')"
    "shutdownDone s \<longrightarrow> shutdownDone s'"
  using assms by (cases pc; auto split: if_splits option.splits nat.splits simp: Let_def)+

text \<open>Steps that start a call or only move a \<open>RunContext\<close> leave the shared state alone.\<close>

lemma inv_serve_spawn: "inv_serve y \<Longrightarrow> inv_serve (y\<lparr>serves := (serves y)(t \<mapsto> (l, S_Lock))\<rparr>)"
  by (auto simp: inv_serve_def split: if_splits)

lemma inv_runs_irrelevant [simp]:
  "inv_serve (y\<lparr>runs := z\<rparr>) = inv_serve y" "inv_ready (y\<lparr>runs := z\<rparr>) = inv_ready y"
  "inv_turn (y\<lparr>runs := z\<rparr>) = inv_turn y" "hook_of (y\<lparr>runs := z\<rparr>) = hook_of y"
  "inv_hooks n (y\<lparr>runs := z\<rparr>) = inv_hooks n y"
proof -
  show "hook_of (y\<lparr>runs := z\<rparr>) = hook_of y" by (simp add: fun_eq_iff hook_of_def)
  then show "inv_hooks n (y\<lparr>runs := z\<rparr>) = inv_hooks n y" by (simp add: inv_hooks_def)
qed (simp_all add: inv_serve_def inv_ready_def inv_turn_def)

lemma inv_serves_irrelevant [simp]:
  "inv_ready (y\<lparr>serves := z\<rparr>) = inv_ready y" "inv_turn (y\<lparr>serves := z\<rparr>) = inv_turn y"
  "hook_of (y\<lparr>serves := z\<rparr>) = hook_of y" "inv_hooks n (y\<lparr>serves := z\<rparr>) = inv_hooks n y"
proof -
  show "hook_of (y\<lparr>serves := z\<rparr>) = hook_of y" by (simp add: fun_eq_iff hook_of_def)
  then show "inv_hooks n (y\<lparr>serves := z\<rparr>) = inv_hooks n y" by (simp add: inv_hooks_def)
qed (simp_all add: inv_ready_def inv_turn_def)

lemma inv_shuts_irrelevant [simp]: "inv_serve (y\<lparr>shuts := z\<rparr>) = inv_serve y"
  by (simp add: inv_serve_def)

lemma inv_serve_step:
  assumes inv: "inv_serve y" and t: "serves y t = Some (l, pc)"
    and step: "Serve_step cf p l pc (life y) = (pc', s')"
  shows "inv_serve (y\<lparr>life := s', serves := (serves y)(t \<mapsto> (l, pc'))\<rparr>)"
proof -
  note s = Serve_step_serving [OF step]
  have one: "u = t" if "serves y u = Some (m, q)" "holds_app q" "holds_app pc'" for u m q
  proof -
    have "holds_app pc"
      using that inv s(4) unfolding inv_serve_def by metis
    then show ?thesis
      using that(1,2) t inv unfolding inv_serve_def by metis
  qed
  have held: "serving s'" if "serves y u = Some (m, q)" "holds_app q" "u \<noteq> t" for u m q
  proof -
    have "serving (life y)" using that inv unfolding inv_serve_def by metis
    moreover have "\<not> holds_app pc"
      using that t inv unfolding inv_serve_def by metis
    ultimately show ?thesis using s(1) by blast
  qed
  have mine: "serving s'" if "holds_app pc'"
    using that t inv Serve_step_frame(8) [OF step] unfolding inv_serve_def by metis
  show ?thesis
    using one held mine inv unfolding inv_serve_def by (auto split: if_splits)
qed

lemma inv_serve_reach: "lreach cf y \<Longrightarrow> inv_serve y"
proof (induction rule: lreach.induct)
  case l_init
  then show ?case by (simp add: inv_serve_def start_sys_def)
next
  case (l_serve_step y t l pc p pc' s')
  then show ?case using inv_serve_step by blast
next
  case (l_shutdown_step y t ln pc p pc' ln' s')
  then show ?case
    using Shutdown_step_frame(1) [OF l_shutdown_step.hyps(3)] by (simp add: inv_serve_def)
qed (simp_all add: inv_serve_spawn)

lemma inv_ready_spawn: "inv_ready y \<Longrightarrow> inv_ready (y\<lparr>shuts := (shuts y)(t \<mapsto> (None, D_Lock))\<rparr>)"
  by (auto simp: inv_ready_def split: if_splits)

lemma inv_ready_reach: "lreach cf y \<Longrightarrow> inv_ready y"
proof (induction rule: lreach.induct)
  case l_init
  then show ?case by (simp add: inv_ready_def start_life_def start_sys_def)
next
  case (l_serve_step y t l pc p pc' s')
  then show ?case
    using Serve_step_frame(1,2,7) [OF l_serve_step.hyps(3)] by (auto simp: inv_ready_def)
next
  case (l_shutdown_step y t ln pc p pc' ln' s')
  have "past_lock pc \<longrightarrow> closed (life y)"
    using l_shutdown_step.IH l_shutdown_step.hyps(2) unfolding inv_ready_def by blast
  then show ?case
    using l_shutdown_step.IH Shutdown_step_frame [OF l_shutdown_step.hyps(3)]
    by (auto simp: inv_ready_def split: if_splits)
qed (simp_all add: inv_ready_spawn)

lemma Shutdown_step_turn:
  assumes "Shutdown_step cf p t ln pc s = Some (pc', ln', s')"
  shows "has_turn pc' \<and> \<not> has_turn pc \<longrightarrow> sem s' = Some t \<and> sem s = None"
    "has_turn pc' \<and> has_turn pc \<longrightarrow> sem s' = sem s"
    "\<not> has_turn pc \<and> sem s \<noteq> None \<longrightarrow> sem s' = sem s"
  using assms by (cases pc; auto split: if_splits option.splits nat.splits simp: Let_def)+

lemma inv_turn_spawn: "inv_turn y \<Longrightarrow> inv_turn (y\<lparr>shuts := (shuts y)(t \<mapsto> (None, D_Lock))\<rparr>)"
  by (auto simp: inv_turn_def split: if_splits)

lemma inv_turn_reach: "lreach cf y \<Longrightarrow> inv_turn y"
proof (induction rule: lreach.induct)
  case l_init
  then show ?case by (simp add: inv_turn_def start_sys_def)
next
  case (l_serve_step y t l pc p pc' s')
  then show ?case
    using Serve_step_frame(3) [OF l_serve_step.hyps(3)] by (auto simp: inv_turn_def)
next
  case (l_shutdown_step y t ln pc p pc' ln' s')
  note turn = Shutdown_step_turn [OF l_shutdown_step.hyps(3)]
  have IH: "shuts y u = Some (m, q) \<Longrightarrow> has_turn q \<Longrightarrow> sem (life y) = Some u" for u m q
    using l_shutdown_step.IH unfolding inv_turn_def by blast
  have "sem s' = Some u" if "shuts y u = Some (m, q)" "has_turn q" "u \<noteq> t" for u m q
  proof -
    have "sem (life y) = Some u" by (rule IH [OF that(1,2)])
    moreover have "\<not> has_turn pc"
      using IH [OF l_shutdown_step.hyps(2)] calculation that(3) by auto
    ultimately show ?thesis using turn(3) by simp
  qed
  moreover have "sem s' = Some t" if "has_turn pc'"
    using that turn(1,2) IH [OF l_shutdown_step.hyps(2)] by auto
  ultimately show ?case
    by (auto simp: inv_turn_def split: if_splits)
qed (simp_all add: inv_turn_spawn)

text \<open>The hooks' progress in one step.\<close>

lemma Shutdown_step_hooks:
  assumes "Shutdown_step cf p t ln pc s = Some (pc', ln', s')"
  obtains (Start) "\<not> shutdownOnce s" "at_hook pc = None" "at_hook pc' = Some (nOnShutdown cf)" "shutdownOnce s'"
      "hookLog s' = hookLog s" "shutdownDone s' = shutdownDone s"
  | (Run) j where "at_hook pc = Some (Suc j)" "at_hook pc' = Some j" "shutdownOnce s' = shutdownOnce s"
      "hookLog s' = hookLog s @ [j]" "shutdownDone s' = shutdownDone s"
  | (Finish) "at_hook pc = Some 0" "at_hook pc' = None" "shutdownOnce s' = shutdownOnce s"
      "hookLog s' = hookLog s" "shutdownDone s'"
  | (Other) "at_hook pc = None" "at_hook pc' = None" "shutdownOnce s' = shutdownOnce s"
      "hookLog s' = hookLog s" "shutdownDone s' = shutdownDone s"
proof (cases pc)
  case (D_Once err)
  then show ?thesis using assms Start Other by (auto split: if_splits)
next
  case (D_Hook i errs err)
  then show ?thesis using assms Run Finish by (cases i) (auto split: option.splits)
qed (use assms Other in \<open>auto split: if_splits option.splits simp: Let_def\<close>)

lemma hook_of_has_turn: "hook_of y t = Some i \<Longrightarrow> inv_turn y \<Longrightarrow> sem (life y) = Some t"
proof -
  assume "hook_of y t = Some i" "inv_turn y"
  moreover have "at_hook pc = Some i \<Longrightarrow> has_turn pc" for pc
    by (cases pc) auto
  ultimately show ?thesis
    by (auto simp: hook_of_def inv_turn_def split: option.splits)
qed

lemma hook_of_update [simp]:
  "hook_of (y\<lparr>life := s', shuts := (shuts y)(t \<mapsto> (ln, pc))\<rparr>) u = (if u = t then at_hook pc else hook_of y u)"
  "hook_of (y\<lparr>shuts := (shuts y)(t \<mapsto> (ln, pc))\<rparr>) u = (if u = t then at_hook pc else hook_of y u)"
  "hook_of (y\<lparr>life := s'\<rparr>) u = hook_of y u" "hook_of (y\<lparr>life := s', serves := z\<rparr>) u = hook_of y u"
  by (simp_all add: hook_of_def)

lemma inv_hooks_step:
  assumes inv: "inv_hooks (nOnShutdown cf) y" "inv_turn y" and t: "shuts y t = Some (ln, pc)"
    and step: "Shutdown_step cf p t ln pc (life y) = Some (pc', ln', s')"
  shows "inv_hooks (nOnShutdown cf) (y\<lparr>life := s', shuts := (shuts y)(t \<mapsto> (ln', pc'))\<rparr>)"
proof -
  have mine: "hook_of y t = at_hook pc" using t by (simp add: hook_of_def)
  have only: "hook_of y u = None" if "hook_of y t = Some i" "u \<noteq> t" for u i
    using hook_of_has_turn [OF that(1) inv(2)] hook_of_has_turn [of y u _, OF _ inv(2)] that(2)
    by (cases "hook_of y u") auto
  from step show ?thesis
  proof (cases rule: Shutdown_step_hooks)
    case Start
    then show ?thesis
      using inv(1) by (auto simp: inv_hooks_def split: if_splits)
  next
    case (Run j)
    then have at: "hook_of y t = Some (Suc j)" using mine by simp
    then have "Suc j \<le> nOnShutdown cf" "hookLog (life y) = rev [Suc j..<nOnShutdown cf]" "\<not> shutdownDone (life y)"
      using inv(1) by (auto simp: inv_hooks_def)
    moreover have "[j..<nOnShutdown cf] = j # [Suc j..<nOnShutdown cf]" "j \<le> nOnShutdown cf"
      using calculation(1) by (simp_all add: upt_conv_Cons)
    ultimately show ?thesis
      using inv(1) Run only [OF at] at unfolding inv_hooks_def by (auto split: if_splits)
  next
    case Finish
    then have at: "hook_of y t = Some 0" using mine by simp
    then show ?thesis
      using inv(1) Finish only [OF at] unfolding inv_hooks_def by (auto split: if_splits)
  next
    case Other
    then have "hook_of (y\<lparr>life := s', shuts := (shuts y)(t \<mapsto> (ln', pc'))\<rparr>) = hook_of y"
      using mine by (simp add: fun_eq_iff)
    then show ?thesis
      using inv(1) Other unfolding inv_hooks_def by simp
  qed
qed

lemma inv_hooks_spawn:
  assumes "inv_hooks n y" "shuts y t = None"
  shows "inv_hooks n (y\<lparr>shuts := (shuts y)(t \<mapsto> (None, D_Lock))\<rparr>)"
proof -
  have "hook_of (y\<lparr>shuts := (shuts y)(t \<mapsto> (None, D_Lock))\<rparr>) = hook_of y"
    using assms(2) by (simp add: fun_eq_iff hook_of_def)
  then show ?thesis
    using assms(1) unfolding inv_hooks_def by simp
qed

lemma inv_hooks_reach: "lreach cf y \<Longrightarrow> inv_hooks (nOnShutdown cf) y"
proof (induction rule: lreach.induct)
  case l_init
  then show ?case by (simp add: inv_hooks_def start_life_def hook_of_def start_sys_def)
next
  case (l_serve_step y t l pc p pc' s')
  then show ?case
    using Serve_step_frame(4-6) [OF l_serve_step.hyps(3)] by (simp add: inv_hooks_def)
next
  case (l_shutdown_step y t ln pc p pc' ln' s')
  then show ?case
    using inv_hooks_step inv_turn_reach by blast
qed (simp_all add: inv_hooks_spawn)

text \<open>
  A call that is through with the hooks, and a \<open>RunContext\<close> that has only a nil error to
  return, find them all run.
\<close>

fun hooks_over :: "shut_pc \<Rightarrow> bool" where
  "hooks_over (D_Release _ _) = True"
| "hooks_over (D_Ret None) = True"
| "hooks_over _ = False"

fun run_over :: "run_pc \<Rightarrow> bool" where
  "run_over (R_Join None _) = True"
| "run_over (R_Await None) = True"
| "run_over (R_Ret None) = True"
| "run_over _ = False"

lemma run_over_iff [simp]:
  "run_over (R_Join e t) \<longleftrightarrow> e = None" "run_over (R_Await e) \<longleftrightarrow> e = None" "run_over (R_Ret e) \<longleftrightarrow> e = None"
  by (cases e; simp)+

definition inv_over :: "sys \<Rightarrow> bool" where
  "inv_over y \<longleftrightarrow>
     (\<forall>t ln pc. shuts y t = Some (ln, pc) \<longrightarrow> hooks_over pc \<longrightarrow> shutdownDone (life y))
     \<and> (\<forall>r pc. runs y r = Some pc \<longrightarrow> run_over pc \<longrightarrow> shutdownDone (life y))"

lemma inv_over_runD: "inv_over y \<Longrightarrow> runs y r = Some pc \<Longrightarrow> run_over pc \<Longrightarrow> shutdownDone (life y)"
  by (auto simp: inv_over_def)

lemma Shutdown_step_over:
  assumes "Shutdown_step cf p t ln pc s = Some (pc', ln', s')" "hooks_over pc'"
  shows "hooks_over pc \<or> shutdownDone s' \<or> (shutdownOnce s \<and> (\<exists>err. pc = D_Once err))"
  using assms by (cases pc; auto split: if_splits option.splits nat.splits simp: Let_def)

lemma errors_Join_None: "errors_Join [e, r] = None \<Longrightarrow> e = None"
  by (auto simp: errors_Join_def List.map_filter_def Let_def split: if_splits option.splits)

lemma RunContext_step_over:
  assumes "RunContext_step p sv sh pc s = Some pc'" "run_over pc'" "run_over pc \<Longrightarrow> shutdownDone s"
    "\<And>u ln. sh u = Some (ln, D_Ret None) \<Longrightarrow> shutdownDone s"
  shows "shutdownDone s"
proof (cases "(p, sv, sh, pc, s)" rule: RunContext_step.cases)
  case (4 p sv sh e t s)
  then show ?thesis
    using assms(1-3) errors_Join_None [of e] by (auto split: option.splits prod.splits serve_pc.splits elim!: run_over.elims)
next
  case (3 p sv sh t u joined s)
  then show ?thesis
    using assms by (auto split: option.splits prod.splits shut_pc.splits if_splits)
qed (use assms in \<open>auto split: option.splits prod.splits serve_pc.splits if_splits\<close>)

lemma inv_over_shutdown_step:
  assumes inv: "inv_over y" "inv_turn y" "inv_hooks n y" and t: "shuts y t = Some (ln, pc)"
    and step: "Shutdown_step cf p t ln pc (life y) = Some (pc', ln', s')"
  shows "inv_over (y\<lparr>life := s', shuts := (shuts y)(t \<mapsto> (ln', pc'))\<rparr>)"
proof -
  note mono = Shutdown_step_frame(7) [OF step]
  have "shutdownDone s'" if "hooks_over pc'"
    using Shutdown_step_over [OF step that]
  proof (elim disjE conjE exE)
    fix err assume once: "shutdownOnce (life y)" and pc: "pc = D_Once err"
    have "shutdownDone (life y)"
    proof (rule ccontr)
      assume "\<not> shutdownDone (life y)"
      then obtain u i where u: "hook_of y u = Some i"
        using inv(3) once unfolding inv_hooks_def by blast
      have "sem (life y) = Some t" using inv(2) t pc unfolding inv_turn_def by auto
      then have "u = t" using hook_of_has_turn [OF u inv(2)] by simp
      then show False using u t pc by (simp add: hook_of_def)
    qed
    then show ?thesis using mono by simp
  qed (use inv(1) t mono in \<open>auto simp: inv_over_def\<close>)
  then show ?thesis
    using inv(1) mono unfolding inv_over_def by (auto split: if_splits)
qed

lemma inv_over_reach: "lreach cf y \<Longrightarrow> inv_over y"
proof (induction rule: lreach.induct)
  case l_init
  then show ?case by (simp add: inv_over_def start_sys_def)
next
  case (l_serve_step y t l pc p pc' s')
  then show ?case
    using Serve_step_frame(5) [OF l_serve_step.hyps(3)] by (simp add: inv_over_def)
next
  case (l_shutdown_step y t ln pc p pc' ln' s')
  then show ?case
    using inv_over_shutdown_step inv_turn_reach inv_hooks_reach by blast
next
  case (l_run_step y r pc p pc')
  have "shutdownDone (life y)" if "run_over pc'"
    using RunContext_step_over [OF l_run_step.hyps(3) that] l_run_step.IH l_run_step.hyps(2)
    unfolding inv_over_def by fastforce
  then show ?case
    using l_run_step.IH unfolding inv_over_def by auto
qed (auto simp: inv_over_def split: if_splits)

text \<open>The sum of two durations saturates.\<close>

lemma shutdownWithin_saturates:
  assumes "0 \<le> d" "d \<le> maxInt64" "0 \<le> g" "g \<le> maxInt64"
  shows "shutdownWithin_total d g = min (d + g) maxInt64"
proof (cases "d + g \<le> maxInt64")
  case True
  then have "wrap64 (d + g) = d + g" using assms by (intro wrap64_id) auto
  then show ?thesis using True assms by (simp add: shutdownWithin_total_def Let_def)
next
  case False
  then have "(d + g + 2 ^ 63) mod 2 ^ 64 = d + g + 2 ^ 63 - 2 ^ 64"
    using assms mod_add_self2 [of "d + g + 2 ^ 63 - 2 ^ 64" "2 ^ 64"] by (simp add: maxInt64_def ac_simps)
  then have "wrap64 (d + g) = d + g - 2 ^ 64" by (simp add: wrap64_def)
  then show ?thesis using False assms by (simp add: shutdownWithin_total_def Let_def maxInt64_def)
qed

section \<open>An executable scheduler\<close>

text \<open>
  A schedule is a list of actions; \<open>exec\<close> runs it, \<open>None\<close> when an action is not enabled.
  Every state it reaches is reachable, which is how concrete runs are checked.
\<close>

datatype act =
    A_Serve nat nat
  | A_Shutdown nat
  | A_StepServe nat pick
  | A_StepShut nat pick
  | A_Run nat
  | A_RunFail nat go_error
  | A_RunServe nat nat nat
  | A_RunShutdown nat nat
  | A_StepRun nat pick

fun exec1 :: "lconf \<Rightarrow> act \<Rightarrow> sys \<Rightarrow> sys option" where
  "exec1 cf (A_Serve t l) y =
     (if serves y t = None then Some (y\<lparr>serves := (serves y)(t \<mapsto> (l, S_Lock))\<rparr>) else None)"
| "exec1 cf (A_Shutdown t) y =
     (if shuts y t = None then Some (y\<lparr>shuts := (shuts y)(t \<mapsto> (None, D_Lock))\<rparr>) else None)"
| "exec1 cf (A_StepServe t p) y =
     (case serves y t of
        None \<Rightarrow> None
      | Some (l, pc) \<Rightarrow>
          (case Serve_step cf p l pc (life y) of
             (pc', s') \<Rightarrow> Some (y\<lparr>life := s', serves := (serves y)(t \<mapsto> (l, pc'))\<rparr>)))"
| "exec1 cf (A_StepShut t p) y =
     (case shuts y t of
        None \<Rightarrow> None
      | Some (ln, pc) \<Rightarrow>
          (case Shutdown_step cf p t ln pc (life y) of
             None \<Rightarrow> None
           | Some (pc', ln', s') \<Rightarrow> Some (y\<lparr>life := s', shuts := (shuts y)(t \<mapsto> (ln', pc'))\<rparr>)))"
| "exec1 cf (A_Run r) y =
     (if runs y r = None then Some (y\<lparr>runs := (runs y)(r \<mapsto> R_Listen)\<rparr>) else None)"
| "exec1 cf (A_RunServe r t l) y =
     (if runs y r = Some R_Listen \<and> serves y t = None
      then Some (y\<lparr>serves := (serves y)(t \<mapsto> (l, S_Lock)), runs := (runs y)(r \<mapsto> R_Select t)\<rparr>) else None)"
| "exec1 cf (A_RunFail r err) y =
     (if runs y r = Some R_Listen then Some (y\<lparr>runs := (runs y)(r \<mapsto> R_Ret (Some err))\<rparr>) else None)"
| "exec1 cf (A_RunShutdown r u) y =
     (case runs y r of
        Some (R_Within t joined) \<Rightarrow>
          if shuts y u = None
          then Some (y\<lparr>shuts := (shuts y)(u \<mapsto> (None, D_Lock)), runs := (runs y)(r \<mapsto> R_Shut t u joined)\<rparr>) else None
      | _ \<Rightarrow> None)"
| "exec1 cf (A_StepRun r p) y =
     (case runs y r of
        None \<Rightarrow> None
      | Some pc \<Rightarrow>
          (case RunContext_step p (serves y) (shuts y) pc (life y) of
             None \<Rightarrow> None
           | Some pc' \<Rightarrow> Some (y\<lparr>runs := (runs y)(r \<mapsto> pc')\<rparr>)))"

fun exec :: "lconf \<Rightarrow> act list \<Rightarrow> sys \<Rightarrow> sys option" where
  "exec cf [] y = Some y"
| "exec cf (a # as) y = (case exec1 cf a y of None \<Rightarrow> None | Some y' \<Rightarrow> exec cf as y')"

lemma exec1_reach: "exec1 cf a y = Some y' \<Longrightarrow> lreach cf y \<Longrightarrow> lreach cf y'"
  by (cases a) (auto split: if_splits option.splits prod.splits run_pc.splits intro: lreach.intros)

lemma exec_reach: "exec cf as y = Some y' \<Longrightarrow> lreach cf y \<Longrightarrow> lreach cf y'"
  by (induction as arbitrary: y) (auto split: option.splits dest: exec1_reach)

text \<open>A concrete configuration and answer, and the schedule of one whole \<open>Shutdown\<close>.\<close>

definition demo_conf :: lconf where
  "demo_conf = \<lparr>nOnStart = 0, nOnShutdown = 1, c_drainDelay = 5\<rparr>"

definition demo_pick :: pick where
  "demo_pick = \<lparr>late = False, ctxErr = Plain [], answer = None, p_now = 0\<rparr>"

definition demo_shutdown :: "act list" where
  "demo_shutdown = A_Shutdown 1 # replicate 10 (A_StepShut 1 demo_pick)"

lemmas demo_run = demo_shutdown_def demo_conf_def demo_pick_def start_sys_def start_life_def
  numeral_eq_Suc drain_once_def drain_over_def errors_Is_def

section \<open>The connection set\<close>

text \<open>
  \<open>connState\<close> and \<open>closeConns\<close>, the second in its two halves: what it does under the lock,
  and the closing of the copied connections one after the other outside it.
  \<open>down\<close> is the set of connections that have been closed.
\<close>

datatype conn_event = StateNew | StateActive | StateIdle | StateClosed | StateHijacked

record conns =
  conns :: "nat set"
  c_forceClosed :: bool
  baseCancelled :: bool
  sweeping :: "nat list"
  down :: "nat set"

definition connState :: "nat \<Rightarrow> conn_event \<Rightarrow> conns \<Rightarrow> conns" where
  "connState c e s =
     (case e of
        StateNew \<Rightarrow>
          if c_forceClosed s then s\<lparr>down := insert c (down s)\<rparr>
          else s\<lparr>conns := insert c (conns s)\<rparr>
      | StateClosed \<Rightarrow> s\<lparr>conns := conns s - {c}\<rparr>
      | StateHijacked \<Rightarrow> s\<lparr>conns := conns s - {c}\<rparr>
      | _ \<Rightarrow> s)"

text \<open>\<open>cs\<close> is the set in the order the map is walked.\<close>

definition closeConns_lock :: "nat list \<Rightarrow> conns \<Rightarrow> conns" where
  "closeConns_lock cs s = s\<lparr>c_forceClosed := True, sweeping := sweeping s @ cs, baseCancelled := True\<rparr>"

definition closeConns_next :: "conns \<Rightarrow> conns" where
  "closeConns_next s =
     (case sweeping s of [] \<Rightarrow> s | c # cs \<Rightarrow> s\<lparr>sweeping := cs, down := insert c (down s)\<rparr>)"

inductive creach :: "conns \<Rightarrow> bool" where
  c_init: "creach \<lparr>conns = {}, c_forceClosed = False, baseCancelled = False, sweeping = [], down = {}\<rparr>"
| c_state: "creach s \<Longrightarrow> creach (connState c e s)"
| c_lock: "creach s \<Longrightarrow> set cs = conns s \<Longrightarrow> creach (closeConns_lock cs s)"
| c_next: "creach s \<Longrightarrow> creach (closeConns_next s)"

lemma creach_swept: "creach s \<Longrightarrow> c_forceClosed s \<Longrightarrow> conns s \<subseteq> set (sweeping s) \<union> down s \<and> baseCancelled s"
proof (induction rule: creach.induct)
  case (c_state s c e)
  then show ?case by (cases e) (auto simp: connState_def split: if_splits)
next
  case (c_lock s cs)
  then show ?case by (auto simp: closeConns_lock_def)
next
  case (c_next s)
  then show ?case by (auto simp: closeConns_next_def split: list.splits)
qed simp

section \<open>Properties\<close>

text \<open>
  An App is served by one call at a time. However many Serve calls run, at most one of
  them is past the point where it took the App, a second one is turned away with
  ErrAlreadyServing and its listener closed, and none starts once Shutdown has begun.
\<close>

lemma Serve_exclusive:
  assumes "lreach cf y" "serves y t = Some (l, pc)"
  shows "(\<forall>t' l' pc'. serves y t' = Some (l', pc') \<longrightarrow> holds_app pc \<longrightarrow> holds_app pc' \<longrightarrow> t' = t)
    \<and> (pc = S_Lock \<longrightarrow> serving (life y) \<longrightarrow> \<not> closed (life y) \<longrightarrow>
         Serve_step cf p l pc (life y) = (S_Ret (Some ErrAlreadyServing), close_ln l (life y)))
    \<and> (closed (life y) \<longrightarrow> pc \<noteq> S_Serving \<longrightarrow> fst (Serve_step cf p l pc (life y)) \<noteq> S_Serving)"
proof -
  have "t' = t" if "serves y t' = Some (l', pc')" "holds_app pc" "holds_app pc'" for t' l' pc'
    using inv_serve_reach [OF assms(1)] assms(2) that unfolding inv_serve_def by metis
  moreover have "fst (Serve_step cf p l pc (life y)) \<noteq> S_Serving"
    if "closed (life y)" "pc \<noteq> S_Serving"
    using that by (cases pc) (auto split: option.split)
  ultimately show ?thesis by auto
qed

text \<open>
  Once Shutdown has begun its drain the App is never ready again, whatever Serve calls
  are still running or starting; draining implies that the App is closed to new ones.
\<close>

lemma never_ready_again:
  assumes "lreach cf y" "drainOnce (life y)"
  shows "closed (life y) \<and> \<not> ready (life y)
    \<and> (\<forall>t l pc p pc' s'. serves y t = Some (l, pc) \<longrightarrow>
         Serve_step cf p l pc (life y) = (pc', s') \<longrightarrow> \<not> ready s')"
proof -
  have "closed (life y)" "\<not> ready (life y)"
    using inv_ready_reach [OF assms(1)] assms(2) by (auto simp: inv_ready_def)
  then show ?thesis
    using Serve_step_frame(7) by blast
qed







end
