(* ===== verification/Shutdown_Ends.thy ===== *)
theory Shutdown_Ends
  imports Lifecycle
begin

text \<open>
  That a \<open>Shutdown\<close> ends: a bound on its own steps once its ctx is over, against any
  interference of the other calls, and the absence of deadlock while it is not.
\<close>

section \<open>A bound on the steps of one call\<close>

text \<open>The steps a call has at most left, with \<open>n\<close> hooks.\<close>

fun steps_left :: "nat \<Rightarrow> shut_pc \<Rightarrow> nat" where
  "steps_left n D_Lock = n + 13"
| "steps_left n D_Streams = n + 12"
| "steps_left n D_Drain = n + 11"
| "steps_left n D_Wait = n + 10"
| "steps_left n D_Turn = n + 9"
| "steps_left n D_Turn2 = n + 8"
| "steps_left n D_Srv = n + 7"
| "steps_left n D_CloseLn = n + 6"
| "steps_left n D_Srv2 = n + 5"
| "steps_left n (D_Finish _) = n + 4"
| "steps_left n (D_Once _) = n + 3"
| "steps_left n (D_Hook i _ _) = i + 2"
| "steps_left n (D_Release _ _) = 1"
| "steps_left n (D_Ret _) = 0"

lemma Shutdown_step_decreases:
  "Shutdown_step cf p me ln pc s = Some (pc', ln', s') \<Longrightarrow>
     steps_left (nOnShutdown cf) pc' < steps_left (nOnShutdown cf) pc"
  by (cases pc) (auto simp: Let_def split: if_splits nat.splits)

lemma steps_left_0 [simp]: "steps_left n pc = 0 \<longleftrightarrow> (\<exists>r. pc = D_Ret r)"
  by (cases pc) auto

lemma late_never_blocks:
  "late p \<Longrightarrow> steps_left n pc \<noteq> 0 \<Longrightarrow> Shutdown_step cf p me ln pc s \<noteq> None"
  by (cases pc) (auto simp: Let_def drain_over_def split: option.splits nat.splits)

text \<open>
  A call stepped along a list: before each step of its own the other calls may have
  changed the shared state in any way; a blocked call stays where it is.
\<close>

fun own_steps ::
  "lconf \<Rightarrow> nat \<Rightarrow> (pick \<times> (life \<Rightarrow> life)) list \<Rightarrow> shut_pc \<times> nat option \<times> life \<Rightarrow> shut_pc \<times> nat option \<times> life"
where
  "own_steps cf me [] st = st"
| "own_steps cf me ((p, others) # ps) (pc, ln, s) =
     own_steps cf me ps
       (case Shutdown_step cf p me ln pc (others s) of None \<Rightarrow> (pc, ln, others s) | Some st \<Rightarrow> st)"

lemma own_steps_end:
  "list_all (\<lambda>(p, _). late p) ps \<Longrightarrow> steps_left (nOnShutdown cf) pc \<le> length ps \<Longrightarrow>
     \<exists>r. fst (own_steps cf me ps (pc, ln, s)) = D_Ret r"
proof (induction ps arbitrary: pc ln s)
  case (Cons q ps)
  obtain p others where q: "q = (p, others)" by fastforce
  show ?case
  proof (cases "Shutdown_step cf p me ln pc (others s)")
    case None
    then have "steps_left (nOnShutdown cf) pc = 0"
      using late_never_blocks [of p "nOnShutdown cf" pc cf me ln "others s"] Cons.prems(1) q
      by (auto simp del: steps_left_0)
    then have "steps_left (nOnShutdown cf) pc \<le> length ps" by (simp only: le0)
    then show ?thesis
      using Cons.IH [of pc ln "others s"] Cons.prems(1) None q by simp
  next
    case (Some st)
    then obtain pc' ln' s' where st: "st = (pc', ln', s')" by (cases st)
    then have "steps_left (nOnShutdown cf) pc' \<le> length ps"
      using Shutdown_step_decreases [of cf p me ln pc "others s"] Some Cons.prems(2) by force
    then show ?thesis
      using Cons.IH Cons.prems(1) Some st q by simp
  qed
qed auto

section \<open>No deadlock\<close>

text \<open>Whoever the semaphore names is a call that still has the turn and can go on.\<close>

definition inv_sem :: "sys \<Rightarrow> bool" where
  "inv_sem y \<longleftrightarrow> (\<forall>t. sem (life y) = Some t \<longrightarrow> (\<exists>ln pc. shuts y t = Some (ln, pc) \<and> has_turn pc))"

lemma Shutdown_step_sem:
  assumes "Shutdown_step cf p t ln pc s = Some (pc', ln', s')"
  shows "sem s' = (if has_turn pc' then (if has_turn pc then sem s else Some t) else if has_turn pc then None else sem s)"
  using assms by (cases pc) (auto simp: Let_def split: if_splits option.splits nat.splits)

lemma inv_sem_reach: "lreach cf y \<Longrightarrow> inv_sem y"
proof (induction rule: lreach.induct)
  case (l_serve_step y t l pc p pc' s')
  then show ?case using Serve_step_frame(3) [OF l_serve_step.hyps(3)] by (simp add: inv_sem_def)
next
  case (l_shutdown_step y t ln pc p pc' ln' s')
  have turn: "inv_turn y" using l_shutdown_step.hyps(1) by (rule inv_turn_reach)
  note step = Shutdown_step_sem [OF l_shutdown_step.hyps(3)]
  have "has_turn pc \<Longrightarrow> sem (life y) = Some t"
    using turn l_shutdown_step.hyps(2) unfolding inv_turn_def by blast
  then have "u = t \<and> has_turn pc' \<or> u \<noteq> t \<and> sem (life y) = Some u" if "sem s' = Some u" for u
    using that step l_shutdown_step.IH l_shutdown_step.hyps(2) unfolding inv_sem_def
    by (cases "has_turn pc"; cases "has_turn pc'") force+
  then show ?case
    using l_shutdown_step.IH unfolding inv_sem_def by auto
qed (auto simp: inv_sem_def start_sys_def start_life_def)

text \<open>A step at a moment when the drain delay is over.\<close>

definition drained :: "pick \<Rightarrow> life \<Rightarrow> bool" where
  "drained p s = (case drainEnd s of None \<Rightarrow> True | Some e \<Rightarrow> e \<le> p_now p)"

lemma blocked_only_by_turn:
  assumes "Shutdown_step cf p t ln pc s = None" "drained p s" "steps_left n pc \<noteq> 0"
  shows "\<exists>u. sem s = Some u"
  using assms by (cases pc) (auto simp: Let_def drain_over_def drained_def split: if_splits option.splits nat.splits)

lemma turn_never_blocks: "has_turn pc \<Longrightarrow> Shutdown_step cf p t ln pc s \<noteq> None"
  by (cases pc) (auto simp: Let_def split: option.splits nat.splits)

section \<open>Properties\<close>


text \<open>Two calls: the first has the turn and the second waits for it, its ctx still open.\<close>

definition demo_two :: "act list" where
  "demo_two = [A_Shutdown 1, A_Shutdown 2] @ replicate 5 (A_StepShut 1 demo_pick) @ replicate 5 (A_StepShut 2 demo_pick)"


end
