(* ===== verification/Accept.thy ===== *)
theory Accept
  imports Ctx
begin

text \<open>
  Content negotiation, \<open>ctx_accept.go\<close>: the scanner of the Accept header, qvalues, the
  quality of an offer and the choice among offers. Index loops over a byte slice are
  recursions on the bytes left; a panic on a malformed offer is an outcome.
\<close>

section \<open>Bytes\<close>

definition isOWS :: "char \<Rightarrow> bool" where
  "isOWS c \<longleftrightarrow> c = CHR '' '' \<or> c = char_of (9::nat)"

definition trimOWS :: "bytes \<Rightarrow> bytes" where
  "trimOWS b = rev (dropWhile isOWS (rev (dropWhile isOWS b)))"

definition isStar :: "bytes \<Rightarrow> bool" where
  "isStar b \<longleftrightarrow> b = ''*''"

definition fold_ascii :: "char \<Rightarrow> char" where
  "fold_ascii c = (if is_upper c then char_of (byte c + 32) else c)"

definition equalFoldASCII :: "bytes \<Rightarrow> string \<Rightarrow> bool" where
  "equalFoldASCII b s \<longleftrightarrow> length b = length s \<and> list_all2 (\<lambda>x y. fold_ascii x = fold_ascii y) b s"

definition isMediaToken :: "string \<Rightarrow> bool" where
  "isMediaToken s \<longleftrightarrow> s \<noteq> []
     \<and> list_all (\<lambda>c. is_lower c \<or> is_upper c \<or> is_digit c
          \<or> c \<in> set ''!#$%&+-.^_`|~'' \<or> c = char_of (39::nat)) s"

section \<open>Splitting outside quotes\<close>

text \<open>\<open>skip\<close> is what the \<open>i++\<close> of a backslash leaves: the next byte is passed over.\<close>

fun next_item :: "char \<Rightarrow> bool \<Rightarrow> bool \<Rightarrow> bytes \<Rightarrow> bytes \<times> bytes" where
  "next_item sep quoted skip [] = ([], [])"
| "next_item sep quoted skip (c # s) =
     (if skip then apfst ((#) c) (next_item sep quoted False s)
      else if quoted \<and> c = CHR 0x5C then apfst ((#) c) (next_item sep quoted True s)
      else if c = CHR 0x22 then apfst ((#) c) (next_item sep (\<not> quoted) False s)
      else if \<not> quoted \<and> c = sep then ([], s)
      else apfst ((#) c) (next_item sep quoted False s))"

definition nextItem :: "bytes \<Rightarrow> char \<Rightarrow> bytes \<times> bytes" where
  "nextItem s sep = next_item sep False False s"

lemma next_item_le: "length (snd (next_item sep quoted skip s)) \<le> length s"
  by (induction s arbitrary: quoted skip) (auto intro: le_SucI)

lemma next_item_length: "s \<noteq> [] \<Longrightarrow> length (snd (next_item sep quoted skip s)) < length s"
  using next_item_le by (cases s) (auto simp: less_Suc_eq_le)

text \<open>The loops over a header line: its items, until nothing is left.\<close>

function items :: "char \<Rightarrow> bytes \<Rightarrow> bytes list" where
  "items sep s = (if s = [] then [] else let (e, r) = nextItem s sep in e # items sep r)"
  by pat_completeness auto
termination
proof (relation "measure (\<lambda>(_, s). length s)", goal_cases)
  case (2 sep s e r)
  then show ?case
    using next_item_length [of s sep False False] by (simp add: nextItem_def) (metis snd_conv)
qed simp

declare items.simps [simp del]

section \<open>Qvalues\<close>

fun parseFraction_from :: "int \<Rightarrow> int \<Rightarrow> bytes \<Rightarrow> int option" where
  "parseFraction_from q mul [] = Some q"
| "parseFraction_from q mul (c # d) =
     (if is_digit c then parseFraction_from (q + (int (byte c) - 48) * mul) (mul div 10) d else None)"

definition parseFraction :: "bytes \<Rightarrow> int option" where
  "parseFraction d = parseFraction_from 0 100 d"

definition parseQ :: "bytes \<Rightarrow> int option" where
  "parseQ b =
     (if b = [] \<or> length b > 5 then None
      else if hd b = CHR ''.'' then
        (if length b = 1 \<or> length b > 4 then None else parseFraction (tl b))
      else if length b > 1 \<and> b ! 1 \<noteq> CHR ''.'' then None
      else if hd b = CHR ''0'' then parseFraction (drop 2 b)
      else if hd b = CHR ''1'' then
        (if list_all (\<lambda>c. c = CHR ''0'') (drop 2 b) then Some 1000 else None)
      else None)"

section \<open>Matching a range\<close>

text \<open>The loop over the parameters of a range: the last q counts, a bad one voids it.\<close>

fun range_q :: "int \<Rightarrow> bytes list \<Rightarrow> int option" where
  "range_q q [] = Some q"
| "range_q q (p # ps) =
     (case indexByte (CHR ''='') p of
        None \<Rightarrow> range_q q ps
      | Some eq \<Rightarrow>
          if trimOWS (take eq p) = ''q'' \<or> trimOWS (take eq p) = ''Q'' then
            (case parseQ (trimOWS (drop (Suc eq) p)) of None \<Rightarrow> None | Some v \<Rightarrow> range_q v ps)
          else range_q q ps)"

definition range_spec :: "bytes \<Rightarrow> bytes \<Rightarrow> string \<Rightarrow> string \<Rightarrow> nat option" where
  "range_spec rt rs ty sub =
     (if isStar rt \<and> isStar rs then Some 1
      else if isStar rt then None
      else if \<not> equalFoldASCII rt ty then None
      else if isStar rs then Some 2
      else if equalFoldASCII rs sub then Some 3
      else None)"

definition matchRange :: "bytes \<Rightarrow> string \<Rightarrow> string \<Rightarrow> (int \<times> nat) option" where
  "matchRange elem ty sub =
     (let (r0, params) = nextItem elem (CHR '';''); r = trimOWS r0
      in case indexByte (CHR ''/'') r of
           None \<Rightarrow> None
         | Some i \<Rightarrow>
             if i = 0 \<or> i = length r - 1 then None
             else
               (case range_spec (take i r) (drop (Suc i) r) ty sub of
                  None \<Rightarrow> None
                | Some spec \<Rightarrow>
                    (case range_q 1000 (items (CHR '';'') params) of
                       None \<Rightarrow> None
                     | Some q \<Rightarrow> Some (q, spec))))"

section \<open>The quality of an offer\<close>

fun quality_scan :: "string \<Rightarrow> string \<Rightarrow> int \<Rightarrow> nat \<Rightarrow> bytes list \<Rightarrow> int" where
  "quality_scan ty sub q spec [] = q"
| "quality_scan ty sub q spec (elem # es) =
     (case matchRange elem ty sub of
        Some (eq, s) \<Rightarrow>
          if s > spec then (if s = 3 then eq else quality_scan ty sub eq s es)
          else quality_scan ty sub q spec es
      | None \<Rightarrow> quality_scan ty sub q spec es)"

definition accept_elems :: "bytes list \<Rightarrow> bytes list" where
  "accept_elems accepts = concat (map (items (CHR '','')) accepts)"

definition offerQuality :: "bytes list \<Rightarrow> string \<Rightarrow> string \<Rightarrow> int" where
  "offerQuality accepts ty sub = quality_scan ty sub 0 0 (accept_elems accepts)"

section \<open>Choosing an offer\<close>

definition splitOffer :: "string \<Rightarrow> (string \<times> string) res" where
  "splitOffer offer =
     (let mt = trimOWS (case indexByte (CHR '';'') offer of None \<Rightarrow> offer | Some i \<Rightarrow> take i offer);
          (ty, sub) = (case indexByte (CHR ''/'') mt of
                          None \<Rightarrow> ([], []) | Some i \<Rightarrow> (take i mt, drop (Suc i) mt))
      in if ty = ''*'' \<or> sub = ''*'' then
           Panic (PVal (''rice: Accepts offer '' @ [CHR 0x22] @ offer @ [CHR 0x22] @
             '' is a wildcard; offer the media types the handler produces''))
         else if \<not> isMediaToken ty \<or> \<not> isMediaToken sub then
           Panic (PVal (''rice: Accepts offer '' @ [CHR 0x22] @ offer @ [CHR 0x22] @
             '' is not a media type of the form type/subtype''))
         else Ret (ty, sub))"

fun negotiate_loop :: "bytes list \<Rightarrow> bool \<Rightarrow> nat \<Rightarrow> string \<Rightarrow> int \<Rightarrow> string list \<Rightarrow> string res" where
  "negotiate_loop accepts present i best bestQ [] = Ret best"
| "negotiate_loop accepts present i best bestQ (offer # offers) =
     (case splitOffer offer of
        Panic v \<Rightarrow> Panic v
      | Ret (ty, sub) \<Rightarrow>
          if \<not> present then
            negotiate_loop accepts present (Suc i) (if i = 0 then offer else best) bestQ offers
          else if bestQ = 1000 then negotiate_loop accepts present (Suc i) best bestQ offers
          else
            (let q = offerQuality accepts ty sub
             in if q > bestQ then negotiate_loop accepts present (Suc i) offer q offers
                else negotiate_loop accepts present (Suc i) best bestQ offers))"

definition present_in :: "bytes list \<Rightarrow> bool" where
  "present_in accepts \<longleftrightarrow> list_ex (\<lambda>line. trimOWS line \<noteq> []) accepts"

definition negotiate :: "bytes list \<Rightarrow> string list \<Rightarrow> string res" where
  "negotiate accepts offers = negotiate_loop accepts (present_in accepts) 0 [] 0 offers"

section \<open>Accepts\<close>

definition vary_lists_accept :: "bytes list \<Rightarrow> bool" where
  "vary_lists_accept lines \<longleftrightarrow>
     list_ex (\<lambda>tok. isStar (trimOWS tok) \<or> equalFoldASCII (trimOWS tok) ''Accept'') (accept_elems lines)"

definition addVaryAccept :: "('w, 's) fasthttp \<Rightarrow> 'w \<Rightarrow> 'w" where
  "addVaryAccept F w =
     (if vary_lists_accept (f_PeekAllResponse F ''Vary'' w) then w
      else f_AddHeader F ''Vary'' ''Accept'' w)"

definition Accepts ::
  "bool \<Rightarrow> ('w, 's) fasthttp \<Rightarrow> string list \<Rightarrow> (('w, 'x, 'v, 's) Ctx, string) call"
where
  "Accepts dbg F offers =
     then_do (check dbg) (\<lambda>_.
     then_do (ask (f_PeekAll F ''Accept'')) (\<lambda>accepts c.
       case negotiate accepts offers of
         Panic v \<Rightarrow> (Panic v, c)
       | Ret best \<Rightarrow> then_do (tell (addVaryAccept F)) (\<lambda>_ c. (Ret best, c)) c))"

section \<open>Bounds\<close>

lemma digit_value: "is_digit c \<Longrightarrow> 0 \<le> int (byte c) - 48 \<and> int (byte c) - 48 \<le> 9"
  by (auto simp: byte_class)

lemma parseFraction_bounds:
  assumes "parseFraction d = Some q" "length d \<le> 3"
  shows "0 \<le> q \<and> q \<le> 999"
proof -
  consider "d = []" | a where "d = [a]" | a b where "d = [a, b]" | a b c where "d = [a, b, c]"
    using assms(2) by (cases d; cases "tl d"; cases "tl (tl d)"; cases "tl (tl (tl d))") auto
  then show ?thesis
    using assms(1) by cases (auto simp: parseFraction_def split: if_splits dest!: digit_value)
qed

lemma parseQ_bounds:
  assumes "parseQ b = Some q"
  shows "0 \<le> q \<and> q \<le> 1000"
proof -
  have "q = 1000 \<or> (\<exists>d. length d \<le> 3 \<and> parseFraction d = Some q)"
    using assms by (auto simp: parseQ_def split: if_splits)
  then show ?thesis
    using parseFraction_bounds by fastforce
qed

lemma range_q_bounds: "range_q q ps = Some r \<Longrightarrow> 0 \<le> q \<and> q \<le> 1000 \<Longrightarrow> 0 \<le> r \<and> r \<le> 1000"
  by (induction q ps rule: range_q.induct) (auto split: option.splits if_splits dest: parseQ_bounds)

lemma matchRange_bounds:
  assumes "matchRange elem ty sub = Some (q, spec)"
  shows "0 \<le> q \<and> q \<le> 1000" "1 \<le> spec \<and> spec \<le> 3"
  using assms range_q_bounds [of 1000]
  by (auto simp: matchRange_def range_spec_def Let_def split: prod.splits option.splits if_splits)

section \<open>The two scans keep the first maximum\<close>

definition matching_ranges :: "bytes list \<Rightarrow> string \<Rightarrow> string \<Rightarrow> (int \<times> nat) list" where
  "matching_ranges accepts ty sub =
     List.map_filter (\<lambda>e. matchRange e ty sub) (accept_elems accepts)"

lemma quality_scan_max:
  "quality_scan ty sub q spec es = scan_max (q, spec) (List.map_filter (\<lambda>e. matchRange e ty sub) es)"
proof (induction es arbitrary: q spec)
  case (Cons e es)
  have "scan_max (eq, 3) (List.map_filter (\<lambda>e. matchRange e ty sub) es) = eq" for eq :: int
    using matchRange_bounds(2) by (intro scan_max_keep) (auto simp: List.map_filter_def)
  then show ?case
    using Cons.IH by (auto simp: map_filter_simps split: option.split)
qed (simp add: map_filter_simps)

lemma offerQuality_max: "offerQuality accepts ty sub = scan_max (0, 0) (matching_ranges accepts ty sub)"
  by (simp add: offerQuality_def quality_scan_max matching_ranges_def)

lemma matching_ranges_bounds:
  "(q, spec) \<in> set (matching_ranges accepts ty sub) \<Longrightarrow> 0 \<le> q \<and> q \<le> 1000 \<and> 1 \<le> spec \<and> spec \<le> 3"
  using matchRange_bounds by (fastforce simp: matching_ranges_def List.map_filter_def)

lemma offerQuality_bounds: "0 \<le> offerQuality accepts ty sub \<and> offerQuality accepts ty sub \<le> 1000"
proof (cases "\<exists>y\<in>set (matching_ranges accepts ty sub). snd y > 0")
  case True
  then obtain i where "i < length (matching_ranges accepts ty sub)"
    "offerQuality accepts ty sub = fst (matching_ranges accepts ty sub ! i)"
    using scan_max_first [of "matching_ranges accepts ty sub" 0 "0::int"] by (auto simp: offerQuality_max)
  then show ?thesis
    using matching_ranges_bounds by (metis nth_mem prod.collapse)
next
  case False
  then show ?thesis
    by (simp add: offerQuality_max scan_max_keep not_less)
qed

text \<open>The quality of a well-formed offer.\<close>

definition offer_q :: "bytes list \<Rightarrow> string \<Rightarrow> int" where
  "offer_q accepts offer =
     (case splitOffer offer of Ret (ty, sub) \<Rightarrow> offerQuality accepts ty sub | Panic _ \<Rightarrow> 0)"

definition valid_offer :: "string \<Rightarrow> bool" where
  "valid_offer offer \<longleftrightarrow> (\<exists>ts. splitOffer offer = Ret ts)"

lemma offer_q_bounds: "0 \<le> offer_q accepts offer \<and> offer_q accepts offer \<le> 1000"
  using offerQuality_bounds by (auto simp: offer_q_def split: res.split)

lemma negotiate_loop_max:
  assumes "\<forall>offer\<in>set offers. valid_offer offer" "bestQ \<le> 1000"
  shows "negotiate_loop accepts True i best bestQ offers =
    Ret (scan_max (best, bestQ) (map (\<lambda>offer. (offer, offer_q accepts offer)) offers))"
  using assms
proof (induction offers arbitrary: i best bestQ)
  case (Cons offer offers)
  obtain ty sub where split: "splitOffer offer = Ret (ty, sub)"
    using Cons.prems(1) by (auto simp: valid_offer_def)
  then have q: "offer_q accepts offer = offerQuality accepts ty sub" by (simp add: offer_q_def)
  show ?case
    using Cons split q offer_q_bounds [of accepts offer] by (auto simp: Let_def)
qed simp

lemma negotiate_loop_absent:
  assumes "\<forall>offer\<in>set offers. valid_offer offer"
  shows "negotiate_loop accepts False i best bestQ offers =
    Ret (if i = 0 \<and> offers \<noteq> [] then hd offers else best)"
  using assms
  by (induction offers arbitrary: i best) (auto simp: valid_offer_def)

lemma negotiate_loop_panics:
  "(\<exists>v. negotiate_loop accepts present i best bestQ offers = Panic v) \<longleftrightarrow>
     (\<exists>offer\<in>set offers. \<not> valid_offer offer)"
proof (induction offers arbitrary: i best bestQ)
  case (Cons offer offers)
  show ?case
  proof (cases "splitOffer offer")
    case (Ret ts)
    then obtain ty sub where ts: "splitOffer offer = Ret (ty, sub)" by (cases ts) auto
    then have "\<exists>i' best' bestQ'. negotiate_loop accepts present i best bestQ (offer # offers) =
       negotiate_loop accepts present i' best' bestQ' offers"
      by (simp only: negotiate_loop.simps res.case prod.case Let_def split: if_split) blast
    then obtain i' best' bestQ' where
      "negotiate_loop accepts present i best bestQ (offer # offers) =
       negotiate_loop accepts present i' best' bestQ' offers" by blast
    then show ?thesis
      using ts Cons.IH [of i' best' bestQ'] by (simp add: valid_offer_def)
  next
    case (Panic v)
    then show ?thesis by (simp add: valid_offer_def)
  qed
qed simp

section \<open>Properties\<close>

text \<open>
  An offer takes the quality of the most specific range of the Accept lines that
  matches it (type/subtype over type/* over */*), the first such range among equally
  specific ones, and quality 0 when no range matches; it lies between 0 and 1000. The
  early return of the scan changes nothing.
\<close>

lemma offerQuality_most_specific:
  "0 \<le> offerQuality accepts ty sub \<and> offerQuality accepts ty sub \<le> 1000
   \<and> (if matching_ranges accepts ty sub = [] then offerQuality accepts ty sub = 0
      else \<exists>i<length (matching_ranges accepts ty sub).
        offerQuality accepts ty sub = fst (matching_ranges accepts ty sub ! i)
        \<and> (\<forall>j<length (matching_ranges accepts ty sub).
             snd (matching_ranges accepts ty sub ! j) \<le> snd (matching_ranges accepts ty sub ! i))
        \<and> (\<forall>j<i. snd (matching_ranges accepts ty sub ! j) < snd (matching_ranges accepts ty sub ! i)))"
proof (cases "matching_ranges accepts ty sub")
  case Nil
  then show ?thesis by (simp add: offerQuality_max)
next
  case (Cons y ys)
  have "snd y > 0"
    using matching_ranges_bounds [of "fst y" "snd y" accepts ty sub] Cons by simp
  then have "\<exists>z\<in>set (matching_ranges accepts ty sub). snd z > 0"
    using Cons by auto
  then show ?thesis
    using scan_max_first [of "matching_ranges accepts ty sub" 0 "0::int"] offerQuality_bounds [of accepts ty sub] Cons
    unfolding offerQuality_max by auto
qed

text \<open>
  C17: The negotiated offer. With no Accept header the first offer is returned. Otherwise,
  when some offer has a positive quality, it is the first of those with the highest one
  (ties go to the earlier offer), and "" when none is acceptable.
\<close>

theorem negotiate_prefers:
  assumes "\<forall>offer\<in>set offers. valid_offer offer"
  shows "if \<not> present_in accepts then negotiate accepts offers = Ret (if offers = [] then [] else hd offers)
    else if \<forall>offer\<in>set offers. offer_q accepts offer = 0 then negotiate accepts offers = Ret []
    else \<exists>i<length offers. negotiate accepts offers = Ret (offers ! i)
      \<and> 0 < offer_q accepts (offers ! i)
      \<and> (\<forall>j<length offers. offer_q accepts (offers ! j) \<le> offer_q accepts (offers ! i))
      \<and> (\<forall>j<i. offer_q accepts (offers ! j) < offer_q accepts (offers ! i))"
proof -
  let ?xs = "map (\<lambda>offer. (offer, offer_q accepts offer)) offers"
  consider (absent) "\<not> present_in accepts"
    | (none) "present_in accepts" "\<forall>offer\<in>set offers. offer_q accepts offer = 0"
    | (some) "present_in accepts" "\<exists>y\<in>set ?xs. snd y > 0"
    using offer_q_bounds [of accepts] by (fastforce simp: order_le_less)
  then show ?thesis
  proof cases
    case absent
    then show ?thesis using negotiate_loop_absent [OF assms] by (simp add: negotiate_def)
  next
    case none
    then show ?thesis
      using negotiate_loop_max [OF assms, of 0] by (simp add: negotiate_def scan_max_keep)
  next
    case some
    then obtain i where "i < length offers" "scan_max ([], 0) ?xs = offers ! i"
      "\<forall>j<length offers. offer_q accepts (offers ! j) \<le> offer_q accepts (offers ! i)"
      "\<forall>j<i. offer_q accepts (offers ! j) < offer_q accepts (offers ! i)" "0 < offer_q accepts (offers ! i)"
      using scan_max_first [of ?xs "0::int" "[]"] by auto
    then show ?thesis
      using some negotiate_loop_max [OF assms, of 0] by (auto simp: negotiate_def)
  qed
qed

theorem negotiate_prefers_witness:
  "\<exists>i<2. negotiate [''text/html;q=0.5, application/json''] [''text/html'', ''application/json''] =
     Ret ([''text/html'', ''application/json''] ! i)"
proof -
  let ?a = "[''text/html;q=0.5, application/json'']" and ?o = "[''text/html'', ''application/json'']"
  have "splitOffer ''text/html'' = Ret (''text'', ''html'')"
    "splitOffer ''application/json'' = Ret (''application'', ''json'')" by code_simp+
  moreover have "present_in ?a" "offer_q ?a ''text/html'' = 500" by code_simp+
  ultimately show ?thesis
    using negotiate_prefers [of ?o ?a] unfolding numeral_2_eq_2
    by (auto simp: valid_offer_def split: if_splits)
qed

text \<open>
  A malformed or wildcard offer panics on every request, whether or not the request
  sends an Accept header and whatever it holds; well-formed offers never panic.
\<close>

lemma negotiate_panics_iff:
  "(\<exists>v. negotiate accepts offers = Panic v) \<longleftrightarrow> (\<exists>offer\<in>set offers. \<not> valid_offer offer)"
  unfolding negotiate_def by (rule negotiate_loop_panics)

text \<open>
  \<open>Accepts\<close> leaves \<open>Accept\<close> (or a star) listed in Vary exactly once however often it is
  called: adding it again changes nothing, and what other code wrote to Vary survives.
  \<open>add\<close> is what fasthttp documents of adding a header line.
\<close>

lemma addVaryAccept_idempotent:
  assumes add: "\<And>w. f_PeekAllResponse F ''Vary'' (f_AddHeader F ''Vary'' ''Accept'' w) =
      f_PeekAllResponse F ''Vary'' w @ [''Accept'']"
  shows "vary_lists_accept (f_PeekAllResponse F ''Vary'' (addVaryAccept F w))
    \<and> addVaryAccept F (addVaryAccept F w) = addVaryAccept F w
    \<and> (\<exists>more. f_PeekAllResponse F ''Vary'' (addVaryAccept F w) = f_PeekAllResponse F ''Vary'' w @ more)"
proof -
  have "vary_lists_accept [''Accept'']" by code_simp
  then have "vary_lists_accept (lines @ [''Accept''])" for lines
    by (auto simp: vary_lists_accept_def accept_elems_def list_ex_iff)
  then show ?thesis
    by (auto simp: addVaryAccept_def add)
qed

end
