(* ===== verification/Auth.thy ===== *)
theory Auth
  imports Accept
begin

text \<open>
  The authentication middleware: \<open>middleware/auth.go\<close>, \<open>basicauth.go\<close> and
  \<open>keyauth.go\<close>. \<open>trimOWS\<close> and \<open>equalFoldASCII\<close> are the functions of \<open>ctx_accept.go\<close>,
  which \<open>auth.go\<close> repeats word for word. The application's \<open>Validate\<close> is a parameter
  that may panic. Go's \<open>base64.StdEncoding\<close> decoder is modelled with what it skips and
  refuses; an encoder after RFC 4648 is its specification.
\<close>

section \<open>Shared helpers\<close>

definition errUnauthorized :: go_error where
  "errUnauthorized = HTTPError 401 ''Unauthorized'' None"

definition unauthorized ::
  "bool \<Rightarrow> ('w, 's) fasthttp \<Rightarrow> string \<Rightarrow> (('w, 'x, 'v, 's) Ctx, go_error option) call"
where
  "unauthorized dbg F challenge =
     (if challenge \<noteq> []
      then then_do (SetHeader dbg F ''WWW-Authenticate'' challenge) (\<lambda>_ c. (Ret (Some errUnauthorized), c))
      else (\<lambda>c. (Ret (Some errUnauthorized), c)))"

definition cutScheme :: "bytes \<Rightarrow> string \<Rightarrow> bytes option" where
  "cutScheme v scheme =
     (let n = length scheme
      in if length v \<le> n \<or> v ! n \<noteq> CHR '' '' \<or> \<not> equalFoldASCII (take n v) scheme then None
         else Some (dropWhile (\<lambda>c. c = CHR '' '') (drop n v)))"

definition isToken :: "string \<Rightarrow> bool" where
  "isToken s \<longleftrightarrow> s \<noteq> []
     \<and> list_all (\<lambda>c. is_lower c \<or> is_upper c \<or> is_digit c
          \<or> c \<in> set ''!#$%&*+-.^_`|~'' \<or> c = char_of (39::nat)) s"

definition validRealm :: "string \<Rightarrow> bool" where
  "validRealm r \<longleftrightarrow> list_all (\<lambda>c. \<not> (c = CHR 0x22 \<or> c = CHR 0x5C \<or> byte c < 0x20 \<or> byte c = 0x7f)) r"

section \<open>Base64\<close>

definition alphabet :: string where
  "alphabet = ''ABCDEFGHIJKLMNOPQRSTUVWXYZabcdefghijklmnopqrstuvwxyz0123456789+/''"

text \<open>The decoder's table is made from the alphabet: a letter stands for its position.\<close>

definition sextet :: "char \<Rightarrow> nat option" where
  "sextet c = indexByte c alphabet"

definition pad :: char where
  "pad = CHR ''=''"

text \<open>
  Four characters at a time. A group with padding is the last one; the bits a padded
  group does not use are not looked at, since the encoding is not strict.
\<close>

fun decode_quanta :: "bytes \<Rightarrow> bytes option" where
  "decode_quanta [] = Some []"
| "decode_quanta (a # b # c # d # r) =
     (case (sextet a, sextet b) of
        (Some x, Some y) \<Rightarrow>
          if c = pad then
            (if d = pad \<and> r = [] then Some [char_of (x * 4 + y div 16)] else None)
          else
            (case sextet c of
               None \<Rightarrow> None
             | Some z \<Rightarrow>
                 if d = pad then
                   (if r = [] then Some [char_of (x * 4 + y div 16), char_of (y mod 16 * 16 + z div 4)] else None)
                 else
                   (case (sextet d, decode_quanta r) of
                      (Some w, Some bs) \<Rightarrow>
                        Some (char_of (x * 4 + y div 16) # char_of (y mod 16 * 16 + z div 4)
                              # char_of (z mod 4 * 64 + w) # bs)
                    | _ \<Rightarrow> None))
      | _ \<Rightarrow> None)"
| "decode_quanta _ = None"

text \<open>Line breaks anywhere in the input are skipped.\<close>

definition base64_Decode :: "bytes \<Rightarrow> bytes option" where
  "base64_Decode s = decode_quanta (filter (\<lambda>c. c \<noteq> CHR 0x0A \<and> c \<noteq> CHR 0x0D) s)"

text \<open>The encoder of RFC 4648, section 4.\<close>

definition letter :: "nat \<Rightarrow> char" where
  "letter n = alphabet ! n"

fun base64_Encode :: "bytes \<Rightarrow> bytes" where
  "base64_Encode [] = []"
| "base64_Encode [a] = [letter (byte a div 4), letter (byte a mod 4 * 16), pad, pad]"
| "base64_Encode [a, b] =
     [letter (byte a div 4), letter (byte a mod 4 * 16 + byte b div 16), letter (byte b mod 16 * 4), pad]"
| "base64_Encode (a # b # c # r) =
     letter (byte a div 4) # letter (byte a mod 4 * 16 + byte b div 16)
     # letter (byte b mod 16 * 4 + byte c div 64) # letter (byte c mod 64) # base64_Encode r"

lemma indexByte_nth: "distinct xs \<Longrightarrow> n < length xs \<Longrightarrow> indexByte (xs ! n) xs = Some n"
  by (induction xs arbitrary: n) (auto simp: nth_Cons split: nat.split)

lemma alphabet_facts:
  "distinct alphabet" "length alphabet = 64" "pad \<notin> set alphabet"
  "list_all (\<lambda>c. c \<noteq> CHR 0x0A \<and> c \<noteq> CHR 0x0D \<and> \<not> isOWS c) alphabet"
  by (simp_all add: alphabet_def pad_def isOWS_def char_of_def)

lemma letter_facts:
  assumes "n < 64"
  shows "sextet (letter n) = Some n" "letter n \<noteq> pad" "letter n \<noteq> CHR 0x0A" "letter n \<noteq> CHR 0x0D"
    "\<not> isOWS (letter n)"
proof -
  have n: "letter n \<in> set alphabet"
    using assms alphabet_facts(2) by (simp add: letter_def)
  show "sextet (letter n) = Some n"
    using assms alphabet_facts(1,2) by (simp add: sextet_def letter_def indexByte_nth)
  show "letter n \<noteq> pad" using n alphabet_facts(3) by auto
  show "letter n \<noteq> CHR 0x0A" "letter n \<noteq> CHR 0x0D" "\<not> isOWS (letter n)"
    using n alphabet_facts(4) by (auto simp: list_all_iff)
qed

lemma byte_groups:
  "byte a div 4 < 64" "byte a mod 4 * 16 < 64" "byte a mod 4 * 16 + byte b div 16 < 64"
  "byte b mod 16 * 4 < 64" "byte b mod 16 * 4 + byte c div 64 < 64" "byte c mod 64 < 64"
  using byte_less_256 [of a] byte_less_256 [of b] byte_less_256 [of c] by linarith+

lemmas letters = letter_facts [OF byte_groups(1)] letter_facts [OF byte_groups(2)]
  letter_facts [OF byte_groups(3)] letter_facts [OF byte_groups(4)] letter_facts [OF byte_groups(5)]
  letter_facts [OF byte_groups(6)]

lemma char_of_byte [simp]: "char_of (byte c) = c"
  by (simp add: byte_def)

lemma byte_high_bits:
  "byte b div 16 div 16 = 0" "byte b div 16 mod 16 = byte b div 16"
  "byte c div 64 div 4 = 0" "byte c div 64 mod 4 = byte c div 64"
proof -
  have "byte b div 16 < 16" "byte c div 64 < 4"
    using byte_less_256 [of b] byte_less_256 [of c] by linarith+
  then show "byte b div 16 div 16 = 0" "byte b div 16 mod 16 = byte b div 16"
    "byte c div 64 div 4 = 0" "byte c div 64 mod 4 = byte c div 64"
    by simp_all
qed

lemma decode_encode_quanta: "decode_quanta (base64_Encode s) = Some s"
  by (induction s rule: base64_Encode.induct)
    (simp_all add: letters byte_high_bits)

lemma encode_no_break:
  "filter (\<lambda>c. c \<noteq> CHR 0x0A \<and> c \<noteq> CHR 0x0D) (base64_Encode s) = base64_Encode s"
  by (induction s rule: base64_Encode.induct) (simp_all add: letters pad_def)

lemma base64_roundtrip: "base64_Decode (base64_Encode s) = Some s"
  by (simp add: base64_Decode_def encode_no_break decode_encode_quanta)

section \<open>BasicAuth\<close>

text \<open>
  \<open>Validate\<close> gets the request's context and the credentials and returns the identity,
  whether they are good, and an error of the check itself; \<open>None\<close> is a nil function.
\<close>

record ('x, 'v) BasicAuthConfig =
  ba_Key :: Key
  ba_Validate :: "('x \<Rightarrow> string \<Rightarrow> string \<Rightarrow> ('v option \<times> bool \<times> go_error option) res) option"
  ba_Realm :: string

text \<open>What follows the call of \<open>Validate\<close>, the same lines in both middleware.\<close>

definition judge ::
  "bool \<Rightarrow> ('w, 's) fasthttp \<Rightarrow> string \<Rightarrow> Key \<Rightarrow> (('w, 'x, 'v, 's) Ctx, go_error option) call \<Rightarrow>
   'v option \<times> bool \<times> go_error option \<Rightarrow> (('w, 'x, 'v, 's) Ctx, go_error option) call"
where
  "judge dbg F challenge key next verdict =
     (case verdict of
        (ident, ok, err) \<Rightarrow>
          (case err of
             Some e \<Rightarrow> (\<lambda>c. (Ret (Some e), c))
           | None \<Rightarrow>
               if \<not> ok then unauthorized dbg F challenge
               else then_do (Key_Set dbg key ident) (\<lambda>_. next)))"

definition BasicAuth_handler ::
  "bool \<Rightarrow> ('w, 's) fasthttp \<Rightarrow> 'x \<Rightarrow>
   ('x \<Rightarrow> string \<Rightarrow> string \<Rightarrow> ('v option \<times> bool \<times> go_error option) res) \<Rightarrow> Key \<Rightarrow> string \<Rightarrow>
   (('w, 'x, 'v, 's) Ctx, go_error option) call \<Rightarrow> (('w, 'x, 'v, 's) Ctx, go_error option) call"
where
  "BasicAuth_handler dbg F base validate key challenge next =
     then_do (Header dbg F ''Authorization'') (\<lambda>v.
       case cutScheme v ''Basic'' of
         None \<Rightarrow> unauthorized dbg F challenge
       | Some enc \<Rightarrow>
           (case base64_Decode (trimOWS enc) of
              None \<Rightarrow> unauthorized dbg F challenge
            | Some creds \<Rightarrow>
                (case indexByte (CHR '':'') creds of
                   None \<Rightarrow> unauthorized dbg F challenge
                 | Some i \<Rightarrow>
                     then_do (Context dbg base) (\<lambda>x.
                     then_do (\<lambda>c. (validate x (take i creds) (drop (Suc i) creds), c))
                       (judge dbg F challenge key next)))))"

definition basic_realm :: "string \<Rightarrow> string" where
  "basic_realm r = (if r = [] then ''Restricted'' else r)"

definition basic_challenge :: "string \<Rightarrow> string" where
  "basic_challenge realm = ''Basic realm='' @ CHR 0x22 # realm @ CHR 0x22 # '', charset='' @ CHR 0x22 # ''UTF-8'' @ [CHR 0x22]"

definition BasicAuth ::
  "bool \<Rightarrow> ('w, 's) fasthttp \<Rightarrow> 'x \<Rightarrow> ('x, 'v) BasicAuthConfig \<Rightarrow>
   ((('w, 'x, 'v, 's) Ctx, go_error option) call \<Rightarrow> (('w, 'x, 'v, 's) Ctx, go_error option) call) res"
where
  "BasicAuth dbg F base cfg =
     (case ba_Validate cfg of
        None \<Rightarrow> Panic (PVal ''rice: middleware.BasicAuth: Validate is nil'')
      | Some validate \<Rightarrow>
          if k_id (ba_Key cfg) = None
          then Panic (PVal ''rice: middleware.BasicAuth: Key is the zero Key; make one with rice.NewKey'')
          else if \<not> validRealm (basic_realm (ba_Realm cfg))
          then Panic (PVal ''rice: middleware.BasicAuth: Realm may not contain a quote, a backslash or a control byte'')
          else Ret (BasicAuth_handler dbg F base validate (ba_Key cfg) (basic_challenge (basic_realm (ba_Realm cfg)))))"

section \<open>KeyAuth\<close>

record ('x, 'v) KeyAuthConfig =
  ka_Key :: Key
  ka_Validate :: "('x \<Rightarrow> string \<Rightarrow> ('v option \<times> bool \<times> go_error option) res) option"
  ka_Header :: string

definition KeyAuth_handler ::
  "bool \<Rightarrow> ('w, 's) fasthttp \<Rightarrow> 'x \<Rightarrow>
   ('x \<Rightarrow> string \<Rightarrow> ('v option \<times> bool \<times> go_error option) res) \<Rightarrow> Key \<Rightarrow> bool \<Rightarrow> string \<Rightarrow> string \<Rightarrow>
   (('w, 'x, 'v, 's) Ctx, go_error option) call \<Rightarrow> (('w, 'x, 'v, 's) Ctx, go_error option) call"
where
  "KeyAuth_handler dbg F base validate key bearer header challenge next =
     then_do (Header dbg F header) (\<lambda>v0.
       case (if bearer then cutScheme v0 ''Bearer'' else Some v0) of
         None \<Rightarrow> unauthorized dbg F challenge
       | Some v1 \<Rightarrow>
           let v = trimOWS v1
           in if v = [] then unauthorized dbg F challenge
              else
                then_do (Context dbg base) (\<lambda>x.
                then_do (\<lambda>c. (validate x v, c)) (judge dbg F challenge key next)))"

definition KeyAuth ::
  "bool \<Rightarrow> ('w, 's) fasthttp \<Rightarrow> 'x \<Rightarrow> ('x, 'v) KeyAuthConfig \<Rightarrow>
   ((('w, 'x, 'v, 's) Ctx, go_error option) call \<Rightarrow> (('w, 'x, 'v, 's) Ctx, go_error option) call) res"
where
  "KeyAuth dbg F base cfg =
     (case ka_Validate cfg of
        None \<Rightarrow> Panic (PVal ''rice: middleware.KeyAuth: Validate is nil'')
      | Some validate \<Rightarrow>
          if k_id (ka_Key cfg) = None
          then Panic (PVal ''rice: middleware.KeyAuth: Key is the zero Key; make one with rice.NewKey'')
          else if ka_Header cfg \<noteq> [] \<and> \<not> isToken (ka_Header cfg)
          then Panic (PVal (''rice: middleware.KeyAuth: Header '' @ ka_Header cfg @ '' is not a valid header name''))
          else if equalFoldASCII (ka_Header cfg) ''Authorization''
          then Panic (PVal (''rice: middleware.KeyAuth: Header '' @ CHR 0x22 # ''Authorization'' @ CHR 0x22
                 # '' would hand Validate the scheme too; use '' @ CHR 0x22 # CHR 0x22 # '' for Authorization: Bearer <key>''))
          else
            let bearer = (ka_Header cfg = [])
            in Ret (KeyAuth_handler dbg F base validate (ka_Key cfg) bearer
                 (if bearer then ''Authorization'' else ka_Header cfg) (if bearer then ''Bearer'' else [])))"

section \<open>The contract of a gate\<close>

text \<open>
  A gate in front of a chain: \<open>identity\<close> is what it establishes of a request, \<open>slot\<close> where
  it leaves it, \<open>refusal\<close> what it answers by itself. A request it does not vouch for is
  answered without the chain and never with success.
\<close>

locale credential_gate =
  fixes gate :: "(('w, 'x, 'v, 's) Ctx, go_error option) call \<Rightarrow> (('w, 'x, 'v, 's) Ctx, go_error option) call"
    and identity :: "('w, 'x, 'v, 's) Ctx \<Rightarrow> 'v option option"
    and slot :: nat
    and refusal :: "(('w, 'x, 'v, 's) Ctx, go_error option) call"
  assumes pass: "bound c \<Longrightarrow> identity c = Some v \<Longrightarrow> gate next c = next (ctx_set slot v c)"
    and refuse: "bound c \<Longrightarrow> identity c = None \<Longrightarrow> gate next c = refusal c"
    and refusal_fails: "bound c \<Longrightarrow> identity c = None \<Longrightarrow> fst (refusal c) \<noteq> Ret None"
    and refusal_behaves: "bound c \<Longrightarrow> bound (snd (refusal c)) \<and> (handled c \<longrightarrow> handled (snd (refusal c)))"
begin

text \<open>
  The chain is reached, or success answered, only for a request the gate vouches for, and
  then the chain answers, on the Ctx where the identity reads back.
\<close>

lemma vouched:
  assumes "bound c" "gate next c \<noteq> gate next' c \<or> fst (gate next c) = Ret None"
  obtains v where "identity c = Some v" "gate next c = next (ctx_set slot v c)"
    "ctx_get slot (ctx_set slot v c) = (v, True)"
proof (cases "identity c")
  case None
  then show ?thesis
    using assms refuse [OF assms(1) None] refusal_fails [OF assms(1) None] by metis
next
  case (Some v)
  then show ?thesis
    using assms(1) pass [OF assms(1) Some] ctx_set_get [of c] that
    by (simp add: bound_def clean_Ctx_def)
qed

lemma gate_behaves:
  assumes "well_behaved next"
  shows "well_behaved (gate next)"
proof -
  have "handled (ctx_set slot v c) = handled c" for v and c :: "('w, 'x, 'v, 's) Ctx"
    by (simp add: ctx_set_def store_append_def split: option.split)
  then have "bound (snd (gate next c)) \<and> (handled c \<longrightarrow> handled (snd (gate next c)))" if "bound c" for c
    using assms that pass refuse refusal_behaves bound_ctx_set [OF that]
    by (cases "identity c") (auto simp: well_behaved_def)
  then show ?thesis by (simp add: well_behaved_def)
qed

end

text \<open>What each of the two establishes: the verdict on the credentials the request carries.\<close>

definition accepted :: "('v option \<times> bool \<times> go_error option) res \<Rightarrow> 'v option option" where
  "accepted r = (case r of Ret (ident, True, None) \<Rightarrow> Some ident | _ \<Rightarrow> None)"

definition basic_credentials :: "bytes \<Rightarrow> (string \<times> string) option" where
  "basic_credentials v =
     Option.bind (cutScheme v ''Basic'') (\<lambda>enc.
     Option.bind (base64_Decode (trimOWS enc)) (\<lambda>creds.
       map_option (\<lambda>i. (take i creds, drop (Suc i) creds)) (indexByte (CHR '':'') creds)))"

definition basic_identity ::
  "('w, 's) fasthttp \<Rightarrow> 'x \<Rightarrow> ('x \<Rightarrow> string \<Rightarrow> string \<Rightarrow> ('v option \<times> bool \<times> go_error option) res) \<Rightarrow>
   ('w, 'x, 'v, 's) Ctx \<Rightarrow> 'v option option"
where
  "basic_identity F base validate c =
     (case basic_credentials (f_Header F ''Authorization'' (req c)) of
        None \<Rightarrow> None
      | Some (u, p) \<Rightarrow> accepted (validate (cur_ctx base c) u p))"

definition key_credentials :: "bool \<Rightarrow> bytes \<Rightarrow> string option" where
  "key_credentials bearer v0 =
     Option.bind (if bearer then cutScheme v0 ''Bearer'' else Some v0)
       (\<lambda>v. if trimOWS v = [] then None else Some (trimOWS v))"

definition key_identity ::
  "('w, 's) fasthttp \<Rightarrow> 'x \<Rightarrow> ('x \<Rightarrow> string \<Rightarrow> ('v option \<times> bool \<times> go_error option) res) \<Rightarrow>
   bool \<Rightarrow> string \<Rightarrow> ('w, 'x, 'v, 's) Ctx \<Rightarrow> 'v option option"
where
  "key_identity F base validate bearer header c =
     (case key_credentials bearer (f_Header F header (req c)) of
        None \<Rightarrow> None
      | Some k \<Rightarrow> accepted (validate (cur_ctx base c) k))"

lemma unauthorized_bound [bound_calls]:
  "bound c \<Longrightarrow> unauthorized dbg F challenge c =
     (Ret (Some errUnauthorized), if challenge = [] then c else on_req (f_SetHeader F ''WWW-Authenticate'' challenge) c)"
  by (simp add: unauthorized_def bound_calls)

lemma unauthorized_outcome:
  assumes "bound c"
  shows "fst (unauthorized dbg F challenge c) \<noteq> Ret None" "bound (snd (unauthorized dbg F challenge c))"
    "handled (snd (unauthorized dbg F challenge c)) = handled c"
  using assms by (simp_all add: bound_calls)

text \<open>Both handlers, evaluated: what they do once the credentials are known.\<close>

definition decide ::
  "bool \<Rightarrow> ('w, 's) fasthttp \<Rightarrow> string \<Rightarrow> nat \<Rightarrow> (('w, 'x, 'v, 's) Ctx, go_error option) call \<Rightarrow>
   ('v option \<times> bool \<times> go_error option) res option \<Rightarrow> (('w, 'x, 'v, 's) Ctx, go_error option) call"
where
  "decide dbg F challenge slot next verdict c =
     (case verdict of
        None \<Rightarrow> unauthorized dbg F challenge c
      | Some (Panic v) \<Rightarrow> (Panic v, c)
      | Some (Ret (ident, ok, Some e)) \<Rightarrow> (Ret (Some e), c)
      | Some (Ret (ident, ok, None)) \<Rightarrow>
          if ok then next (ctx_set slot ident c) else unauthorized dbg F challenge c)"

lemma judged:
  assumes c: "bound c"
  shows "then_do (Context dbg base) (\<lambda>x. then_do (\<lambda>c. (validate x, c))
       (judge dbg F challenge \<lparr>k_id = Some slot, k_name = nm\<rparr> next)) c
     = decide dbg F challenge slot next (Some (validate (cur_ctx base c))) c"
  using c by (auto simp: decide_def judge_def bound_calls split: res.split option.split)

lemma BasicAuth_eval:
  assumes c: "bound c"
  shows "BasicAuth_handler dbg F base validate \<lparr>k_id = Some slot, k_name = nm\<rparr> challenge next c =
     decide dbg F challenge slot next
       (map_option (\<lambda>(u, p). validate (cur_ctx base c) u p)
          (basic_credentials (f_Header F ''Authorization'' (req c)))) c"
proof -
  let ?v = "f_Header F ''Authorization'' (req c)"
  have "decide dbg F challenge slot next None c = unauthorized dbg F challenge c"
    by (simp add: decide_def)
  then show ?thesis
    using c judged [OF c]
    by (cases "cutScheme ?v ''Basic''"; cases "base64_Decode (trimOWS (the (cutScheme ?v ''Basic'')))";
        cases "indexByte (CHR '':'') (the (base64_Decode (trimOWS (the (cutScheme ?v ''Basic'')))))")
      (simp_all add: BasicAuth_handler_def basic_credentials_def bound_calls del: indexByte_None)
qed

lemma KeyAuth_eval:
  assumes c: "bound c"
  shows "KeyAuth_handler dbg F base validate \<lparr>k_id = Some slot, k_name = nm\<rparr> bearer header challenge next c =
     decide dbg F challenge slot next
       (map_option (validate (cur_ctx base c)) (key_credentials bearer (f_Header F header (req c)))) c"
proof -
  let ?v = "if bearer then cutScheme (f_Header F header (req c)) ''Bearer'' else Some (f_Header F header (req c))"
  have "decide dbg F challenge slot next None c = unauthorized dbg F challenge c"
    by (simp add: decide_def)
  then show ?thesis
    using c judged [OF c]
    by (cases ?v; cases "trimOWS (the ?v) = []")
      (simp_all add: KeyAuth_handler_def key_credentials_def bound_calls Let_def)
qed

lemma decide_gate:
  fixes c :: "('w, 'x, 'v, 's) Ctx"
  assumes c: "bound c" and r: "identity = Option.bind verdict accepted"
  shows "identity = Some v \<Longrightarrow> decide dbg F challenge slot next verdict c = next (ctx_set slot v c)"
    "identity = None \<Longrightarrow> decide dbg F challenge slot next verdict c = decide dbg F challenge slot next' verdict c"
    "identity = None \<Longrightarrow> fst (decide dbg F challenge slot next verdict c) \<noteq> Ret None"
  using unauthorized_outcome [OF c, of dbg F challenge] unfolding r
  by (auto simp: decide_def accepted_def split: option.splits res.splits prod.splits bool.splits if_splits)

lemma decide_behaves:
  assumes "bound c" "well_behaved next"
  shows "bound (snd (decide dbg F challenge slot next verdict c))
     \<and> (handled c \<longrightarrow> handled (snd (decide dbg F challenge slot next verdict c)))"
proof -
  have "handled (ctx_set slot v c) = handled c" for v
    by (simp add: ctx_set_def store_append_def split: option.split)
  then show ?thesis
    using assms unauthorized_outcome [OF assms(1), of dbg F challenge] bound_ctx_set [OF assms(1)]
    by (auto simp: decide_def well_behaved_def split: option.splits res.splits)
qed

definition stop_here :: "(('w, 'x, 'v, 's) Ctx, go_error option) call" where
  "stop_here c = (Ret (Some (Plain [])), c)"

lemma wb_stop_here [api]: "well_behaved stop_here"
  by (simp add: well_behaved_def stop_here_def)

lemma identities:
  "basic_identity F base validate c =
     Option.bind (map_option (\<lambda>(u, p). validate (cur_ctx base c) u p)
       (basic_credentials (f_Header F ''Authorization'' (req c)))) accepted"
  "key_identity F base kvalidate bearer header c =
     Option.bind (map_option (kvalidate (cur_ctx base c)) (key_credentials bearer (f_Header F header (req c)))) accepted"
  by (auto simp: basic_identity_def key_identity_def split: option.split)

lemma gate_of_decide:
  fixes gate :: "(('w, 'x, 'v, 's) Ctx, go_error option) call \<Rightarrow> (('w, 'x, 'v, 's) Ctx, go_error option) call"
  assumes gate: "\<And>c next. bound c \<Longrightarrow> gate next c = decide dbg F challenge slot next (verdict c) c"
    and ident: "\<And>c. identity c = Option.bind (verdict c) accepted"
  shows "credential_gate gate identity slot (gate stop_here)"
proof
  fix c :: "('w, 'x, 'v, 's) Ctx" and v "next"
  assume c: "bound c"
  show "identity c = Some v \<Longrightarrow> gate next c = next (ctx_set slot v c)"
    unfolding gate [OF c] ident by (rule decide_gate(1) [OF c refl])
  show "identity c = None \<Longrightarrow> gate next c = gate stop_here c"
    unfolding gate [OF c] ident by (rule decide_gate(2) [OF c refl])
  show "identity c = None \<Longrightarrow> fst (gate stop_here c) \<noteq> Ret None"
    unfolding gate [OF c] ident by (rule decide_gate(3) [OF c refl])
  show "bound (snd (gate stop_here c)) \<and> (handled c \<longrightarrow> handled (snd (gate stop_here c)))"
    unfolding gate [OF c] by (rule decide_behaves [OF c wb_stop_here])
qed

interpretation ba: credential_gate
  "BasicAuth_handler dbg F base validate \<lparr>k_id = Some slot, k_name = nm\<rparr> challenge"
  "basic_identity F base validate" slot
  "BasicAuth_handler dbg F base validate \<lparr>k_id = Some slot, k_name = nm\<rparr> challenge stop_here"
  for dbg F base validate slot nm challenge
  by (rule gate_of_decide [OF BasicAuth_eval identities(1)])

interpretation ka: credential_gate
  "KeyAuth_handler dbg F base validate \<lparr>k_id = Some slot, k_name = nm\<rparr> bearer header challenge"
  "key_identity F base validate bearer header" slot
  "KeyAuth_handler dbg F base validate \<lparr>k_id = Some slot, k_name = nm\<rparr> bearer header challenge stop_here"
  for dbg F base validate slot nm bearer header challenge
  by (rule gate_of_decide [OF KeyAuth_eval identities(2)])

section \<open>Credentials a client sends\<close>

lemma encode_no_OWS: "list_all (\<lambda>c. \<not> isOWS c) (base64_Encode s)"
proof -
  have "\<not> isOWS pad" by code_simp
  then show ?thesis
    by (induction s rule: base64_Encode.induct) (simp_all add: letters)
qed

lemma encode_empty [simp]: "base64_Encode s = [] \<longleftrightarrow> s = []"
  by (cases s rule: base64_Encode.cases) simp_all

lemma trimOWS_tail:
  assumes "list_all (\<lambda>c. \<not> isOWS c) s" "list_all isOWS t"
  shows "trimOWS (s @ t) = s"
proof (cases "s = []")
  case True
  then show ?thesis
    using assms(2) by (simp add: trimOWS_def list_all_iff dropWhile_eq_Nil_conv [THEN iffD2])
next
  case False
  have "dropWhile isOWS (s @ t) = s @ t"
    using False assms(1) by (cases s) auto
  moreover have "dropWhile isOWS (rev t @ rev s) = rev s"
    using False assms by (cases s rule: rev_cases) (auto simp: list_all_iff dropWhile_append)
  ultimately show ?thesis by (simp add: trimOWS_def)
qed

lemma indexByte_append: "c \<notin> set u \<Longrightarrow> indexByte c (u @ c # p) = Some (length u)"
  by (induction u) auto

lemma cutScheme_spaces:
  assumes "equalFoldASCII name scheme" "enc = [] \<or> hd enc \<noteq> CHR '' ''"
  shows "cutScheme (name @ replicate (Suc n) (CHR '' '') @ enc) scheme = Some enc"
proof -
  have len: "length name = length scheme" using assms(1) by (simp add: equalFoldASCII_def)
  have "dropWhile (\<lambda>c. c = CHR '' '') enc = enc" using assms(2) by (cases enc) auto
  then show ?thesis
    using assms(1) len by (simp add: cutScheme_def Let_def nth_append dropWhile_append)
qed

lemma basic_credentials_sent:
  assumes "equalFoldASCII scheme ''Basic''" "CHR '':'' \<notin> set user" "list_all isOWS tail"
  shows "basic_credentials (scheme @ replicate (Suc n) (CHR '' '') @ base64_Encode (user @ CHR '':'' # pw) @ tail)
     = Some (user, pw)"
proof -
  let ?e = "base64_Encode (user @ CHR '':'' # pw)"
  have ows: "list_all (\<lambda>c. \<not> isOWS c) ?e" by (rule encode_no_OWS)
  then have "hd (?e @ tail) \<noteq> CHR '' ''"
    by (cases ?e) (auto simp: isOWS_def dest: arg_cong [of ?e "[]" "\<lambda>x. x = []"])
  then have "cutScheme (scheme @ replicate (Suc n) (CHR '' '') @ ?e @ tail) ''Basic'' = Some (?e @ tail)"
    using assms(1) by (intro cutScheme_spaces) auto
  then show ?thesis
    using trimOWS_tail [OF ows assms(3)] base64_roundtrip [of "user @ CHR '':'' # pw"] indexByte_append [OF assms(2)]
    by (simp add: basic_credentials_def del: replicate.simps)
qed

section \<open>Properties\<close>

text \<open>
  C30: BasicAuth hands Validate exactly the user and the password the client encoded, with
  the request's context, whatever the case of the scheme, the number of spaces after it
  and blanks at the end; passwords may hold colons. On acceptance the chain runs with the
  identity stored; an error or a panic of Validate is passed on whatever its verdict; a
  rejection is 401 with the challenge.
\<close>

theorem BasicAuth_roundtrip:
  assumes "bound c" "equalFoldASCII scheme ''Basic''" "CHR '':'' \<notin> set user" "list_all isOWS tail"
    and "f_Header F ''Authorization'' (req c) =
      scheme @ replicate (Suc n) (CHR '' '') @ base64_Encode (user @ CHR '':'' # pw) @ tail"
  shows "BasicAuth_handler dbg F base validate \<lparr>k_id = Some slot, k_name = nm\<rparr> challenge next c =
    (case validate (cur_ctx base c) user pw of
       Panic v \<Rightarrow> (Panic v, c)
     | Ret (ident, ok, err) \<Rightarrow>
         if err \<noteq> None then (Ret err, c)
         else if ok then next (ctx_set slot ident c)
         else unauthorized dbg F challenge c)"
  using BasicAuth_eval [OF assms(1)] basic_credentials_sent [OF assms(2-4), of n pw] assms(5)
  by (auto simp: decide_def split: res.split option.split)

definition auth_wire :: "string \<Rightarrow> (nat wire, unit, nat, nat) Ctx" where
  "auth_wire v = (newCtx 0)\<lparr>fctx := Some (get_wire\<lparr>wi_ctype := v\<rparr>), has_app := True\<rparr>"

definition auth_http :: "(nat wire, nat) fasthttp" where
  "auth_http = wire_http\<lparr>f_Header := (\<lambda>k w. if k = ''Authorization'' then wi_ctype w else [])\<rparr>"

definition demo_validate :: "unit \<Rightarrow> string \<Rightarrow> string \<Rightarrow> (nat option \<times> bool \<times> go_error option) res" where
  "demo_validate x u p = Ret (Some 7, u = ''al'' \<and> p = ''a:b'', None)"

theorem BasicAuth_roundtrip_witness:
  "BasicAuth_handler False auth_http () demo_validate \<lparr>k_id = Some 3, k_name = ''u''\<rparr> ''Basic''
     (\<lambda>c. (Ret None, c)) (auth_wire ''bAsIc YWw6YTpi'') =
     (Ret None, ctx_set 3 (Some 7) (auth_wire ''bAsIc YWw6YTpi''))"
proof -
  let ?c = "auth_wire ''bAsIc YWw6YTpi''"
  have "bound ?c" unfolding auth_wire_def by (rule bound_acquired)
  moreover have "f_Header auth_http ''Authorization'' (req ?c) =
      ''bAsIc'' @ replicate (Suc 0) (CHR '' '') @ base64_Encode (''al'' @ CHR '':'' # ''a:b'') @ []"
    by (simp add: auth_http_def auth_wire_def req_def) code_simp
  moreover have "equalFoldASCII ''bAsIc'' ''Basic''" "CHR '':'' \<notin> set ''al''" by code_simp+
  ultimately show ?thesis
    using BasicAuth_roundtrip [of ?c "''bAsIc''" "''al''" "[]" auth_http 0 "''a:b''" False "()" demo_validate 3 "''u''"
        "''Basic''" "\<lambda>c. (Ret None, c)"]
    by (simp add: demo_validate_def)
qed

text \<open>
  C29: Neither middleware lets a request through that Validate did not accept. If what is
  answered depends on the chain at all, or is a success, then the request carried
  credentials, Validate accepted exactly those without an error, and what was answered
  is the chain's answer on the Ctx with that identity stored, where it reads back.
\<close>

theorem auth_gates_guard:
  assumes "bound c"
  shows "(let gate = BasicAuth_handler dbg F base validate \<lparr>k_id = Some slot, k_name = nm\<rparr> challenge
     in gate next c \<noteq> gate next' c \<or> fst (gate next c) = Ret None \<longrightarrow>
       (\<exists>user pw ident. basic_credentials (f_Header F ''Authorization'' (req c)) = Some (user, pw)
          \<and> validate (cur_ctx base c) user pw = Ret (ident, True, None)
          \<and> gate next c = next (ctx_set slot ident c) \<and> ctx_get slot (ctx_set slot ident c) = (ident, True)))
    \<and> (let gate = KeyAuth_handler dbg F base kvalidate \<lparr>k_id = Some slot, k_name = nm\<rparr> bearer header challenge
     in gate next c \<noteq> gate next' c \<or> fst (gate next c) = Ret None \<longrightarrow>
       (\<exists>k ident. key_credentials bearer (f_Header F header (req c)) = Some k \<and> k \<noteq> []
          \<and> kvalidate (cur_ctx base c) k = Ret (ident, True, None)
          \<and> gate next c = next (ctx_set slot ident c) \<and> ctx_get slot (ctx_set slot ident c) = (ident, True)))"
proof -
  have acc: "accepted r = Some i \<Longrightarrow> r = Ret (i, True, None)" for r :: "('c option \<times> bool \<times> go_error option) res" and i
    by (auto simp: accepted_def split: res.splits prod.splits bool.splits option.splits)
  have basic: "\<exists>user pw. basic_credentials (f_Header F ''Authorization'' (req c)) = Some (user, pw)
      \<and> validate (cur_ctx base c) user pw = Ret (i, True, None)" if "basic_identity F base validate c = Some i" for i
    using that acc by (auto simp: basic_identity_def split: option.splits)
  have key: "\<exists>k. key_credentials bearer (f_Header F header (req c)) = Some k \<and> k \<noteq> []
      \<and> kvalidate (cur_ctx base c) k = Ret (i, True, None)" if "key_identity F base kvalidate bearer header c = Some i" for i
    using that acc by (auto simp: key_identity_def key_credentials_def split: option.splits bind_splits if_splits)
  show ?thesis
    unfolding Let_def
    by (intro conjI impI; elim ba.vouched [OF assms] ka.vouched [OF assms]; use basic key in blast)
qed

theorem auth_gates_guard_witness:
  "fst (BasicAuth_handler False auth_http () demo_validate \<lparr>k_id = Some 3, k_name = ''u''\<rparr> ''Basic''
     (\<lambda>c. (Ret None, c)) (auth_wire ''Basic eDp5'')) \<noteq> Ret None"
proof
  let ?c = "auth_wire ''Basic eDp5''"
  assume ok: "fst (BasicAuth_handler False auth_http () demo_validate \<lparr>k_id = Some 3, k_name = ''u''\<rparr> ''Basic''
     (\<lambda>c. (Ret None, c)) ?c) = Ret None"
  have b: "bound ?c" unfolding auth_wire_def by (rule bound_acquired)
  have "f_Header auth_http ''Authorization'' (req ?c) = ''Basic eDp5''"
    by (simp add: auth_http_def auth_wire_def req_def)
  moreover have "basic_credentials ''Basic eDp5'' = Some (''x'', ''y'')" by code_simp
  moreover obtain u p i where "basic_credentials (f_Header auth_http ''Authorization'' (req ?c)) = Some (u, p)"
      "demo_validate (cur_ctx () ?c) u p = Ret (i, True, None)"
    using auth_gates_guard [OF b, THEN conjunct1, unfolded Let_def, rule_format, OF disjI2, OF ok] by blast
  ultimately show False by (simp add: demo_validate_def)
qed

end
