(* ===== verification/Pattern.thy ===== *)
theory Pattern
  imports Rice_Prelude
begin

text \<open>
  Route patterns, \<open>internal/router/pattern.go\<close>: the scanner that splits a pattern
  into segments and rejects what is malformed, ambiguous or unable to match.
  A scan position is kept as the text before it and the text after it: \<open>run\<close> is
  \<open>pattern[start:i]\<close>, the static run not yet flushed, and the argument after it is
  \<open>pattern[i:]\<close>. Every \<open>fmt.Errorf\<close> of the source is a constructor of
  \<open>pattern_error\<close> carrying what its message prints.
\<close>

section \<open>Segments\<close>

datatype segKind = segStatic | segParam | segWildcard

datatype segment = Segment (kind: segKind) (seg_text: string)

datatype pattern_error =
    EmptyPath
  | NoLeadingSlash string
  | EmptySegment string string
  | DotSegment string
  | PercentEncoded string "string option"
  | EmptyParamName string
  | BadParamName string string
  | EmptyWildcardName string
  | WildcardNotLast string
  | BadWildcardName string string
  | DuplicateName string string

section \<open>Normalisation checks\<close>

definition isHex :: "char \<Rightarrow> bool" where
  "isHex b \<longleftrightarrow> in_range (CHR ''0'') (CHR ''9'') b \<or> in_range (CHR ''a'') (CHR ''f'') b
     \<or> in_range (CHR ''A'') (CHR ''F'') b"

fun hasPercentEscape :: "string \<Rightarrow> bool" where
  "hasPercentEscape (x # y # z # r) \<longleftrightarrow>
     x = CHR ''%'' \<and> isHex y \<and> isHex z \<or> hasPercentEscape (y # z # r)"
| "hasPercentEscape _ \<longleftrightarrow> False"

fun collapseSlashes :: "string \<Rightarrow> string" where
  "collapseSlashes (x # y # r) =
     (if x = CHR ''/'' \<and> y = CHR ''/'' then collapseSlashes (y # r)
      else x # collapseSlashes (y # r))"
| "collapseSlashes s = s"

text \<open>
  \<open>url.PathUnescape\<close> of Go's standard library: \<open>None\<close> is its error, an incomplete or
  non-hexadecimal escape.
\<close>

definition unhex :: "char \<Rightarrow> nat" where
  "unhex c = (if in_range (CHR ''0'') (CHR ''9'') c then byte c - 48
     else if in_range (CHR ''a'') (CHR ''f'') c then byte c - 87
     else if in_range (CHR ''A'') (CHR ''F'') c then byte c - 55 else 0)"

fun pathUnescape :: "string \<Rightarrow> string option" where
  "pathUnescape [] = Some []"
| "pathUnescape (c # r) =
     (if c = CHR ''%'' then
        (case r of
           a # b # r' \<Rightarrow>
             if isHex a \<and> isHex b
             then map_option ((#) (char_of (16 * unhex a + unhex b))) (pathUnescape r')
             else None
         | _ \<Rightarrow> None)
      else map_option ((#) c) (pathUnescape r))"

definition checkNormalised :: "string \<Rightarrow> pattern_error option" where
  "checkNormalised pattern =
     (if sublist ''//'' pattern then Some (EmptySegment pattern (collapseSlashes pattern))
      else if list_ex (\<lambda>seg. seg = ''.'' \<or> seg = ''..'') (splitByte (CHR ''/'') pattern)
        then Some (DotSegment pattern)
      else if hasPercentEscape pattern then
        (case pathUnescape pattern of
           Some decoded \<Rightarrow>
             if decoded \<noteq> pattern then Some (PercentEncoded pattern (Some decoded))
             else Some (PercentEncoded pattern None)
         | None \<Rightarrow> Some (PercentEncoded pattern None))
      else None)"

section \<open>Names\<close>

definition scanName :: "string \<Rightarrow> string \<times> string" where
  "scanName rest = (takeWhile (\<lambda>c. c \<noteq> CHR ''/'') rest, dropWhile (\<lambda>c. c \<noteq> CHR ''/'') rest)"

definition isValidParamName :: "string \<Rightarrow> bool" where
  "isValidParamName name \<longleftrightarrow>
     list_all (\<lambda>c. is_lower c \<or> is_upper c \<or> is_digit c \<or> c = CHR ''_'') name"

lemma scanName_length: "length (snd (scanName rest)) \<le> length rest"
  by (simp add: scanName_def length_dropWhile_le)

section \<open>The scanner\<close>

definition marker :: "char \<Rightarrow> bool" where
  "marker c \<longleftrightarrow> c = CHR '':'' \<or> c = CHR ''*''"

function (sequential) parse_loop ::
  "string \<Rightarrow> string \<Rightarrow> string \<Rightarrow> string list \<Rightarrow> segment list \<Rightarrow> pattern_error + segment list"
where
  "parse_loop pattern run [] names segs =
     Inr (if run \<noteq> [] then segs @ [Segment segStatic run] else segs)"
| "parse_loop pattern run (c # rest) names segs =
     (if \<not> marker c then parse_loop pattern (run @ [c]) rest names segs
      else
        let segs1 = segs @ [Segment segStatic run];
            name = fst (scanName rest);
            next = snd (scanName rest)
        in if c = CHR '':'' then
             (if name = [] then Inl (EmptyParamName pattern)
              else if \<not> isValidParamName name then Inl (BadParamName pattern name)
              else if name \<in> set names then Inl (DuplicateName pattern name)
              else parse_loop pattern [] next (names @ [name]) (segs1 @ [Segment segParam name]))
           else
             (if name = [] then Inl (EmptyWildcardName pattern)
              else if next \<noteq> [] then Inl (WildcardNotLast pattern)
              else if \<not> isValidParamName name then Inl (BadWildcardName pattern name)
              else if name \<in> set names then Inl (DuplicateName pattern name)
              else parse_loop pattern [] next (names @ [name]) (segs1 @ [Segment segWildcard name])))"
  by pat_completeness auto
termination
  by (relation "measure (\<lambda>(_, _, rest, _, _). length rest)")
    (auto simp: scanName_length le_imp_less_Suc)

definition parsePattern :: "string \<Rightarrow> pattern_error + segment list" where
  "parsePattern pattern =
     (if pattern = [] then Inl EmptyPath
      else if hd pattern \<noteq> CHR ''/'' then Inl (NoLeadingSlash pattern)
      else case checkNormalised pattern of
             Some e \<Rightarrow> Inl e
           | None \<Rightarrow> parse_loop pattern [] pattern [] [])"

section \<open>What a parsed pattern looks like\<close>

text \<open>\<open>render\<close> prints segments back; \<open>names_of\<close> lists the captured names in order.\<close>

fun render1 :: "segment \<Rightarrow> string" where
  "render1 (Segment segStatic t) = t"
| "render1 (Segment segParam x) = CHR '':'' # x"
| "render1 (Segment segWildcard x) = CHR ''*'' # x"

definition render :: "segment list \<Rightarrow> string" where
  "render ss = concat (map render1 ss)"

definition names_of :: "segment list \<Rightarrow> string list" where
  "names_of ss = map seg_text (filter (\<lambda>s. kind s \<noteq> segStatic) ss)"

definition static_ok :: "string \<Rightarrow> bool" where
  "static_ok t \<longleftrightarrow> t \<noteq> [] \<and> list_all (\<lambda>c. \<not> marker c) t"

definition name_ok :: "string \<Rightarrow> bool" where
  "name_ok x \<longleftrightarrow> x \<noteq> [] \<and> isValidParamName x"

definition at_slash :: "string \<Rightarrow> bool" where
  "at_slash s \<longleftrightarrow> (case s of [] \<Rightarrow> True | c # _ \<Rightarrow> c = CHR ''/'')"

text \<open>
  The canonical form: static text and captures alternate, a capture ends at a slash
  or at the end of the pattern, and a wildcard ends the pattern.
\<close>

fun canon :: "segment list \<Rightarrow> bool" where
  "canon [] \<longleftrightarrow> True"
| "canon [Segment segStatic t] \<longleftrightarrow> static_ok t"
| "canon (Segment segStatic t # Segment segParam x # ss) \<longleftrightarrow>
     static_ok t \<and> name_ok x \<and> at_slash (render ss) \<and> canon ss"
| "canon [Segment segStatic t, Segment segWildcard x] \<longleftrightarrow> static_ok t \<and> name_ok x"
| "canon _ \<longleftrightarrow> False"

definition valid_pattern :: "segment list \<Rightarrow> bool" where
  "valid_pattern ss \<longleftrightarrow> canon ss \<and> distinct (names_of ss)"

lemma render_simps [simp]:
  "render [] = []" "render (s # ss) = render1 s @ render ss"
  by (simp_all add: render_def)

lemma names_of_simps [simp]:
  "names_of [] = []"
  "names_of (s # ss) = (if kind s = segStatic then names_of ss else seg_text s # names_of ss)"
  by (simp_all add: names_of_def)

lemma at_slash_simps [simp]:
  "at_slash []" "at_slash (c # s) \<longleftrightarrow> c = CHR ''/''"
  by (simp_all add: at_slash_def)

lemma at_slash_scanName [simp]: "at_slash (snd (scanName s))"
  by (auto simp: scanName_def at_slash_def split: list.splits dest: takeWhile_dropWhile_Cons)

lemma not_marker_slash [simp]: "\<not> marker (CHR ''/'')"
  by (simp add: marker_def)

lemma valid_name_no_slash: "isValidParamName x \<Longrightarrow> CHR ''/'' \<notin> set x"
  by (auto simp: isValidParamName_def list_all_iff byte_class)

lemma scanName_name:
  assumes "isValidParamName x" "at_slash s"
  shows "scanName (x @ s) = (x, s)"
proof -
  have x: "\<forall>c \<in> set x. c \<noteq> CHR ''/''"
    using valid_name_no_slash [OF assms(1)] by auto
  then show ?thesis
    using assms(2) by (cases s) (simp_all add: scanName_def takeWhile_append2 dropWhile_append2)
qed

lemma scanName_append [simp]: "fst (scanName s) @ snd (scanName s) = s"
  by (simp add: scanName_def)

section \<open>The scanner accepts exactly the canonical patterns\<close>

lemma canon_Cons_run:
  "canon ss \<Longrightarrow> at_slash (render ss) \<Longrightarrow> static_ok t \<Longrightarrow> name_ok x \<Longrightarrow>
   canon (Segment segStatic t # Segment segParam x # ss)"
  by simp

lemma parse_loop_sound:
  assumes "parse_loop pattern run rest names segs = Inr out"
    and "list_all (\<lambda>c. \<not> marker c) run"
    and "run = [] \<Longrightarrow> at_slash rest"
  shows "\<exists>ss. out = segs @ ss \<and> render ss = run @ rest \<and> canon ss
     \<and> distinct (names_of ss) \<and> set names \<inter> set (names_of ss) = {}"
  using assms
proof (induction pattern run rest names segs rule: parse_loop.induct)
  case (1 pattern run names segs)
  show ?case
  proof (cases "run = []")
    case False
    with 1 show ?thesis
      by (intro exI [of _ "[Segment segStatic run]"]) (auto simp: static_ok_def)
  qed (use 1 in auto)
next
  case (2 pattern run c rest names segs)
  let ?name = "fst (scanName rest)" and ?next = "snd (scanName rest)"
  consider (plain) "\<not> marker c" | (param) "c = CHR '':''" | (wild) "c = CHR ''*''"
    by (auto simp: marker_def)
  then show ?case
  proof cases
    case plain
    with 2 show ?thesis by auto
  next
    case param
    have run: "static_ok run"
      using 2 param by (cases run) (auto simp: static_ok_def marker_def)
    have ok: "?name \<noteq> []" "isValidParamName ?name" "?name \<notin> set names"
      and rec: "parse_loop pattern [] ?next (names @ [?name])
        (segs @ [Segment segStatic run, Segment segParam ?name]) = Inr out"
      using 2(4) param by (auto simp: marker_def Let_def split: if_splits)
    obtain ss where ss: "out = (segs @ [Segment segStatic run, Segment segParam ?name]) @ ss"
      "render ss = ?next" "canon ss" "distinct (names_of ss)"
      "set (names @ [?name]) \<inter> set (names_of ss) = {}"
      using 2(2) [OF _ refl refl refl param] ok param rec by (auto simp: marker_def)
    show ?thesis
      using ss run ok param
      by (intro exI [of _ "Segment segStatic run # Segment segParam ?name # ss"])
        (auto simp: name_ok_def)
  next
    case wild
    have run: "static_ok run"
      using 2 wild by (cases run) (auto simp: static_ok_def marker_def)
    have ok: "?name \<noteq> []" "isValidParamName ?name" "?name \<notin> set names" "?next = []"
      and out: "out = segs @ [Segment segStatic run, Segment segWildcard ?name]"
      using 2(4) wild by (auto simp: marker_def Let_def split: if_splits)
    have "rest = ?name"
      using scanName_append [of rest] ok(4) by simp
    then show ?thesis
      using run ok wild out
      by (intro exI [of _ "[Segment segStatic run, Segment segWildcard ?name]"])
        (auto simp: name_ok_def)
  qed
qed

lemma parse_loop_static:
  "list_all (\<lambda>c. \<not> marker c) t \<Longrightarrow>
   parse_loop pattern run (t @ rest) names segs = parse_loop pattern (run @ t) rest names segs"
  by (induction t arbitrary: run) auto

lemma parse_loop_complete:
  assumes "canon ss" "distinct (names_of ss)" "set names \<inter> set (names_of ss) = {}"
  shows "parse_loop pattern [] (render ss) names segs = Inr (segs @ ss)"
  using assms
proof (induction ss arbitrary: names segs rule: canon.induct)
  case (2 t)
  then show ?case
    using parse_loop_static [of t pattern "[]" "[]"] by (simp add: static_ok_def)
next
  case (3 t x ss)
  then have "scanName (x @ render ss) = (x, render ss)"
    by (simp add: scanName_name name_ok_def)
  then show ?case
    using 3 by (simp add: static_ok_def name_ok_def parse_loop_static marker_def)
next
  case (4 t x)
  then have "scanName x = (x, [])"
    using scanName_name [of x "[]"] by (simp add: name_ok_def)
  then show ?case
    using 4 by (simp add: static_ok_def name_ok_def parse_loop_static marker_def)
qed simp_all

lemma parsePattern_iff:
  "parsePattern pattern = Inr ss \<longleftrightarrow>
     pattern \<noteq> [] \<and> hd pattern = CHR ''/'' \<and> checkNormalised pattern = None
     \<and> render ss = pattern \<and> valid_pattern ss" (is "?L \<longleftrightarrow> ?R")
proof
  assume ?L
  then have start: "pattern \<noteq> []" "hd pattern = CHR ''/''" "checkNormalised pattern = None"
    and loop: "parse_loop pattern [] pattern [] [] = Inr ss"
    by (auto simp: parsePattern_def split: if_splits option.splits)
  then have "at_slash pattern"
    by (cases pattern) auto
  with parse_loop_sound [OF loop] start show ?R
    by (auto simp: valid_pattern_def)
next
  assume ?R
  then show ?L
    using parse_loop_complete [of ss "[]" pattern "[]"]
    by (auto simp: parsePattern_def valid_pattern_def)
qed

lemma parsePattern_nonempty: "parsePattern pattern = Inr ss \<Longrightarrow> ss \<noteq> []"
  by (auto simp: parsePattern_iff)

section \<open>The checks\<close>

lemma hasPercentEscape_iff:
  "hasPercentEscape s \<longleftrightarrow> (\<exists>pre x y post. s = pre @ CHR ''%'' # x # y # post \<and> isHex x \<and> isHex y)"
  (is "_ \<longleftrightarrow> ?E s")
proof (induction s rule: hasPercentEscape.induct)
  case (1 x y z r)
  have "?E (x # y # z # r) \<longleftrightarrow> x = CHR ''%'' \<and> isHex y \<and> isHex z \<or> ?E (y # z # r)"
    (is "?lhs \<longleftrightarrow> ?rhs")
  proof
    assume ?lhs
    then obtain pre a b post where
      "x # y # z # r = pre @ CHR ''%'' # a # b # post" "isHex a" "isHex b" by blast
    then show ?rhs
      by (cases pre) auto
  next
    assume ?rhs
    then show ?lhs
      by (metis append_Cons append_Nil)
  qed
  then show ?case
    using 1 by simp
qed (auto simp: append_eq_Cons_conv Cons_eq_append_conv)

lemma hd_collapseSlashes [simp]: "hd (collapseSlashes s) = hd s"
  by (induction s rule: collapseSlashes.induct) auto

lemma collapseSlashes_Nil [simp]: "collapseSlashes s = [] \<longleftrightarrow> s = []"
  by (induction s rule: collapseSlashes.induct) auto

lemma collapseSlashes_no_empty_segment: "\<not> sublist ''//'' (collapseSlashes s)"
proof (induction s rule: collapseSlashes.induct)
  case (1 x y r)
  then show ?case
    by (cases "collapseSlashes (y # r)")
      (auto simp: sublist_Cons_right dest: arg_cong [where f = hd])
qed (auto simp: sublist_Cons_right)

section \<open>Properties\<close>

text \<open>
  C7: The pattern grammar. A pattern is accepted with segments \<open>ss\<close> exactly when it
  begins with a slash, has no empty and no dot segment and no percent escape, prints
  back from \<open>ss\<close>, and \<open>ss\<close> is canonical (static text and captures alternate, captures
  end at a slash, a wildcard comes last, names are valid and distinct). So every
  accepted pattern round-trips and no accepted pattern is ambiguous.
\<close>

theorem parsePattern_exact:
  "parsePattern pattern = Inr ss \<longleftrightarrow>
     hd (pattern @ ''x'') = CHR ''/''
     \<and> (\<forall>seg \<in> set (splitByte (CHR ''/'') pattern). seg \<noteq> ''.'' \<and> seg \<noteq> ''..'')
     \<and> \<not> sublist ''//'' pattern
     \<and> (\<nexists>pre x y post. pattern = pre @ CHR ''%'' # x # y # post \<and> isHex x \<and> isHex y)
     \<and> render ss = pattern \<and> valid_pattern ss"
  unfolding parsePattern_iff hasPercentEscape_iff [symmetric]
  by (cases pattern) (auto simp: checkNormalised_def list_ex_iff split: option.splits)

theorem parsePattern_exact_witness:
  "parsePattern ''/u/:id'' = Inr [Segment segStatic ''/u/'', Segment segParam ''id'']
   \<and> valid_pattern [Segment segStatic ''/u/'', Segment segParam ''id'']"
  using parsePattern_exact [of "''/u/:id''" "[Segment segStatic ''/u/'', Segment segParam ''id'']"]
  by (auto simp: parsePattern_def checkNormalised_def sublist_code splitByte.simps scanName_def
      isValidParamName_def byte_class marker_def)

text \<open>
  The correction an empty-segment error suggests is itself free of empty segments,
  still begins with the same byte, and is what a pattern without empty segments already
  is.
\<close>

lemma collapseSlashes_suggestion:
  "\<not> sublist ''//'' (collapseSlashes s) \<and> hd (collapseSlashes s) = hd s
   \<and> (collapseSlashes s = s \<longleftrightarrow> \<not> sublist ''//'' s)"
proof -
  have "\<not> sublist ''//'' s \<Longrightarrow> collapseSlashes s = s"
    by (induction s rule: collapseSlashes.induct) (auto simp: sublist_Cons_right)
  then show ?thesis
    using collapseSlashes_no_empty_segment [of s] by auto
qed

end
