(* ===== verification/Radix_Tree.thy ===== *)
theory Radix_Tree
  imports Params Pattern
begin

text \<open>
  The radix tree of \<open>internal/router/tree.go\<close> and the \<open>Tree\<close> around it in
  \<open>internal/router/router.go\<close>.

  A Go \<open>*node\<close> is an owned subtree here. The source walks a pointer down the tree
  and mutates the node it ends at; the model takes what the source goes on to do at
  that node as a function and rebuilds the path above it, so \<open>insertStatic text k n\<close>
  is \<open>n.insertStatic(text)\<close> followed by \<open>k\<close> at the node it returns. An insertion
  that fails part of the way leaves behind the nodes it had already made, so every
  insertion returns the tree beside its error.

  \<open>obs\<close> reads a node at a position written as a list of tokens (one per literal
  byte, one per capture): the handler there and the names of its two capture
  children. Nodes and their compressed prefixes are invisible to it, so it is the
  abstraction the insertion lemmas are stated with.
\<close>

section \<open>Nodes\<close>

datatype 'h node = Node
  (n_prefix: string)
  (n_handler: "'h option")
  (n_static: "'h node list")
  (n_param: "'h node option")
  (n_wildcard: "'h node option")
  (n_name: string)

definition empty_node :: "'h node" where
  "empty_node = Node [] None [] None None []"

definition set_handler :: "'h \<Rightarrow> 'h node \<Rightarrow> 'h node" where
  "set_handler h n =
     Node (n_prefix n) (Some h) (n_static n) (n_param n) (n_wildcard n) (n_name n)"

definition set_static :: "'h node list \<Rightarrow> 'h node \<Rightarrow> 'h node" where
  "set_static ss n = Node (n_prefix n) (n_handler n) ss (n_param n) (n_wildcard n) (n_name n)"

definition set_param :: "'h node \<Rightarrow> 'h node \<Rightarrow> 'h node" where
  "set_param c n =
     Node (n_prefix n) (n_handler n) (n_static n) (Some c) (n_wildcard n) (n_name n)"

definition set_wildcard :: "'h node \<Rightarrow> 'h node \<Rightarrow> 'h node" where
  "set_wildcard c n =
     Node (n_prefix n) (n_handler n) (n_static n) (n_param n) (Some c) (n_name n)"

text \<open>
  \<open>staticChild\<close> reads \<open>c.prefix[0]\<close>, which panics on an empty prefix; the invariant
  \<open>wf_node\<close> below says no static child has one.
\<close>

fun static_index :: "char \<Rightarrow> 'h node list \<Rightarrow> nat option" where
  "static_index b [] = None"
| "static_index b (c # cs) =
     (if n_prefix c \<noteq> [] \<and> hd (n_prefix c) = b then Some 0
      else map_option Suc (static_index b cs))"

definition staticChild :: "'h node \<Rightarrow> char \<Rightarrow> 'h node option" where
  "staticChild n b = map_option (\<lambda>i. n_static n ! i) (static_index b (n_static n))"

fun commonPrefixLen :: "string \<Rightarrow> string \<Rightarrow> nat" where
  "commonPrefixLen (x # xs) (y # ys) = (if x = y then Suc (commonPrefixLen xs ys) else 0)"
| "commonPrefixLen _ _ = 0"

definition split_node :: "nat \<Rightarrow> 'h node \<Rightarrow> 'h node" where
  "split_node cp c =
     Node (take cp (n_prefix c)) None
       [Node (drop cp (n_prefix c)) (n_handler c) (n_static c) (n_param c) (n_wildcard c) []]
       None None (n_name c)"

lemma static_index_SomeD:
  "static_index b cs = Some i \<Longrightarrow>
   i < length cs \<and> n_prefix (cs ! i) \<noteq> [] \<and> hd (n_prefix (cs ! i)) = b"
  by (induction cs arbitrary: i) (auto split: if_splits)

lemma commonPrefixLen_pos: "xs \<noteq> [] \<Longrightarrow> ys \<noteq> [] \<Longrightarrow> hd xs = hd ys \<Longrightarrow> 0 < commonPrefixLen xs ys"
  by (cases xs; cases ys) auto

section \<open>Insertion\<close>

function insertStatic ::
  "string \<Rightarrow> ('h node \<Rightarrow> 'r \<times> 'h node) \<Rightarrow> 'h node \<Rightarrow> 'r \<times> 'h node"
where
  "insertStatic tx k n =
     (if tx = [] then k n
      else case static_index (hd tx) (n_static n) of
        None \<Rightarrow>
          (let (r, leaf) = k (Node tx None [] None None [])
           in (r, set_static (n_static n @ [leaf]) n))
      | Some i \<Rightarrow>
          (let child = n_static n ! i;
               cp = commonPrefixLen (n_prefix child) tx;
               child1 = (if cp < length (n_prefix child) then split_node cp child else child);
               (r, child2) = insertStatic (drop cp tx) k child1
           in (r, set_static ((n_static n)[i := child2]) n)))"
  by pat_completeness auto
termination
proof (relation "measure (\<lambda>(tx, _, _). length tx)", goal_cases)
  case (2 tx k n i)
  then show ?case
    using commonPrefixLen_pos [of "n_prefix (n_static n ! i)" tx]
    by (auto dest!: static_index_SomeD)
qed auto

declare insertStatic.simps [simp del]

datatype insert_error =
    ParamConflict string string string
  | WildcardConflict string string string
  | ErrDuplicate

fun insert_walk ::
  "string \<Rightarrow> segment list \<Rightarrow> 'h \<Rightarrow> 'h node \<Rightarrow> insert_error option \<times> 'h node"
where
  "insert_walk pattern [] h cur =
     (if n_handler cur \<noteq> None then (Some ErrDuplicate, cur)
      else (None, set_handler h cur))"
| "insert_walk pattern (Segment segStatic t # segs) h cur =
     insertStatic t (insert_walk pattern segs h) cur"
| "insert_walk pattern (Segment segParam x # segs) h cur =
     (case n_param cur of
        None \<Rightarrow>
          (let (r, c) = insert_walk pattern segs h (Node [] None [] None None x)
           in (r, set_param c cur))
      | Some c \<Rightarrow>
          if n_name c \<noteq> x then (Some (ParamConflict pattern x (n_name c)), cur)
          else let (r, c') = insert_walk pattern segs h c in (r, set_param c' cur))"
| "insert_walk pattern (Segment segWildcard x # segs) h cur =
     (case n_wildcard cur of
        None \<Rightarrow>
          (let (r, c) = insert_walk pattern segs h (Node [] None [] None None x)
           in (r, set_wildcard c cur))
      | Some c \<Rightarrow>
          if n_name c \<noteq> x then (Some (WildcardConflict pattern x (n_name c)), cur)
          else let (r, c') = insert_walk pattern segs h c in (r, set_wildcard c' cur))"

record 'h tree =
  root :: "'h node option"
  count :: nat

definition tree_insert ::
  "'h tree \<Rightarrow> string \<Rightarrow> segment list \<Rightarrow> 'h \<Rightarrow> insert_error option \<times> 'h tree"
where
  "tree_insert t pattern segs h =
     (let cur = (case root t of None \<Rightarrow> empty_node | Some n \<Rightarrow> n);
          (r, n') = insert_walk pattern segs h cur
      in case r of
           Some e \<Rightarrow> (Some e, t\<lparr>root := Some n'\<rparr>)
         | None \<Rightarrow> (None, t\<lparr>root := Some n', count := Suc (count t)\<rparr>))"

section \<open>Lookup\<close>

function node_lookup :: "'h node \<Rightarrow> bytes \<Rightarrow> Params \<Rightarrow> 'h option \<times> Params" where
  "node_lookup n path params =
     (if path = [] then (None, params)
      else
        let (r1, params1) =
          (case staticChild n (hd path) of
             None \<Rightarrow> (None, params)
           | Some child \<Rightarrow>
               if length (n_prefix child) \<le> length path
                  \<and> take (length (n_prefix child)) path = n_prefix child
               then
                 let rest = drop (length (n_prefix child)) path
                 in if rest = [] then (n_handler child, params)
                    else node_lookup child rest params
               else (None, params))
        in if r1 \<noteq> None then (r1, params1)
        else let (r2, params2) =
          (case n_param n of
             None \<Rightarrow> (None, params1)
           | Some c \<Rightarrow>
               let seg = takeWhile (\<lambda>b. b \<noteq> CHR ''/'') path
               in if seg \<noteq> [] then
                    let saved = Len params1;
                        captured = add params1 (n_name c) seg;
                        rest = drop (length seg) path;
                        (r, params') =
                          (if rest = [] then (n_handler c, captured)
                           else node_lookup c rest captured)
                    in if r \<noteq> None then (r, params') else (None, ptruncate params' saved)
                  else (None, params1))
        in if r2 \<noteq> None then (r2, params2)
        else
          (case n_wildcard n of
             None \<Rightarrow> (None, params2)
           | Some w \<Rightarrow>
               let saved = Len params2;
                   captured = add params2 (n_name w) path
               in if n_handler w \<noteq> None then (n_handler w, captured)
                  else (None, ptruncate captured saved)))"
  by pat_completeness auto
termination
proof (relation "measure (\<lambda>(_, path, _). length path)", goal_cases)
  case (2 n path params child)
  then show ?case
    by (auto simp: staticChild_def dest!: static_index_SomeD)
qed auto

declare node_lookup.simps [simp del]

definition tree_lookup :: "'h tree \<Rightarrow> bytes \<Rightarrow> Params \<Rightarrow> 'h option \<times> Params" where
  "tree_lookup t path params =
     (case root t of None \<Rightarrow> (None, params) | Some n \<Rightarrow> node_lookup n path params)"

section \<open>The exported tree\<close>

record 'h Tree =
  inner :: "'h tree"
  maxParams :: nat

definition empty_Tree :: "'h Tree" where
  "empty_Tree = \<lparr>inner = \<lparr>root = None, count = 0\<rparr>, maxParams = 0\<rparr>"

datatype route_error = PatternError pattern_error | InsertError insert_error

definition Insert :: "'h Tree \<Rightarrow> string \<Rightarrow> 'h \<Rightarrow> route_error option \<times> 'h Tree" where
  "Insert T pattern h =
     (case parsePattern pattern of
        Inl e \<Rightarrow> (Some (PatternError e), T)
      | Inr segs \<Rightarrow>
          (case tree_insert (inner T) pattern segs h of
             (Some e, t') \<Rightarrow> (Some (InsertError e), T\<lparr>inner := t'\<rparr>)
           | (None, t') \<Rightarrow>
               (let n = length (filter (\<lambda>s. kind s \<noteq> segStatic) segs)
                in (None, T\<lparr>inner := t', maxParams := max (maxParams T) n\<rparr>))))"

definition MaxParams :: "'h Tree \<Rightarrow> nat" where
  "MaxParams T = maxParams T"

definition Lookup :: "'h Tree \<Rightarrow> bytes \<Rightarrow> Params \<Rightarrow> 'h option \<times> Params" where
  "Lookup T path params = tree_lookup (inner T) path params"

definition TreeLen :: "'h Tree \<Rightarrow> nat" where
  "TreeLen T = count (inner T)"

end
