(* ===== verification/Radix_Insert.thy ===== *)
theory Radix_Insert
  imports Radix_Tree
begin

text \<open>
  What insertion does to the routes a tree holds. A pattern is a list of tokens; a
  tree is read through \<open>obs\<close>. \<open>declares\<close> and \<open>compatible\<close> say, without any node,
  what a pattern adds and when it may be added; \<open>insert_walk\<close> is proved to do exactly
  that, and a failing insertion to add no route.
\<close>

section \<open>Patterns as tokens\<close>

datatype tok = Ch char | Par string | Wild string

fun seg_toks :: "segment \<Rightarrow> tok list" where
  "seg_toks (Segment segStatic t) = map Ch t"
| "seg_toks (Segment segParam x) = [Par x]"
| "seg_toks (Segment segWildcard x) = [Wild x]"

definition toks :: "segment list \<Rightarrow> tok list" where
  "toks ss = concat (map seg_toks ss)"

lemma toks_simps [simp]: "toks [] = []" "toks (s # ss) = seg_toks s @ toks ss"
  by (simp_all add: toks_def)

fun render_tok :: "tok \<Rightarrow> string" where
  "render_tok (Ch c) = [c]"
| "render_tok (Par x) = CHR '':'' # x"
| "render_tok (Wild x) = CHR ''*'' # x"

lemma render_toks: "concat (map render_tok (toks ss)) = render ss"
proof (induction ss)
  case (Cons s ss)
  moreover have "concat (map render_tok (map Ch t)) = t" for t
    by (induction t) auto
  ultimately show ?case
    by (cases s rule: seg_toks.cases) (auto simp: comp_def)
qed simp

text \<open>Two accepted patterns with the same tokens are the same pattern.\<close>

lemma parsePattern_toks_inj:
  assumes "parsePattern p = Inr ss" "parsePattern q = Inr ss'" "toks ss = toks ss'"
  shows "p = q"
  using assms by (metis parsePattern_iff render_toks)

section \<open>Reading a tree\<close>

type_synonym 'h view = "'h option \<times> string option \<times> string option"

abbreviation no_view :: "'h view" where
  "no_view \<equiv> (None, None, None)"

definition view :: "'h node \<Rightarrow> 'h view" where
  "view n = (n_handler n, map_option n_name (n_param n), map_option n_name (n_wildcard n))"

function obs :: "'h node \<Rightarrow> tok list \<Rightarrow> 'h view" where
  "obs n [] = view n"
| "obs n (Ch c # ts) =
     (case staticChild n c of
        None \<Rightarrow> no_view
      | Some ch \<Rightarrow>
          if take (length (n_prefix ch)) (Ch c # ts) = map Ch (n_prefix ch)
          then obs ch (drop (length (n_prefix ch)) (Ch c # ts)) else no_view)"
| "obs n (Par x # ts) =
     (case n_param n of
        None \<Rightarrow> no_view
      | Some c \<Rightarrow> if n_name c = x then obs c ts else no_view)"
| "obs n (Wild x # ts) =
     (case n_wildcard n of
        None \<Rightarrow> no_view
      | Some c \<Rightarrow> if n_name c = x then obs c ts else no_view)"
  by pat_completeness auto
termination
proof (relation "measure (\<lambda>(_, ts). length ts)", goal_cases)
  case (2 n c ts ch)
  then show ?case
    by (cases "n_prefix ch") (auto simp: staticChild_def dest!: static_index_SomeD)
qed auto

lemma staticChild_SomeD:
  assumes "staticChild n c = Some ch"
  shows "ch \<in> set (n_static n)" "\<exists>p. n_prefix ch = c # p"
proof -
  obtain i where i: "static_index c (n_static n) = Some i" "ch = n_static n ! i"
    using assms by (auto simp: staticChild_def)
  then show "ch \<in> set (n_static n)" "\<exists>p. n_prefix ch = c # p"
    using static_index_SomeD [OF i(1)] by (auto simp: neq_Nil_conv)
qed

lemma static_index_append:
  "static_index b (xs @ ys) =
     (case static_index b xs of
        Some i \<Rightarrow> Some i
      | None \<Rightarrow> (case static_index b ys of Some j \<Rightarrow> Some (length xs + j) | None \<Rightarrow> None))"
  by (induction xs) (auto split: option.splits)

lemma static_index_update:
  "i < length cs \<Longrightarrow> n_prefix c \<noteq> [] \<Longrightarrow> n_prefix (cs ! i) \<noteq> [] \<Longrightarrow>
   hd (n_prefix c) = hd (n_prefix (cs ! i)) \<Longrightarrow> static_index b (cs[i := c]) = static_index b cs"
proof (induction cs arbitrary: i)
  case (Cons x cs)
  then show ?case by (cases i) auto
qed simp

section \<open>The shape invariant\<close>

text \<open>
  Static children have non-empty prefixes with distinct first bytes, which is what
  lets the lookup try one of them only.
\<close>

fun wf_node :: "'h node \<Rightarrow> bool" where
  "wf_node (Node p h ss pa wi nm) \<longleftrightarrow>
     list_all (\<lambda>s. n_prefix s \<noteq> [] \<and> wf_node s) ss
     \<and> distinct (map (\<lambda>s. hd (n_prefix s)) ss)
     \<and> (case pa of None \<Rightarrow> True | Some c \<Rightarrow> wf_node c)
     \<and> (case wi of None \<Rightarrow> True | Some c \<Rightarrow> wf_node c)"

lemma wf_node_iff:
  "wf_node n \<longleftrightarrow>
     (\<forall>s \<in> set (n_static n). n_prefix s \<noteq> [] \<and> wf_node s)
     \<and> distinct (map (\<lambda>s. hd (n_prefix s)) (n_static n))
     \<and> (\<forall>c. n_param n = Some c \<longrightarrow> wf_node c) \<and> (\<forall>c. n_wildcard n = Some c \<longrightarrow> wf_node c)"
  by (cases n) (auto simp: list_all_iff split: option.splits)

lemma wf_fresh [simp]: "wf_node (Node p None [] None None x)"
  by simp

lemma wf_empty_node [simp]: "wf_node empty_node"
  by (simp add: empty_node_def)

lemma wf_set_handler [simp]: "wf_node (set_handler h n) \<longleftrightarrow> wf_node n"
  by (cases n) (simp add: set_handler_def)

lemma wf_set_param: "wf_node n \<Longrightarrow> wf_node c \<Longrightarrow> wf_node (set_param c n)"
  by (cases n) (simp add: set_param_def)

lemma wf_set_wildcard: "wf_node n \<Longrightarrow> wf_node c \<Longrightarrow> wf_node (set_wildcard c n)"
  by (cases n) (simp add: set_wildcard_def)

lemma tok_list_cases [case_names Nil Ch Par Wild]:
  "(q = [] \<Longrightarrow> P) \<Longrightarrow> (\<And>c ts. q = Ch c # ts \<Longrightarrow> P) \<Longrightarrow> (\<And>x ts. q = Par x # ts \<Longrightarrow> P) \<Longrightarrow>
   (\<And>x ts. q = Wild x # ts \<Longrightarrow> P) \<Longrightarrow> P"
  by (metis list.exhaust tok.exhaust)

lemma node_update_simps [simp]:
  "n_prefix (set_handler h n) = n_prefix n" "n_name (set_handler h n) = n_name n"
  "n_prefix (set_static ss n) = n_prefix n" "n_name (set_static ss n) = n_name n"
  "n_prefix (set_param c n) = n_prefix n" "n_name (set_param c n) = n_name n"
  "n_prefix (set_wildcard c n) = n_prefix n" "n_name (set_wildcard c n) = n_name n"
  "n_static (set_static ss n) = ss" "view (set_static ss n) = view n"
  "n_param (set_static ss n) = n_param n" "n_wildcard (set_static ss n) = n_wildcard n"
  by (simp_all add: set_handler_def set_static_def set_param_def set_wildcard_def view_def)

lemma staticChild_update_simps [simp]:
  "staticChild (set_handler h n) = staticChild n"
  "staticChild (set_param c n) = staticChild n"
  "staticChild (set_wildcard c n) = staticChild n"
  by (simp_all add: fun_eq_iff staticChild_def set_handler_def set_param_def set_wildcard_def)

lemma wf_append_static:
  assumes "wf_node n" "static_index b (n_static n) = None" "wf_node leaf"
    and "n_prefix leaf \<noteq> []" "hd (n_prefix leaf) = b"
  shows "wf_node (set_static (n_static n @ [leaf]) n)"
proof -
  have "static_index b cs = None \<Longrightarrow> c \<in> set cs \<Longrightarrow> n_prefix c \<noteq> [] \<Longrightarrow> hd (n_prefix c) \<noteq> b"
    for cs c by (induction cs) (auto split: if_splits)
  from this [OF assms(2)] have "\<forall>c \<in> set (n_static n). hd (n_prefix c) \<noteq> b"
    using assms(1) by (simp add: wf_node_iff [of n])
  then show ?thesis
    using assms by (auto simp: wf_node_iff [of n] wf_node_iff [of "set_static _ _"])
qed

lemma wf_update_static:
  assumes "wf_node n" "i < length (n_static n)" "wf_node c"
    and "n_prefix c \<noteq> []" "hd (n_prefix c) = hd (n_prefix (n_static n ! i))"
  shows "wf_node (set_static ((n_static n)[i := c]) n)"
proof -
  have "map (\<lambda>s. hd (n_prefix s)) ((n_static n)[i := c]) = map (\<lambda>s. hd (n_prefix s)) (n_static n)"
    using assms(2,5) by (simp add: map_update list_update_same_conv)
  then show ?thesis
    using assms by (auto simp: wf_node_iff [of n] wf_node_iff [of "set_static _ _"]
        dest!: set_update_subset_insert [THEN subsetD])
qed

section \<open>Splitting a node changes nothing one can observe\<close>

lemma commonPrefixLen_le [simp]:
  "commonPrefixLen xs ys \<le> length xs" "commonPrefixLen xs ys \<le> length ys"
  by (induction xs ys rule: commonPrefixLen.induct) auto

lemma commonPrefixLen_take:
  "take (commonPrefixLen xs ys) xs = take (commonPrefixLen xs ys) ys"
  by (induction xs ys rule: commonPrefixLen.induct) auto

lemma commonPrefixLen_diff:
  "commonPrefixLen xs ys < length xs \<Longrightarrow> commonPrefixLen xs ys < length ys \<Longrightarrow>
   xs ! commonPrefixLen xs ys \<noteq> ys ! commonPrefixLen xs ys"
  by (induction xs ys rule: commonPrefixLen.induct) auto

text \<open>Entering a node through its compressed prefix.\<close>

definition enter :: "'h node \<Rightarrow> tok list \<Rightarrow> 'h view" where
  "enter ch q =
     (if take (length (n_prefix ch)) q = map Ch (n_prefix ch)
      then obs ch (drop (length (n_prefix ch)) q) else no_view)"

lemma obs_Ch:
  "obs n (Ch c # ts) = (case staticChild n c of None \<Rightarrow> no_view | Some ch \<Rightarrow> enter ch (Ch c # ts))"
  by (simp add: enter_def split: option.splits)

declare obs.simps(2) [simp del]

lemma enter_append [simp]: "enter ch (map Ch (n_prefix ch) @ q) = obs ch q"
  by (simp add: enter_def)

lemma obs_cong_shape:
  assumes "n_static m = n_static n" "n_handler m = n_handler n"
    and "n_param m = n_param n" "n_wildcard m = n_wildcard n"
  shows "obs m q = obs n q"
  using assms by (cases q rule: tok_list_cases) (auto simp: obs_Ch view_def staticChild_def)

lemma n_prefix_split_node [simp]: "n_prefix (split_node cp c) = take cp (n_prefix c)"
  by (simp add: split_node_def)

lemma wf_split_node:
  assumes "wf_node c" "cp < length (n_prefix c)"
  shows "wf_node (split_node cp c)"
  using assms by (cases c) (simp add: split_node_def)

lemma enter_split_node:
  assumes "0 < cp" "cp < length (n_prefix c)" "q \<noteq> []"
  shows "enter (split_node cp c) q = enter c q"
proof -
  let ?p = "n_prefix c"
  let ?tail = "Node (drop cp ?p) (n_handler c) (n_static c) (n_param c) (n_wildcard c) []"
  have len: "length (take cp ?p) = cp"
    using assms(2) by simp
  have tail: "obs (Node pre (n_handler c) (n_static c) (n_param c) (n_wildcard c) []) r = obs c r"
    for pre r by (rule obs_cong_shape) simp_all
  have child: "staticChild (split_node cp c) b = (if b = ?p ! cp then Some ?tail else None)" for b
    using assms(2) by (auto simp: staticChild_def split_node_def hd_drop_conv_nth)
  have split: "obs (split_node cp c) r =
      (if take (length ?p - cp) r = map Ch (drop cp ?p) then obs c (drop (length ?p - cp) r)
       else no_view)" for r
  proof (cases r rule: tok_list_cases)
    case (Ch b ts)
    then show ?thesis
      using assms(2) by (cases "b = ?p ! cp")
        (auto simp: obs_Ch child enter_def tail Cons_nth_drop_Suc [symmetric]
           take_Cons' drop_Cons')
  qed (use assms(2) in \<open>auto simp: split_node_def view_def Cons_nth_drop_Suc [symmetric]
         take_Cons'\<close>)
  have "take (length ?p) q = map Ch ?p \<longleftrightarrow>
      take cp q = map Ch (take cp ?p) \<and> take (length ?p - cp) (drop cp q) = map Ch (drop cp ?p)"
    using take_eq_split [of cp "map Ch ?p" q] assms(2) by (simp add: take_map drop_map)
  then show ?thesis
    using assms(2) by (auto simp: enter_def split)
qed

section \<open>Descending along static text\<close>

text \<open>What an insertion may do at the node it ends at.\<close>

definition keeps_shape :: "('h node \<Rightarrow> 'r \<times> 'h node) \<Rightarrow> bool" where
  "keeps_shape k \<longleftrightarrow>
     (\<forall>m. wf_node m \<longrightarrow> wf_node (snd (k m)) \<and> n_prefix (snd (k m)) = n_prefix m
        \<and> n_name (snd (k m)) = n_name m)"

lemma obs_fresh [simp]: "obs (Node p None [] None None x) q = no_view"
  by (cases q rule: tok_list_cases) (auto simp: obs_Ch view_def staticChild_def)

lemma obs_set_static_other:
  "(\<And>c ts. q \<noteq> Ch c # ts) \<Longrightarrow> obs (set_static ss n) q = obs n q"
  by (cases q rule: tok_list_cases) auto

lemma take_Ch_neq [simp]:
  "tx \<noteq> [] \<Longrightarrow> take (length tx) (Par x # ts) \<noteq> map Ch tx"
  "tx \<noteq> [] \<Longrightarrow> take (length tx) (Wild x # ts) \<noteq> map Ch tx"
  "take (length tx) (Ch c # ts) = map Ch tx \<Longrightarrow> tx \<noteq> [] \<Longrightarrow> hd tx = c"
  by (cases tx; auto)+

lemma insertStatic_new_leaf:
  assumes "wf_node n" "static_index (hd tx) (n_static n) = None" "tx \<noteq> []"
    and leaf: "wf_node leaf" "n_prefix leaf = tx"
  shows "obs (set_static (n_static n @ [leaf]) n) q =
    (if take (length tx) q = map Ch tx then obs leaf (drop (length tx) q) else obs n q)"
proof (cases q rule: tok_list_cases)
  case (Ch c ts)
  have child: "staticChild (set_static (n_static n @ [leaf]) n) b =
      (if b = hd tx then Some leaf else staticChild n b)" for b
    using assms(2,3) leaf(2) by (cases "static_index b (n_static n)")
      (auto simp: staticChild_def static_index_append nth_append dest: static_index_SomeD)
  have none: "staticChild n (hd tx) = None"
    using assms(2) by (simp add: staticChild_def)
  show ?thesis
  proof (cases "c = hd tx")
    case True
    then show ?thesis
      using Ch leaf(2) none by (simp add: obs_Ch child enter_def)
  next
    case False
    then have "take (length tx) q \<noteq> map Ch tx"
      using Ch assms(3) take_Ch_neq(3) by blast
    then show ?thesis
      using False Ch by (simp add: obs_Ch child)
  qed
qed (use assms in \<open>auto simp: obs_set_static_other\<close>)

lemma staticChild_update:
  assumes "static_index b (n_static n) = Some i" "n_prefix c \<noteq> []" "hd (n_prefix c) = b"
  shows "staticChild (set_static ((n_static n)[i := c]) n) b' =
    (if b' = b then Some c else staticChild n b')"
proof -
  note i = static_index_SomeD [OF assms(1)]
  then have idx: "static_index b' ((n_static n)[i := c]) = static_index b' (n_static n)"
    using assms by (intro static_index_update) auto
  show ?thesis
  proof (cases "b' = b")
    case True
    then show ?thesis
      using idx assms(1) i by (simp add: staticChild_def)
  next
    case False
    have "static_index b' (n_static n) = Some j \<Longrightarrow> j \<noteq> i" for j
      using False i by (auto dest: static_index_SomeD)
    then show ?thesis
      using False idx by (cases "static_index b' (n_static n)") (auto simp: staticChild_def)
  qed
qed

text \<open>
  One level of the descent: \<open>c1\<close> stands for the child that starts with the first byte of \<open>tx\<close>,
  split at the \<open>cp\<close> bytes it shares with it, \<open>m\<close> is the node further down and \<open>c2\<close> replaces the
  child.
\<close>

lemma child_reads:
  assumes "static_index (hd tx) (n_static n) = Some i" "\<And>q. q \<noteq> [] \<Longrightarrow> enter c1 q = enter (n_static n ! i) q"
  shows "obs n (Ch (hd tx) # q) = enter c1 (Ch (hd tx) # q)"
  using assms by (simp add: obs_Ch staticChild_def)

lemma descent_reads:
  assumes "tx \<noteq> []" "n_prefix c1 = take cp tx" "\<And>q. obs n (Ch (hd tx) # q) = enter c1 (Ch (hd tx) # q)"
    and "\<And>q. obs m q = obs c1 (map Ch (drop cp tx) @ q)"
  shows "obs m q = obs n (map Ch tx @ q)"
proof -
  have "map Ch tx @ q = map Ch (n_prefix c1) @ map Ch (drop cp tx) @ q"
    unfolding assms(2) by (metis append.assoc append_take_drop_id map_append)
  moreover have "obs n (map Ch tx @ q) = enter c1 (map Ch tx @ q)"
    using assms(3) [of "map Ch (tl tx) @ q"] assms(1) by (cases tx) auto
  ultimately show ?thesis by (simp only: assms(4) enter_append)
qed

lemma replacement_reads:
  assumes tx: "tx \<noteq> []" "static_index (hd tx) (n_static n) = Some i" and cp: "0 < cp" "cp \<le> length tx"
    and c1: "n_prefix c1 = take cp tx" "\<And>q. obs n (Ch (hd tx) # q) = enter c1 (Ch (hd tx) # q)"
    and c2: "n_prefix c2 = take cp tx"
      "\<And>q. obs c2 q = (if take (length tx - cp) q = map Ch (drop cp tx) then f (drop (length tx - cp) q) else obs c1 q)"
  shows "obs (set_static ((n_static n)[i := c2]) n) q =
    (if take (length tx) q = map Ch tx then f (drop (length tx) q) else obs n q)"
proof (cases q rule: tok_list_cases)
  case (Ch b ts)
  have child: "staticChild (set_static ((n_static n)[i := c2]) n) b = (if b = hd tx then Some c2 else staticChild n b)" for b
    using c2(1) cp(1) tx by (intro staticChild_update) auto
  have split: "take (length tx) q = map Ch tx \<longleftrightarrow> take cp q = map Ch (take cp tx)
      \<and> take (length tx - cp) (drop cp q) = map Ch (drop cp tx)" for q
    using take_eq_split [of cp "map Ch tx" q] cp(2) by (simp add: take_map drop_map)
  show ?thesis
  proof (cases "b = hd tx")
    case True
    then show ?thesis
      using Ch c1(2) [of ts] c2(1) c1(1) cp(2) by (simp add: obs_Ch child enter_def c2(2) split)
  next
    case False
    then have "take (length tx) q \<noteq> map Ch tx" using Ch tx(1) take_Ch_neq(3) by blast
    then show ?thesis using False Ch by (simp add: obs_Ch child)
  qed
qed (use tx(1) in \<open>auto simp: obs_set_static_other\<close>)

text \<open>
  The whole descent: there is one node \<open>m\<close> at which the insertion goes on, it reads
  like the subtree at \<open>tx\<close>, and afterwards exactly that subtree has been replaced.
\<close>

lemma insertStatic_spec:
  assumes "wf_node n" "keeps_shape k" "insertStatic tx k n = (r, n')"
  shows "wf_node n' \<and> n_prefix n' = n_prefix n \<and> n_name n' = n_name n \<and>
    (\<exists>m. wf_node m \<and> r = fst (k m) \<and> (\<forall>q. obs m q = obs n (map Ch tx @ q)) \<and>
       (\<forall>q. obs n' q = (if take (length tx) q = map Ch tx
          then obs (snd (k m)) (drop (length tx) q) else obs n q)))"
  using assms
proof (induction tx k n arbitrary: r n' rule: insertStatic.induct)
  case (1 tx k n)
  note k = \<open>keeps_shape k\<close> [unfolded keeps_shape_def, rule_format]
  consider (Nil) "tx = []"
    | (New) "tx \<noteq> []" "static_index (hd tx) (n_static n) = None"
    | (Old) i where "tx \<noteq> []" "static_index (hd tx) (n_static n) = Some i"
    by (cases "static_index (hd tx) (n_static n)") auto
  then show ?case
  proof cases
    case Nil
    then have "k n = (r, n')"
      using 1(4) by (simp add: insertStatic.simps [of "[]"])
    then show ?thesis
      using Nil k [OF 1(2)] 1(2) by (intro conjI exI [of _ n]) auto
  next
    case New
    let ?m = "Node tx None [] None None []"
    obtain leaf where leaf: "k ?m = (r, leaf)" and n': "n' = set_static (n_static n @ [leaf]) n"
      using 1(4) New by (auto simp: insertStatic.simps [of tx] split: prod.splits)
    have ok: "wf_node leaf" "n_prefix leaf = tx"
      using k [of ?m] leaf by auto
    have "obs n (map Ch tx @ q) = no_view" for q
      using New by (cases tx) (auto simp: obs_Ch staticChild_def)
    then show ?thesis
      using 1 New ok leaf n' insertStatic_new_leaf [OF 1(2) New(2,1) ok]
      by (intro conjI exI [of _ ?m]) (auto intro: wf_append_static)
  next
    case (Old i)
    let ?c = "n_static n ! i"
    define cp where "cp = commonPrefixLen (n_prefix ?c) tx"
    define c1 where "c1 = (if cp < length (n_prefix ?c) then split_node cp ?c else ?c)"
    note i = static_index_SomeD [OF Old(2)]
    have cp: "0 < cp" "cp \<le> length (n_prefix ?c)" "cp \<le> length tx"
      using commonPrefixLen_pos [of "n_prefix ?c" tx] i Old(1) by (auto simp: cp_def)
    have pre1: "n_prefix c1 = take cp tx"
      using cp commonPrefixLen_take [of "n_prefix ?c" tx] by (auto simp: c1_def cp_def)
    have wf1: "wf_node c1"
      using 1(2) i cp by (auto simp: c1_def wf_node_iff [of n] intro!: wf_split_node)
    have enter1: "q \<noteq> [] \<Longrightarrow> enter c1 q = enter ?c q" for q
      using cp by (simp add: c1_def enter_split_node)
    obtain c2 where c2: "insertStatic (drop cp tx) k c1 = (r, c2)"
      and n': "n' = set_static ((n_static n)[i := c2]) n"
      using 1(4) Old by (auto simp: insertStatic.simps [of tx] Let_def c1_def cp_def
          split: prod.splits cong: if_cong)
    obtain m where ok: "wf_node c2" "n_prefix c2 = take cp tx" and m: "wf_node m" "r = fst (k m)"
      and obs_m: "\<And>q. obs m q = obs c1 (map Ch (drop cp tx) @ q)"
      and obs_c2: "\<And>q. obs c2 q = (if take (length tx - cp) q = map Ch (drop cp tx)
          then obs (snd (k m)) (drop (length tx - cp) q) else obs c1 q)"
      using 1(1) [OF Old refl cp_def c1_def wf1 1(3) c2] pre1 cp(3) by auto
    note n_child = child_reads [OF Old(2) enter1]
    have "obs m q = obs n (map Ch tx @ q)" for q
      by (rule descent_reads [OF Old(1) pre1 n_child obs_m])
    moreover have "obs n' q = (if take (length tx) q = map Ch tx
        then obs (snd (k m)) (drop (length tx) q) else obs n q)" for q
      unfolding n' by (rule replacement_reads [OF Old cp(1,3) pre1 n_child ok(2) obs_c2])
    ultimately show ?thesis
      using n' m ok 1(2) i cp(1) Old(1)
      by (intro conjI exI [of _ m]) (auto intro!: wf_update_static)
  qed
qed

section \<open>What a pattern adds, and when it may\<close>

abbreviation hnd :: "'h view \<Rightarrow> 'h option" where
  "hnd v \<equiv> fst v"

abbreviation pnm :: "'h view \<Rightarrow> string option" where
  "pnm v \<equiv> fst (snd v)"

abbreviation wnm :: "'h view \<Rightarrow> string option" where
  "wnm v \<equiv> snd (snd v)"

fun compatible :: "(tok list \<Rightarrow> 'h view) \<Rightarrow> tok list \<Rightarrow> bool" where
  "compatible V [] \<longleftrightarrow> hnd (V []) = None"
| "compatible V (Ch c # ts) \<longleftrightarrow> compatible (\<lambda>q. V (Ch c # q)) ts"
| "compatible V (Par x # ts) \<longleftrightarrow>
     (pnm (V []) = None \<or> pnm (V []) = Some x) \<and> compatible (\<lambda>q. V (Par x # q)) ts"
| "compatible V (Wild x # ts) \<longleftrightarrow>
     (wnm (V []) = None \<or> wnm (V []) = Some x) \<and> compatible (\<lambda>q. V (Wild x # q)) ts"

fun mark_tok :: "tok \<Rightarrow> 'h view \<Rightarrow> 'h view" where
  "mark_tok (Ch c) v = v"
| "mark_tok (Par x) v = (hnd v, Some x, wnm v)"
| "mark_tok (Wild x) v = (hnd v, pnm v, Some x)"

fun declares :: "(tok list \<Rightarrow> 'h view) \<Rightarrow> tok list \<Rightarrow> 'h \<Rightarrow> tok list \<Rightarrow> 'h view" where
  "declares V [] h = V([] := (Some h, snd (V [])))"
| "declares V (t # ts) h =
     (\<lambda>q. case q of
        [] \<Rightarrow> mark_tok t (V [])
      | t' # q' \<Rightarrow> if t' = t then declares (\<lambda>q. V (t # q)) ts h q' else V q)"

text \<open>A failed insertion may leave capture nodes behind, but no route.\<close>

definition grows :: "(tok list \<Rightarrow> 'h view) \<Rightarrow> (tok list \<Rightarrow> 'h view) \<Rightarrow> bool" where
  "grows V V' \<longleftrightarrow> (\<forall>q. hnd (V' q) = hnd (V q)
     \<and> (pnm (V q) = None \<or> pnm (V' q) = pnm (V q)) \<and> (wnm (V q) = None \<or> wnm (V' q) = wnm (V q)))"

lemma grows_refl [simp]: "grows V V"
  by (simp add: grows_def)

lemma compatible_static:
  "compatible V (map Ch t @ ts) \<longleftrightarrow> compatible (\<lambda>q. V (map Ch t @ q)) ts"
  by (induction t arbitrary: V) auto

lemma declares_static:
  "declares V (map Ch t @ ts) h q =
     (if take (length t) q = map Ch t
      then declares (\<lambda>q. V (map Ch t @ q)) ts h (drop (length t) q) else V q)"
proof (induction t arbitrary: V q)
  case (Cons c t)
  then show ?case by (cases q) auto
qed simp

lemma view_updates [simp]:
  "view (set_handler h n) = (Some h, snd (view n))"
  "view (set_param c n) = (hnd (view n), Some (n_name c), wnm (view n))"
  "view (set_wildcard c n) = (hnd (view n), pnm (view n), Some (n_name c))"
  "n_param (set_handler h n) = n_param n" "n_wildcard (set_handler h n) = n_wildcard n"
  "n_param (set_wildcard c n) = n_param n" "n_wildcard (set_param c n) = n_wildcard n"
  "n_param (set_param c n) = Some c" "n_wildcard (set_wildcard c n) = Some c"
  by (simp_all add: view_def set_handler_def set_param_def set_wildcard_def)

lemma obs_set_handler: "obs (set_handler h n) = (obs n)([] := (Some h, snd (obs n [])))"
proof
  fix q show "obs (set_handler h n) q = ((obs n)([] := (Some h, snd (obs n [])))) q"
    by (cases q rule: tok_list_cases) (auto simp: obs_Ch)
qed

lemma obs_set_param:
  "obs (set_param c n) q =
     (case q of
        [] \<Rightarrow> (hnd (obs n []), Some (n_name c), wnm (obs n []))
      | Par y # q' \<Rightarrow> if y = n_name c then obs c q' else no_view
      | _ \<Rightarrow> obs n q)"
  by (cases q rule: tok_list_cases) (auto simp: obs_Ch)

lemma obs_set_wildcard:
  "obs (set_wildcard c n) q =
     (case q of
        [] \<Rightarrow> (hnd (obs n []), pnm (obs n []), Some (n_name c))
      | Wild y # q' \<Rightarrow> if y = n_name c then obs c q' else no_view
      | _ \<Rightarrow> obs n q)"
  by (cases q rule: tok_list_cases) (auto simp: obs_Ch)

lemma view_sel: "pnm (view n) = map_option n_name (n_param n)"
  "wnm (view n) = map_option n_name (n_wildcard n)"
  "hnd (view n) = n_handler n"
  by (simp_all add: view_def)

text \<open>The outcome of an insertion, stated over the observations before and after.\<close>

definition insert_outcome ::
  "'h node \<Rightarrow> segment list \<Rightarrow> 'h \<Rightarrow> insert_error option \<times> 'h node \<Rightarrow> bool"
where
  "insert_outcome n ss h res \<longleftrightarrow>
     wf_node (snd res) \<and> n_prefix (snd res) = n_prefix n \<and> n_name (snd res) = n_name n
     \<and> (fst res = None \<longleftrightarrow> compatible (obs n) (toks ss))
     \<and> (fst res = Some ErrDuplicate \<longleftrightarrow> hnd (obs n (toks ss)) \<noteq> None)
     \<and> (if fst res = None then obs (snd res) = declares (obs n) (toks ss) h
        else grows (obs n) (obs (snd res)))"

lemma keeps_shape_outcome:
  "(\<And>m. wf_node m \<Longrightarrow> insert_outcome m ss h (k m)) \<Longrightarrow> keeps_shape k"
  by (simp add: keeps_shape_def insert_outcome_def)

lemma outcome_static:
  assumes wf: "wf_node n" and k: "\<And>m. wf_node m \<Longrightarrow> insert_outcome m ss h (k m)"
  shows "insert_outcome n (Segment segStatic t # ss) h (insertStatic t k n)"
proof -
  obtain r n' where res: "insertStatic t k n = (r, n')"
    by (cases "insertStatic t k n")
  obtain m where shape: "wf_node n'" "n_prefix n' = n_prefix n" "n_name n' = n_name n"
    and m: "wf_node m" "r = fst (k m)" "obs m = (\<lambda>q. obs n (map Ch t @ q))"
    and obs': "\<And>q. obs n' q = (if take (length t) q = map Ch t
       then obs (snd (k m)) (drop (length t) q) else obs n q)"
    using insertStatic_spec [OF wf keeps_shape_outcome [of ss h k, OF k] res] by fastforce
  have "grows (obs n) (obs n')" if "grows (obs m) (obs (snd (k m)))"
    unfolding grows_def
  proof
    fix q
    have "q = map Ch t @ drop (length t) q" if "take (length t) q = map Ch t"
      using that by (metis append_take_drop_id)
    then show "hnd (obs n' q) = hnd (obs n q) \<and> (pnm (obs n q) = None \<or> pnm (obs n' q) = pnm (obs n q))
       \<and> (wnm (obs n q) = None \<or> wnm (obs n' q) = wnm (obs n q))"
      using that [unfolded grows_def, rule_format, of "drop (length t) q"] m(3) by (auto simp: obs')
  qed
  moreover have "obs n' = declares (obs n) (map Ch t @ toks ss) h"
    if "obs (snd (k m)) = declares (obs m) (toks ss) h"
    using that m(3) by (auto simp: obs' declares_static)
  ultimately show ?thesis
    using k [OF m(1)] shape m res by (auto simp: insert_outcome_def compatible_static)
qed

text \<open>
  Descending into the parameter child \<open>c\<close>, which is either there already or fresh.
\<close>

lemma outcome_param:
  assumes wf: "wf_node n" and c: "n_name c = x" "obs c = (\<lambda>q. obs n (Par x # q))"
    and pn: "pnm (view n) = None \<or> pnm (view n) = Some x"
    and c': "insert_outcome c ss h (r, c')"
  shows "insert_outcome n (Segment segParam x # ss) h (r, set_param c' n)"
proof -
  have other: "y \<noteq> x \<Longrightarrow> obs n (Par y # q) = no_view" for y q
    using pn by (auto simp: view_sel split: option.splits)
  have name: "n_name c' = x" "wf_node c'"
    using c c' by (auto simp: insert_outcome_def)
  have "obs (set_param c' n) = declares (obs n) (Par x # toks ss) h"
    if "obs c' = declares (obs c) (toks ss) h"
    using that c(2) name other
    by (auto simp: fun_eq_iff obs_set_param split: list.splits tok.splits)
  moreover have "grows (obs n) (obs (set_param c' n))" if "grows (obs c) (obs c')"
    using that c(2) name pn other
    by (auto simp: grows_def obs_set_param split: list.splits tok.splits)
  ultimately show ?thesis
    using wf c c' pn name by (auto simp: insert_outcome_def intro: wf_set_param)
qed

lemma outcome_wildcard:
  assumes wf: "wf_node n" and c: "n_name c = x" "obs c = (\<lambda>q. obs n (Wild x # q))"
    and pn: "wnm (view n) = None \<or> wnm (view n) = Some x"
    and c': "insert_outcome c ss h (r, c')"
  shows "insert_outcome n (Segment segWildcard x # ss) h (r, set_wildcard c' n)"
proof -
  have other: "y \<noteq> x \<Longrightarrow> obs n (Wild y # q) = no_view" for y q
    using pn by (auto simp: view_sel split: option.splits)
  have name: "n_name c' = x" "wf_node c'"
    using c c' by (auto simp: insert_outcome_def)
  have "obs (set_wildcard c' n) = declares (obs n) (Wild x # toks ss) h"
    if "obs c' = declares (obs c) (toks ss) h"
    using that c(2) name other
    by (auto simp: fun_eq_iff obs_set_wildcard split: list.splits tok.splits)
  moreover have "grows (obs n) (obs (set_wildcard c' n))" if "grows (obs c) (obs c')"
    using that c(2) name pn other
    by (auto simp: grows_def obs_set_wildcard split: list.splits tok.splits)
  ultimately show ?thesis
    using wf c c' pn name by (auto simp: insert_outcome_def intro: wf_set_wildcard)
qed

lemma insert_walk_outcome: "wf_node n \<Longrightarrow> insert_outcome n ss h (insert_walk pattern ss h n)"
proof (induction pattern ss h n rule: insert_walk.induct)
  case (1 pattern h n)
  then show ?case
    by (auto simp: insert_outcome_def obs_set_handler view_sel)
next
  case (2 pattern t ss h n)
  then show ?case
    by (simp add: outcome_static)
next
  case (3 pattern x ss h n)
  consider (New) "n_param n = None" | (Same) c where "n_param n = Some c" "n_name c = x"
    | (Conflict) c where "n_param n = Some c" "n_name c \<noteq> x"
    by (cases "n_param n") auto
  then show ?case
  proof cases
    case New
    then show ?thesis
      using 3 by (auto simp: view_sel split: prod.split intro!: outcome_param)
  next
    case Same
    then show ?thesis
      using 3 by (auto simp: view_sel wf_node_iff [of n] split: prod.split intro!: outcome_param)
  next
    case Conflict
    then show ?thesis
      using 3 by (auto simp: insert_outcome_def view_sel)
  qed
next
  case (4 pattern x ss h n)
  consider (New) "n_wildcard n = None" | (Same) c where "n_wildcard n = Some c" "n_name c = x"
    | (Conflict) c where "n_wildcard n = Some c" "n_name c \<noteq> x"
    by (cases "n_wildcard n") auto
  then show ?case
  proof cases
    case New
    then show ?thesis
      using 4 by (auto simp: view_sel split: prod.split intro!: outcome_wildcard)
  next
    case Same
    then show ?thesis
      using 4 by (auto simp: view_sel wf_node_iff [of n] split: prod.split intro!: outcome_wildcard)
  next
    case Conflict
    then show ?thesis
      using 4 by (auto simp: insert_outcome_def view_sel)
  qed
qed

section \<open>Consequences\<close>

lemma hnd_mark [simp]: "hnd (mark_tok t v) = hnd v"
  by (cases t) auto

lemma hnd_declares: "hnd (declares V ts h q) = (if q = ts then Some h else hnd (V q))"
proof (induction ts arbitrary: V q)
  case (Cons t ts)
  then show ?case by (cases q) auto
qed simp

text \<open>
  \<open>below\<close> compares two tables by what they constrain, whatever the handlers are: the
  table that constrains less accepts whatever the other accepts.
\<close>

definition below :: "(tok list \<Rightarrow> 'h view) \<Rightarrow> (tok list \<Rightarrow> 'g view) \<Rightarrow> bool" where
  "below V W \<longleftrightarrow> (\<forall>q. (hnd (V q) = None \<or> hnd (W q) \<noteq> None)
     \<and> (pnm (V q) = None \<or> pnm (W q) = pnm (V q)) \<and> (wnm (V q) = None \<or> wnm (W q) = wnm (V q)))"

lemma below_empty [simp]: "below (\<lambda>q. no_view) W"
  by (simp add: below_def)

lemma below_shift: "below V W \<Longrightarrow> below (\<lambda>q. V (t # q)) (\<lambda>q. W (t # q))"
  by (simp add: below_def)

lemma belowD:
  assumes "below V W"
  shows "hnd (V q) = None \<or> hnd (W q) \<noteq> None" "pnm (V q) = None \<or> pnm (W q) = pnm (V q)"
    "wnm (V q) = None \<or> wnm (W q) = wnm (V q)"
  using assms by (auto simp: below_def)

lemma compatible_below: "below V W \<Longrightarrow> compatible W ts \<Longrightarrow> compatible V ts"
proof (induction ts arbitrary: V W)
  case (Cons t ts)
  have "compatible (\<lambda>q. V (t # q)) ts" if "compatible (\<lambda>q. W (t # q)) ts"
    using Cons.IH [OF below_shift [OF Cons.prems(1)]] that .
  then show ?case
    using Cons.prems(2) belowD [OF Cons.prems(1), of "[]"] by (cases t) auto
qed (auto dest: belowD)

lemma below_declares:
  assumes "below V W"
  shows "below (declares V ts h) (declares W ts h')"
  using assms
proof (induction ts arbitrary: V W)
  case (Cons t ts)
  have "below (declares (\<lambda>q. V (t # q)) ts h) (declares (\<lambda>q. W (t # q)) ts h')"
    by (rule Cons.IH [OF below_shift [OF Cons.prems]])
  note rec = belowD [OF this] and V = belowD [OF Cons.prems]
  show ?case
    unfolding below_def
  proof
    fix q show "(hnd (declares V (t # ts) h q) = None \<or> hnd (declares W (t # ts) h' q) \<noteq> None)
      \<and> (pnm (declares V (t # ts) h q) = None
         \<or> pnm (declares W (t # ts) h' q) = pnm (declares V (t # ts) h q))
      \<and> (wnm (declares V (t # ts) h q) = None
         \<or> wnm (declares W (t # ts) h' q) = wnm (declares V (t # ts) h q))"
    proof (cases q)
      case Nil
      then show ?thesis using V [of "[]"] by (cases t) auto
    next
      case (Cons t' q')
      then show ?thesis using rec [of q'] V [of q] by auto
    qed
  qed
qed (auto simp: below_def)

lemma below_grows:
  assumes "below V W" "grows W W'"
  shows "below V W'"
  unfolding below_def
proof
  fix q show "(hnd (V q) = None \<or> hnd (W' q) \<noteq> None)
     \<and> (pnm (V q) = None \<or> pnm (W' q) = pnm (V q)) \<and> (wnm (V q) = None \<or> wnm (W' q) = wnm (V q))"
    using belowD [OF assms(1), of q] assms(2) [unfolded grows_def, rule_format, of q] by auto
qed

end
