(* ===== verification/Radix_Lookup.thy ===== *)
theory Radix_Lookup
  imports Radix_Insert
begin

text \<open>
  What the lookup returns. \<open>match\<close> says, token by token, whether a pattern matches
  a path and what it captures; \<open>prior\<close> is the priority ADR-0004 fixes, static before
  parameter before wildcard at the first token where two patterns differ. The lookup
  is first freed of its parameter buffer (\<open>find_route\<close>), through the laws of the
  \<open>param_buffer\<close> interface, and then proved to return the best matching route.
\<close>

section \<open>Matching and priority\<close>

fun match :: "tok list \<Rightarrow> bytes \<Rightarrow> Param list option" where
  "match [] path = (if path = [] then Some [] else None)"
| "match (Ch c # ts) path =
     (case path of [] \<Rightarrow> None | b # path' \<Rightarrow> if b = c then match ts path' else None)"
| "match (Par x # ts) path =
     (let seg = takeWhile (\<lambda>b. b \<noteq> CHR ''/'') path
      in if seg = [] then None
         else map_option ((#) \<lparr>Key = x, Value = seg\<rparr>)
                (match ts (dropWhile (\<lambda>b. b \<noteq> CHR ''/'') path)))"
| "match (Wild x # ts) path =
     (if ts = [] \<and> path \<noteq> [] then Some [\<lparr>Key = x, Value = path\<rparr>] else None)"

instantiation segKind :: linorder
begin

fun less_eq_segKind :: "segKind \<Rightarrow> segKind \<Rightarrow> bool" where
  "less_eq_segKind segStatic _ = True"
| "less_eq_segKind segParam k = (k \<noteq> segStatic)"
| "less_eq_segKind segWildcard k = (k = segWildcard)"

definition less_segKind :: "segKind \<Rightarrow> segKind \<Rightarrow> bool" where
  "less_segKind a b \<longleftrightarrow> a \<le> b \<and> \<not> b \<le> a"

instance
proof
  fix x y z :: segKind
  show "x < y \<longleftrightarrow> x \<le> y \<and> \<not> y \<le> x" by (simp add: less_segKind_def)
  show "x \<le> x" by (cases x) auto
  show "x \<le> y \<Longrightarrow> y \<le> z \<Longrightarrow> x \<le> z" by (cases x; cases y; cases z) auto
  show "x \<le> y \<Longrightarrow> y \<le> x \<Longrightarrow> x = y" by (cases x; cases y) auto
  show "x \<le> y \<or> y \<le> x" by (cases x; cases y) auto
qed

end

fun tok_kind :: "tok \<Rightarrow> segKind" where
  "tok_kind (Ch _) = segStatic"
| "tok_kind (Par _) = segParam"
| "tok_kind (Wild _) = segWildcard"

fun prior :: "tok list \<Rightarrow> tok list \<Rightarrow> bool" where
  "prior (a # as) (b # bs) \<longleftrightarrow> (if a = b then prior as bs else tok_kind a < tok_kind b)"
| "prior [] [] \<longleftrightarrow> True"
| "prior _ _ \<longleftrightarrow> False"

lemma kind_less [simp]:
  "segStatic < segParam" "segStatic < segWildcard" "segParam < segWildcard"
  by (simp_all add: less_segKind_def)

lemma match_static:
  "match (map Ch p @ ts) path =
     (if take (length p) path = p then match ts (drop (length p) path) else None)"
proof (induction p arbitrary: path)
  case (Cons c p)
  then show ?case by (cases path) auto
qed simp

lemma match_first_byte:
  assumes "match (Ch c # ts) path \<noteq> None"
  shows "path \<noteq> [] \<and> c = hd path"
  using assms by (auto split: list.splits if_splits)

lemma match_empty_path [simp]: "match ts [] = (if ts = [] then Some [] else None)"
  by (cases ts rule: tok_list_cases) auto

lemma append_single [simp]: "(@) [x] = (#) x"
  by (simp add: fun_eq_iff)

lemma prior_static [simp]: "prior (map Ch p @ as) (map Ch p @ bs) \<longleftrightarrow> prior as bs"
  by (induction p) auto

section \<open>The lookup without its buffer\<close>

function find_route :: "'h node \<Rightarrow> bytes \<Rightarrow> ('h \<times> Param list) option" where
  "find_route n path =
     (if path = [] then None
      else
        case (case staticChild n (hd path) of
                None \<Rightarrow> None
              | Some child \<Rightarrow>
                  if take (length (n_prefix child)) path = n_prefix child
                  then let rest = drop (length (n_prefix child)) path
                       in if rest = [] then map_option (\<lambda>h. (h, [])) (n_handler child)
                          else find_route child rest
                  else None) of
          Some r \<Rightarrow> Some r
        | None \<Rightarrow>
            (case (case n_param n of
                     None \<Rightarrow> None
                   | Some c \<Rightarrow>
                       let seg = takeWhile (\<lambda>b. b \<noteq> CHR ''/'') path;
                           rest = dropWhile (\<lambda>b. b \<noteq> CHR ''/'') path
                       in if seg = [] then None
                          else map_option (\<lambda>(h, cs). (h, \<lparr>Key = n_name c, Value = seg\<rparr> # cs))
                            (if rest = [] then map_option (\<lambda>h. (h, [])) (n_handler c)
                             else find_route c rest)) of
               Some r \<Rightarrow> Some r
             | None \<Rightarrow>
                 (case n_wildcard n of
                    None \<Rightarrow> None
                  | Some w \<Rightarrow>
                      map_option (\<lambda>h. (h, [\<lparr>Key = n_name w, Value = path\<rparr>])) (n_handler w))))"
  by pat_completeness auto
termination
proof (relation "measure (\<lambda>(_, path). length path)", goal_cases)
  case (2 n path child)
  then show ?case
    by (auto dest!: staticChild_SomeD(2))
next
  case (3 n path c seg rest)
  then show ?case
    by (cases path) (auto simp: le_imp_less_Suc length_dropWhile_le split: if_splits)
qed auto

declare find_route.simps [simp del]

section \<open>The three attempts of one lookup step\<close>

text \<open>
  The static, parameter and wildcard attempts, once over the buffer (with the
  recursive lookup as an argument) and once without it.
\<close>

definition try_static ::
  "('h node \<Rightarrow> bytes \<Rightarrow> Params \<Rightarrow> 'h option \<times> Params) \<Rightarrow> 'h node \<Rightarrow> bytes \<Rightarrow> Params \<Rightarrow>
   'h option \<times> Params"
where
  "try_static lk n path params =
     (case staticChild n (hd path) of
        None \<Rightarrow> (None, params)
      | Some child \<Rightarrow>
          if length (n_prefix child) \<le> length path
             \<and> take (length (n_prefix child)) path = n_prefix child
          then
            let rest = drop (length (n_prefix child)) path
            in if rest = [] then (n_handler child, params) else lk child rest params
          else (None, params))"

definition try_param ::
  "('h node \<Rightarrow> bytes \<Rightarrow> Params \<Rightarrow> 'h option \<times> Params) \<Rightarrow> 'h node \<Rightarrow> bytes \<Rightarrow> Params \<Rightarrow>
   'h option \<times> Params"
where
  "try_param lk n path params =
     (case n_param n of
        None \<Rightarrow> (None, params)
      | Some c \<Rightarrow>
          let seg = takeWhile (\<lambda>b. b \<noteq> CHR ''/'') path
          in if seg \<noteq> [] then
               let saved = Len params;
                   captured = add params (n_name c) seg;
                   rest = drop (length seg) path;
                   (r, params') = (if rest = [] then (n_handler c, captured) else lk c rest captured)
               in if r \<noteq> None then (r, params') else (None, ptruncate params' saved)
             else (None, params))"

definition try_wildcard :: "'h node \<Rightarrow> bytes \<Rightarrow> Params \<Rightarrow> 'h option \<times> Params" where
  "try_wildcard n path params =
     (case n_wildcard n of
        None \<Rightarrow> (None, params)
      | Some w \<Rightarrow>
          let saved = Len params;
              captured = add params (n_name w) path
          in if n_handler w \<noteq> None then (n_handler w, captured)
             else (None, ptruncate captured saved))"

definition find_static :: "'h node \<Rightarrow> bytes \<Rightarrow> ('h \<times> Param list) option" where
  "find_static n path =
     (case staticChild n (hd path) of
        None \<Rightarrow> None
      | Some child \<Rightarrow>
          if take (length (n_prefix child)) path = n_prefix child
          then if drop (length (n_prefix child)) path = []
               then map_option (\<lambda>h. (h, [])) (n_handler child)
               else find_route child (drop (length (n_prefix child)) path)
          else None)"

definition find_param :: "'h node \<Rightarrow> bytes \<Rightarrow> ('h \<times> Param list) option" where
  "find_param n path =
     (case n_param n of
        None \<Rightarrow> None
      | Some c \<Rightarrow>
          let seg = takeWhile (\<lambda>b. b \<noteq> CHR ''/'') path;
              rest = dropWhile (\<lambda>b. b \<noteq> CHR ''/'') path
          in if seg = [] then None
             else map_option (\<lambda>(h, cs). (h, \<lparr>Key = n_name c, Value = seg\<rparr> # cs))
               (if rest = [] then map_option (\<lambda>h. (h, [])) (n_handler c) else find_route c rest))"

definition find_wildcard :: "'h node \<Rightarrow> bytes \<Rightarrow> ('h \<times> Param list) option" where
  "find_wildcard n path =
     (case n_wildcard n of
        None \<Rightarrow> None
      | Some w \<Rightarrow> map_option (\<lambda>h. (h, [\<lparr>Key = n_name w, Value = path\<rparr>])) (n_handler w))"

lemma take_eq_length: "take (length p) path = p \<Longrightarrow> length p \<le> length path"
  by (metis length_take min.cobounded1)

lemma drop_length_takeWhile: "drop (length (takeWhile P xs)) xs = dropWhile P xs"
  by (rule dropWhile_eq_drop [symmetric])

lemma node_lookup_step:
  assumes "path \<noteq> []"
  shows "node_lookup n path params =
    (let (r1, p1) = try_static node_lookup n path params
     in if r1 \<noteq> None then (r1, p1)
        else let (r2, p2) = try_param node_lookup n path p1
             in if r2 \<noteq> None then (r2, p2) else try_wildcard n path p2)"
  using assms
  by (subst node_lookup.simps) (simp only: try_static_def try_param_def try_wildcard_def if_False)

lemma find_route_step:
  assumes "path \<noteq> []"
  shows "find_route n path =
    (case find_static n path of
       Some r \<Rightarrow> Some r
     | None \<Rightarrow> (case find_param n path of Some r \<Rightarrow> Some r | None \<Rightarrow> find_wildcard n path))"
  using assms
  by (subst find_route.simps)
    (simp only: find_static_def find_param_def find_wildcard_def Let_def if_False)

section \<open>The buffer agrees with the captures\<close>

definition agrees :: "Params \<Rightarrow> 'h option \<times> Params \<Rightarrow> ('h \<times> Param list) option \<Rightarrow> bool" where
  "agrees params res found \<longleftrightarrow> clean (snd res) \<and>
     (case found of
        None \<Rightarrow> fst res = None \<and> entries (snd res) = entries params
      | Some (h, cs) \<Rightarrow> fst res = Some h \<and> entries (snd res) = entries params @ cs)"

lemma agrees_trans_None:
  "agrees p (None, q) None \<Longrightarrow> agrees q res found \<Longrightarrow> agrees p res found"
  by (auto simp: agrees_def split: option.splits)

lemma agrees_here [simp]:
  "clean p \<Longrightarrow> agrees p (None, p) None"
  "clean p \<Longrightarrow> agrees p (r, p) (map_option (\<lambda>h. (h, [])) r)"
  by (auto simp: agrees_def split: option.splits)

lemma agrees_static:
  assumes "clean p"
    and "\<And>c rest. staticChild n (hd path) = Some c \<Longrightarrow> rest = drop (length (n_prefix c)) path \<Longrightarrow>
       length rest < length path \<Longrightarrow> agrees p (node_lookup c rest p) (find_route c rest)"
    and "path \<noteq> []"
  shows "agrees p (try_static node_lookup n path p) (find_static n path)"
proof (cases "staticChild n (hd path)")
  case (Some c)
  then have "length (drop (length (n_prefix c)) path) < length path"
    using assms(3) by (auto dest!: staticChild_SomeD(2))
  then show ?thesis
    using Some assms(1,2) by (simp add: try_static_def find_static_def Let_def take_eq_length)
qed (use assms(1) in \<open>simp add: try_static_def find_static_def\<close>)

lemma agrees_wildcard:
  assumes "clean p"
  shows "agrees p (try_wildcard n path p) (find_wildcard n path)"
  using assms pb.rollback_put [OF assms]
  by (auto simp: try_wildcard_def find_wildcard_def agrees_def Let_def pb.ents_put pb.invar_put
      split: option.splits)

lemma agrees_param:
  assumes "clean p"
    and IH: "\<And>c rest q. n_param n = Some c \<Longrightarrow> rest = dropWhile (\<lambda>b. b \<noteq> CHR ''/'') path \<Longrightarrow>
       rest \<noteq> [] \<Longrightarrow> length rest < length path \<Longrightarrow> clean q \<Longrightarrow>
       agrees q (node_lookup c rest q) (find_route c rest)"
  shows "agrees p (try_param node_lookup n path p) (find_param n path)"
proof (cases "n_param n")
  case (Some c)
  define seg where "seg = takeWhile (\<lambda>b. b \<noteq> CHR ''/'') path"
  define rest where "rest = dropWhile (\<lambda>b. b \<noteq> CHR ''/'') path"
  show ?thesis
  proof (cases "seg = []")
    case False
    let ?q = "add p (n_name c) seg"
    let ?res = "if rest = [] then (n_handler c, ?q) else node_lookup c rest ?q"
    let ?found = "if rest = [] then map_option (\<lambda>h. (h, [])) (n_handler c) else find_route c rest"
    have "length path = length seg + length rest"
      unfolding seg_def rest_def by (metis length_append takeWhile_dropWhile_id)
    then have ok: "agrees ?q ?res ?found"
      using False Some IH [OF Some rest_def] assms(1) pb.invar_put [OF assms(1)]
      by (auto simp: agrees_def split: option.splits)
    obtain r q' where res: "?res = (r, q')" by (cases ?res)
    have rest: "drop (length seg) path = rest"
      by (simp add: seg_def rest_def drop_length_takeWhile)
    have tp: "try_param node_lookup n path p =
        (if r \<noteq> None then (r, q') else (None, ptruncate q' (Len p)))"
      unfolding try_param_def Let_def seg_def [symmetric] rest
      using False Some by (simp only: res option.case prod.case if_True not_False_eq_True)
    have fp: "find_param n path = map_option (\<lambda>(h, cs). (h, \<lparr>Key = n_name c, Value = seg\<rparr> # cs)) ?found"
      unfolding find_param_def Let_def seg_def [symmetric] rest_def [symmetric]
      using False Some by (simp only: option.case if_False)
    show ?thesis
    proof (cases ?found)
      case None
      then have "r = None" "clean q'" "entries q' = entries p @ [\<lparr>Key = n_name c, Value = seg\<rparr>]"
        using ok by (auto simp: agrees_def res pb.ents_put [OF assms(1)])
      then show ?thesis
        using pb.rollback [OF assms(1)] by (simp add: tp fp None agrees_def)
    next
      case (Some hc)
      then show ?thesis
        using ok by (cases hc) (auto simp: tp fp agrees_def res pb.ents_put [OF assms(1)])
    qed
  qed (use Some assms(1) in \<open>simp add: try_param_def find_param_def agrees_def seg_def\<close>)
qed (use assms(1) in \<open>simp add: try_param_def find_param_def agrees_def\<close>)

text \<open>
  On a hit the buffer holds what it held before and then the captures; on a miss it
  reads as it did before.
\<close>

lemma node_lookup_agrees:
  "clean p \<Longrightarrow> agrees p (node_lookup n path p) (find_route n path)"
proof (induction "length path" arbitrary: n path p rule: less_induct)
  case less
  show ?case
  proof (cases "path = []")
    case True
    then show ?thesis
      using less.prems by (simp add: node_lookup.simps find_route.simps)
  next
    case False
    obtain r1 p1 where s: "try_static node_lookup n path p = (r1, p1)" by fastforce
    have a1: "agrees p (r1, p1) (find_static n path)"
      using agrees_static [of p n path] less False by (simp add: s)
    then have p1: "clean p1" by (simp add: agrees_def)
    obtain r2 p2 where t: "try_param node_lookup n path p1 = (r2, p2)" by fastforce
    have a2: "agrees p1 (r2, p2) (find_param n path)"
      using agrees_param [OF p1, of n path] less by (simp add: t)
    then have p2: "clean p2" by (simp add: agrees_def)
    show ?thesis
      using a1 a2 agrees_wildcard [OF p2, of n path] False
      by (auto simp: node_lookup_step find_route_step s t agrees_def split: option.splits)
  qed
qed

section \<open>The lookup returns the best matching route\<close>

abbreviation route_at :: "'h node \<Rightarrow> tok list \<Rightarrow> 'h option" where
  "route_at n ts \<equiv> hnd (obs n ts)"

text \<open>
  \<open>best R path ts\<close>: among the routes \<open>R\<close>, the pattern \<open>ts\<close> matches \<open>path\<close> and comes
  before every other pattern that does.
\<close>

definition best ::
  "(tok list \<Rightarrow> 'h option) \<Rightarrow> bytes \<Rightarrow> tok list \<Rightarrow> 'h \<Rightarrow> Param list \<Rightarrow> bool"
where
  "best R path ts h cs \<longleftrightarrow> R ts = Some h \<and> match ts path = Some cs
     \<and> (\<forall>ts'. R ts' \<noteq> None \<longrightarrow> match ts' path \<noteq> None \<longrightarrow> prior ts ts')"

definition answers ::
  "(tok list \<Rightarrow> 'h option) \<Rightarrow> bytes \<Rightarrow> ('h \<times> Param list) option \<Rightarrow> bool"
where
  "answers R path found \<longleftrightarrow>
     (case found of
        None \<Rightarrow> \<forall>ts. R ts = None \<or> match ts path = None
      | Some (h, cs) \<Rightarrow> \<exists>ts. best R path ts h cs)"

text \<open>The routes whose first token has a given kind.\<close>

definition of_kind :: "segKind \<Rightarrow> (tok list \<Rightarrow> 'h option) \<Rightarrow> tok list \<Rightarrow> 'h option" where
  "of_kind k R ts = (case ts of [] \<Rightarrow> None | t # _ \<Rightarrow> if tok_kind t = k then R ts else None)"

lemma of_kind_SomeD:
  "of_kind k R ts = Some h \<Longrightarrow> R ts = Some h \<and> (\<exists>t ts'. ts = t # ts' \<and> tok_kind t = k)"
  by (auto simp: of_kind_def split: list.splits if_splits)

lemma of_kind_own [simp]: "of_kind (tok_kind t) R (t # ts) = R (t # ts)"
  by (simp add: of_kind_def)

text \<open>
  An answer within one kind is an answer among all routes once the kinds before it
  have none.
\<close>

lemma answers_in_kind:
  assumes "path \<noteq> []" "answers (of_kind k R) path (Some r)"
    and "\<And>k'. k' < k \<Longrightarrow> answers (of_kind k' R) path None"
  shows "answers R path (Some r)"
proof -
  obtain h cs ts where r: "r = (h, cs)" and b: "best (of_kind k R) path ts h cs"
    using assms(2) by (cases r) (auto simp: answers_def)
  then obtain t us where ts: "R ts = Some h" "match ts path = Some cs" "ts = t # us" "tok_kind t = k"
    by (auto simp: best_def dest: of_kind_SomeD)
  have "prior ts ts'" if R: "R ts' \<noteq> None" and m: "match ts' path \<noteq> None" for ts'
  proof -
    obtain t' us' where ts': "ts' = t' # us'"
      using m assms(1) by (cases ts') auto
    have of: "of_kind (tok_kind t') R ts' \<noteq> None"
      using R ts' by (simp add: of_kind_def)
    consider "tok_kind t' < k" | "tok_kind t' = k" | "k < tok_kind t'"
      by fastforce
    then show ?thesis
    proof cases
      case 1
      then show ?thesis
        using assms(3) [OF 1] of m by (auto simp: answers_def dest: spec [of _ ts'])
    next
      case 2
      then show ?thesis
        using b of m by (auto simp: best_def)
    next
      case 3
      then show ?thesis
        using ts ts' by auto
    qed
  qed
  then show ?thesis
    using r ts by (auto simp: answers_def best_def)
qed

lemma answers_no_kind:
  assumes "path \<noteq> []" "\<And>k. answers (of_kind k R) path None"
  shows "answers R path None"
proof -
  have "R ts = None" if "match ts path \<noteq> None" for ts
  proof (cases ts)
    case (Cons t us)
    then show ?thesis
      using assms(2) [of "tok_kind t"] that by (auto simp: answers_def dest: spec [of _ ts])
  qed (use that assms(1) in auto)
  then show ?thesis
    by (auto simp: answers_def)
qed

lemma answers_by_kind:
  assumes "path \<noteq> []" "answers (of_kind segStatic R) path f1"
    and "answers (of_kind segParam R) path f2" "answers (of_kind segWildcard R) path f3"
  shows "answers R path
    (case f1 of Some r \<Rightarrow> Some r | None \<Rightarrow> (case f2 of Some r \<Rightarrow> Some r | None \<Rightarrow> f3))"
proof -
  have less: "k' < k \<Longrightarrow> k = segParam \<and> k' = segStatic \<or>
      k = segWildcard \<and> (k' = segStatic \<or> k' = segParam)" for k k'
    by (cases k; cases k') (auto simp: less_segKind_def)
  show ?thesis
  proof (cases f1)
    case (Some r)
    then show ?thesis
      using assms by (auto intro: answers_in_kind [of path segStatic] dest: less)
  next
    case f1: None
    show ?thesis
    proof (cases f2)
      case (Some r)
      then show ?thesis
        using f1 assms by (auto intro: answers_in_kind [of path segParam] dest: less)
    next
      case f2: None
      show ?thesis
      proof (cases f3)
        case (Some r)
        then show ?thesis
          using f1 f2 assms by (auto intro!: answers_in_kind [of path segWildcard] dest: less)
      next
        case None
        have "answers (of_kind k R) path None" for k
          using assms None f1 f2 by (cases k) auto
        then show ?thesis
          using None f1 f2 by (simp add: answers_no_kind [OF assms(1)])
      qed
    qed
  qed
qed

text \<open>
  Answering through a child: \<open>R\<close> holds the child's routes \<open>C\<close> behind the tokens
  \<open>pre\<close>, which match the front of \<open>path\<close> and capture \<open>cs0\<close>.
\<close>

lemma answers_shift:
  assumes "answers C rest found"
    and fwd: "\<And>ts h. R ts = Some h \<Longrightarrow> match ts path \<noteq> None \<Longrightarrow>
      \<exists>us. ts = pre @ us \<and> C us = Some h"
    and bwd: "\<And>us. R (pre @ us) = C us"
    and m: "\<And>us. match (pre @ us) path = map_option (\<lambda>cs. cs0 @ cs) (match us rest)"
    and pr: "\<And>us vs. prior (pre @ us) (pre @ vs) = prior us vs"
  shows "answers R path (map_option (\<lambda>(h, cs). (h, cs0 @ cs)) found)"
proof (cases found)
  case None
  have "R ts = None" if mt: "match ts path \<noteq> None" for ts
  proof (rule ccontr)
    assume "R ts \<noteq> None"
    then obtain us where "ts = pre @ us" "C us \<noteq> None"
      using fwd mt by blast
    then show False
      using assms(1) None mt m by (auto simp: answers_def dest: spec [of _ us])
  qed
  then show ?thesis
    using None by (auto simp: answers_def)
next
  case (Some hc)
  obtain h cs where hc: "hc = (h, cs)" by fastforce
  then obtain us where us: "C us = Some h" "match us rest = Some cs"
    "\<And>vs. C vs \<noteq> None \<Longrightarrow> match vs rest \<noteq> None \<Longrightarrow> prior us vs"
    using assms(1) Some by (auto simp: answers_def best_def)
  have "prior (pre @ us) ts'" if Rt: "R ts' \<noteq> None" and mt: "match ts' path \<noteq> None" for ts'
  proof -
    obtain vs where "ts' = pre @ vs" "C vs \<noteq> None"
      using Rt fwd mt by blast
    then show ?thesis
      using mt us(3) m pr by auto
  qed
  then have "best R path (pre @ us) h (cs0 @ cs)"
    using us bwd m by (simp add: best_def)
  then show ?thesis
    using Some hc by (auto simp: answers_def)
qed

lemma route_at_Ch_SomeD:
  assumes "route_at n (Ch c # ts) = Some h"
  obtains ch us where "staticChild n c = Some ch" "Ch c # ts = map Ch (n_prefix ch) @ us"
    "route_at ch us = Some h"
proof -
  obtain ch where ch: "staticChild n c = Some ch"
    "take (length (n_prefix ch)) (Ch c # ts) = map Ch (n_prefix ch)"
    "route_at ch (drop (length (n_prefix ch)) (Ch c # ts)) = Some h"
    using assms by (auto simp: obs_Ch enter_def split: option.splits if_splits)
  moreover have "Ch c # ts = map Ch (n_prefix ch) @ drop (length (n_prefix ch)) (Ch c # ts)"
    using append_take_drop_id [of "length (n_prefix ch)" "Ch c # ts"] by (simp only: ch(2))
  ultimately show ?thesis
    using that by blast
qed

lemma route_at_static:
  assumes "staticChild n c = Some ch"
  shows "route_at n (map Ch (n_prefix ch) @ us) = route_at ch us"
proof -
  obtain p where p: "n_prefix ch = c # p"
    using staticChild_SomeD(2) [OF assms] by blast
  then show ?thesis
    using assms enter_append [of ch us] by (simp add: obs_Ch)
qed

text \<open>What a child answers for the rest of the path, empty or not.\<close>

definition found_at :: "'h node \<Rightarrow> bytes \<Rightarrow> ('h \<times> Param list) option" where
  "found_at c rest =
     (if rest = [] then map_option (\<lambda>h. (h, [])) (n_handler c) else find_route c rest)"

lemma answers_found_at:
  assumes "rest \<noteq> [] \<Longrightarrow> answers (route_at c) rest (find_route c rest)"
  shows "answers (route_at c) rest (found_at c rest)"
proof (cases "rest = []")
  case True
  then show ?thesis
    by (cases "n_handler c") (auto simp: found_at_def answers_def best_def view_sel)
qed (use assms in \<open>simp add: found_at_def\<close>)

lemma answers_find_static:
  assumes "path \<noteq> []"
    and IH: "\<And>ch rest. staticChild n (hd path) = Some ch \<Longrightarrow> length rest < length path \<Longrightarrow>
       rest \<noteq> [] \<Longrightarrow> answers (route_at ch) rest (find_route ch rest)"
  shows "answers (of_kind segStatic (route_at n)) path (find_static n path)"
proof (cases "staticChild n (hd path)")
  case None
  have "of_kind segStatic (route_at n) ts = None" if "match ts path \<noteq> None" for ts
  proof (cases ts rule: tok_list_cases)
    case (Ch c us)
    then show ?thesis
      using None that match_first_byte [of c us path] by (simp add: of_kind_def obs_Ch)
  qed (simp_all add: of_kind_def)
  then show ?thesis
    using None by (auto simp: find_static_def answers_def)
next
  case (Some ch)
  let ?p = "n_prefix ch" and ?R = "of_kind segStatic (route_at n)"
  obtain b p' where p: "?p = b # p'" "hd path = b"
    using staticChild_SomeD(2) [OF Some] by auto
  have fwd: "\<exists>us. ts = map Ch ?p @ us \<and> route_at ch us = Some h"
    if R: "?R ts = Some h" and mt: "match ts path \<noteq> None" for ts h
  proof -
    obtain c ts' where ts: "ts = Ch c # ts'" "route_at n (Ch c # ts') = Some h"
      using of_kind_SomeD [OF R] by (metis segKind.distinct(1,3) tok_kind.elims)
    then have "c = hd path"
      using mt match_first_byte by blast
    then show ?thesis
      using ts Some by (auto elim!: route_at_Ch_SomeD)
  qed
  show ?thesis
  proof (cases "take (length ?p) path = ?p")
    case True
    have "length (drop (length ?p) path) < length path"
      using assms(1) p by (cases path) auto
    then have C: "answers (route_at ch) (drop (length ?p) path) (found_at ch (drop (length ?p) path))"
      using IH [OF Some] by (intro answers_found_at) blast
    have "?R (map Ch ?p @ us) = route_at ch us" for us
      using route_at_static [OF Some] p by (simp add: of_kind_def)
    then have "answers ?R path (map_option (\<lambda>(h, cs). (h, [] @ cs)) (found_at ch (drop (length ?p) path)))"
      using True by (intro answers_shift [OF C fwd])
        (auto simp: match_static option.map_ident simp del: list.map)
    moreover have "find_static n path = found_at ch (drop (length ?p) path)"
      using Some True by (simp add: find_static_def found_at_def)
    ultimately show ?thesis
      by (simp add: option.map_id id_def [symmetric] option.map_ident)
  next
    case False
    have "?R ts = None" if "match ts path \<noteq> None" for ts
      using fwd [of ts] that False by (cases "?R ts") (auto simp: match_static)
    then show ?thesis
      using Some False by (auto simp: find_static_def answers_def)
  qed
qed

lemma answers_find_param:
  assumes "path \<noteq> []"
    and IH: "\<And>c rest. n_param n = Some c \<Longrightarrow> length rest < length path \<Longrightarrow>
       rest \<noteq> [] \<Longrightarrow> answers (route_at c) rest (find_route c rest)"
  shows "answers (of_kind segParam (route_at n)) path (find_param n path)"
proof (cases "n_param n")
  case None
  have "of_kind segParam (route_at n) ts = None" for ts
    using None by (cases ts rule: tok_list_cases) (auto simp: of_kind_def)
  then show ?thesis
    using None by (auto simp: find_param_def answers_def)
next
  case (Some c)
  let ?R = "of_kind segParam (route_at n)"
  define seg where "seg = takeWhile (\<lambda>b. b \<noteq> CHR ''/'') path"
  define rest where "rest = dropWhile (\<lambda>b. b \<noteq> CHR ''/'') path"
  have fwd: "\<exists>us. ts = [Par (n_name c)] @ us \<and> route_at c us = Some h" if R: "?R ts = Some h" for ts h
    using R Some by (cases ts rule: tok_list_cases) (auto simp: of_kind_def split: if_splits)
  have m: "match ([Par x] @ us) path =
      (if seg = [] then None else map_option (\<lambda>cs. [\<lparr>Key = x, Value = seg\<rparr>] @ cs) (match us rest))" for x us
    by (simp add: Let_def seg_def rest_def)
  show ?thesis
  proof (cases "seg = []")
    case True
    have "?R ts = None" if "match ts path \<noteq> None" for ts
      using fwd [of ts] that m True by (cases "?R ts") auto
    then show ?thesis
      using Some True by (auto simp: find_param_def answers_def seg_def)
  next
    case False
    have "length path = length seg + length rest"
      unfolding seg_def rest_def by (metis length_append takeWhile_dropWhile_id)
    then have "answers (route_at c) rest (found_at c rest)"
      using IH [OF Some] False by (intro answers_found_at) auto
    then have "answers ?R path (map_option (\<lambda>(h, cs). (h, [\<lparr>Key = n_name c, Value = seg\<rparr>] @ cs)) (found_at c rest))"
      using fwd False Some m
      by (intro answers_shift [where pre = "[Par (n_name c)]" and C = "route_at c" and rest = rest])
        (auto simp: of_kind_def)
    moreover have "find_param n path =
        map_option (\<lambda>(h, cs). (h, [\<lparr>Key = n_name c, Value = seg\<rparr>] @ cs)) (found_at c rest)"
      using Some False by (simp add: find_param_def found_at_def seg_def rest_def Let_def)
    ultimately show ?thesis
      by simp
  qed
qed

lemma answers_find_wildcard:
  assumes "path \<noteq> []"
  shows "answers (of_kind segWildcard (route_at n)) path (find_wildcard n path)"
proof -
  let ?R = "of_kind segWildcard (route_at n)"
  have only: "\<exists>w. n_wildcard n = Some w \<and> ts = [Wild (n_name w)] \<and> n_handler w = Some h"
    if "?R ts = Some h" "match ts path \<noteq> None" for ts h
    using that by (cases ts rule: tok_list_cases)
      (auto simp: of_kind_def view_sel split: option.splits if_splits)
  show ?thesis
  proof (cases "find_wildcard n path")
    case None
    have "?R ts = None" if "match ts path \<noteq> None" for ts
      using only [of ts] that None by (cases "?R ts") (auto simp: find_wildcard_def)
    then show ?thesis
      using None by (auto simp: answers_def)
  next
    case (Some r)
    then obtain w h where w: "n_wildcard n = Some w" "n_handler w = Some h"
      and r: "r = (h, [\<lparr>Key = n_name w, Value = path\<rparr>])"
      by (auto simp: find_wildcard_def split: option.splits)
    have "best ?R path [Wild (n_name w)] h [\<lparr>Key = n_name w, Value = path\<rparr>]"
      unfolding best_def using w assms only by (fastforce simp: of_kind_def view_sel)
    then show ?thesis
      using Some r by (auto simp: answers_def)
  qed
qed

lemma find_route_answers: "path \<noteq> [] \<Longrightarrow> answers (route_at n) path (find_route n path)"
proof (induction "length path" arbitrary: n path rule: less_induct)
  case less
  show ?case
    unfolding find_route_step [OF less.prems]
    using less by (intro answers_by_kind answers_find_static answers_find_param answers_find_wildcard) auto
qed

end
