(* ===== verification/Router.thy ===== *)
theory Router
  imports Radix_Lookup
begin

text \<open>
  The exported tree, read as a table from patterns to handlers. \<open>registered\<close> is
  that table, \<open>matches\<close> says what a pattern captures from a path and \<open>before\<close> which
  of two patterns wins; none of them mentions a node. \<open>inv_Tree\<close> is the invariant of
  every tree the exported operations build, and the locale \<open>route_table\<close> is the
  contract package \<open>rice\<close> registers and builds its routes with.
\<close>

section \<open>The table a tree stands for\<close>

definition table :: "'h Tree \<Rightarrow> tok list \<Rightarrow> 'h view" where
  "table T = (case root (inner T) of None \<Rightarrow> (\<lambda>q. no_view) | Some n \<Rightarrow> obs n)"

definition registered :: "'h Tree \<Rightarrow> string \<Rightarrow> 'h option" where
  "registered T p = (case parsePattern p of Inl _ \<Rightarrow> None | Inr ss \<Rightarrow> hnd (table T (toks ss)))"

definition matches :: "string \<Rightarrow> bytes \<Rightarrow> Param list option" where
  "matches p path = (case parsePattern p of Inl _ \<Rightarrow> None | Inr ss \<Rightarrow> match (toks ss) path)"

definition before :: "string \<Rightarrow> string \<Rightarrow> bool" where
  "before p q =
     (case (parsePattern p, parsePattern q) of
        (Inr ss, Inr ss') \<Rightarrow> prior (toks ss) (toks ss')
      | _ \<Rightarrow> False)"

definition captures :: "segment list \<Rightarrow> nat" where
  "captures ss = length (filter (\<lambda>s. kind s \<noteq> segStatic) ss)"

text \<open>Every route of the tree was registered under an accepted pattern.\<close>

definition inv_Tree :: "'h Tree \<Rightarrow> bool" where
  "inv_Tree T \<longleftrightarrow>
     (\<forall>n. root (inner T) = Some n \<longrightarrow> wf_node n)
     \<and> finite {ts. hnd (table T ts) \<noteq> None}
     \<and> count (inner T) = card {ts. hnd (table T ts) \<noteq> None}
     \<and> (\<forall>ts. hnd (table T ts) \<noteq> None \<longrightarrow>
          (\<exists>p ss. parsePattern p = Inr ss \<and> toks ss = ts \<and> captures ss \<le> maxParams T))"

section \<open>Insertion\<close>

text \<open>
  An insertion of an accepted pattern, over tables: it succeeds exactly when the
  pattern is compatible, and then declares it.
\<close>

lemma tree_insert_outcome:
  assumes "\<And>n. root (inner T) = Some n \<Longrightarrow> wf_node n"
    and res: "tree_insert (inner T) p ss h = (r, t')" and T': "inner T' = t'"
  shows "(\<forall>n. root t' = Some n \<longrightarrow> wf_node n)
    \<and> (r = None \<longleftrightarrow> compatible (table T) (toks ss))
    \<and> (r = Some ErrDuplicate \<longleftrightarrow> hnd (table T (toks ss)) \<noteq> None)
    \<and> (if r = None then table T' = declares (table T) (toks ss) h \<and> count t' = Suc (count (inner T))
       else grows (table T) (table T') \<and> count t' = count (inner T))"
proof -
  define cur where "cur = (case root (inner T) of None \<Rightarrow> empty_node | Some n \<Rightarrow> n)"
  obtain r' n' where walk: "insert_walk p ss h cur = (r', n')" by fastforce
  have tab: "obs cur = table T"
    by (cases "root (inner T)") (simp_all add: cur_def table_def empty_node_def fun_eq_iff)
  have "wf_node cur"
    using assms(1) by (cases "root (inner T)") (auto simp: cur_def)
  then have "insert_outcome cur ss h (r', n')"
    using insert_walk_outcome [of cur ss h p] by (simp add: walk)
  moreover have "r = r'" "root t' = Some n'"
    "count t' = (if r' = None then Suc (count (inner T)) else count (inner T))"
    using res walk by (auto simp: tree_insert_def cur_def [symmetric] split: option.splits)
  moreover have "table T' = obs n'"
    using T' \<open>root t' = Some n'\<close> by (simp add: table_def)
  ultimately show ?thesis
    by (auto simp: insert_outcome_def tab)
qed

lemma Insert_cases:
  assumes "inv_Tree T" "Insert T p h = (r, T')"
  obtains (Bad_pattern) e where "parsePattern p = Inl e" "r = Some (PatternError e)" "T' = T"
  | (Conflict) ss e where "parsePattern p = Inr ss" "r = Some (InsertError e)"
      "\<not> compatible (table T) (toks ss)" "grows (table T) (table T')"
      "e = ErrDuplicate \<longleftrightarrow> hnd (table T (toks ss)) \<noteq> None"
      "count (inner T') = count (inner T)" "maxParams T' = maxParams T"
      "\<forall>n. root (inner T') = Some n \<longrightarrow> wf_node n"
  | (Inserted) ss where "parsePattern p = Inr ss" "r = None" "compatible (table T) (toks ss)"
      "table T' = declares (table T) (toks ss) h" "hnd (table T (toks ss)) = None"
      "count (inner T') = Suc (count (inner T))"
      "maxParams T' = max (maxParams T) (captures ss)"
      "\<forall>n. root (inner T') = Some n \<longrightarrow> wf_node n"
proof (cases "parsePattern p")
  case (Inl e)
  then show ?thesis
    using assms(2) Bad_pattern by (auto simp: Insert_def)
next
  case (Inr ss)
  obtain s t' where res: "tree_insert (inner T) p ss h = (s, t')" by fastforce
  have wf: "\<And>n. root (inner T) = Some n \<Longrightarrow> wf_node n"
    using assms(1) by (simp add: inv_Tree_def)
  have T'_def: "T' = (if s = None then T\<lparr>inner := t', maxParams := max (maxParams T) (captures ss)\<rparr>
      else T\<lparr>inner := t'\<rparr>)" and r: "r = map_option InsertError s"
    using assms(2) Inr res by (auto simp: Insert_def Let_def captures_def split: option.splits)
  then have T': "inner T' = t'" by simp
  note out = tree_insert_outcome [OF wf res T']
  show ?thesis
  proof (cases s)
    case None
    then show ?thesis
      using Inr out r by (intro Inserted [of ss]) (auto simp: T'_def)
  next
    case (Some e)
    then show ?thesis
      using Inr out r by (intro Conflict [of ss e]) (auto simp: T'_def)
  qed
qed

lemma grows_hnd: "grows V W \<Longrightarrow> hnd (W q) = hnd (V q)"
  by (simp add: grows_def)

lemma inv_Tree_Insert:
  assumes "inv_Tree T" "Insert T p h = (r, T')"
  shows "inv_Tree T'"
  using assms
proof (cases rule: Insert_cases)
  case Bad_pattern
  then show ?thesis using assms(1) by simp
next
  case (Conflict ss e)
  then show ?thesis
    using assms(1) by (simp add: inv_Tree_def grows_hnd [OF Conflict(4)])
next
  case (Inserted ss)
  let ?new = "toks ss" and ?D = "{ts. hnd (table T ts) \<noteq> None}"
  have dom: "{ts. hnd (table T' ts) \<noteq> None} = insert ?new ?D"
    by (auto simp: Inserted(4) hnd_declares)
  have fin: "finite ?D" "count (inner T) = card ?D" "?new \<notin> ?D"
    using assms(1) Inserted(5) by (auto simp: inv_Tree_def)
  have old: "\<exists>p ss. parsePattern p = Inr ss \<and> toks ss = ts \<and> captures ss \<le> maxParams T"
    if "ts \<in> ?D" for ts
    using that assms(1) by (simp add: inv_Tree_def)
  have "\<exists>q ss'. parsePattern q = Inr ss' \<and> toks ss' = ts \<and> captures ss' \<le> maxParams T'"
    if "hnd (table T' ts) \<noteq> None" for ts
  proof (cases "ts = ?new")
    case False
    then have "ts \<in> ?D"
      using that by (simp add: Inserted(4) hnd_declares)
    then obtain q ss' where "parsePattern q = Inr ss'" "toks ss' = ts" "captures ss' \<le> maxParams T"
      using old by blast
    then show ?thesis
      by (intro exI [of _ q] exI [of _ ss']) (simp add: Inserted(7))
  next
    case True
    then show ?thesis
      by (intro exI [of _ p] exI [of _ ss]) (simp add: Inserted(1,7))
  qed
  then show ?thesis
    unfolding inv_Tree_def dom using fin Inserted(6,8) by auto
qed

lemma inv_empty_Tree [simp]: "inv_Tree empty_Tree"
  by (simp add: inv_Tree_def empty_Tree_def table_def)

lemma registered_empty_Tree [simp]: "registered empty_Tree p = None"
  by (simp add: registered_def empty_Tree_def table_def split: sum.split)

lemma registered_Insert_ok:
  assumes "inv_Tree T" "Insert T p h = (None, T')"
  shows "registered T' = (registered T)(p \<mapsto> h)"
  using assms
proof (cases rule: Insert_cases)
  case (Inserted ss)
  show ?thesis
  proof
    fix q
    show "registered T' q = ((registered T)(p \<mapsto> h)) q"
      using Inserted parsePattern_toks_inj [of q _ p ss]
      by (cases "parsePattern q") (auto simp: registered_def hnd_declares)
  qed
qed auto

lemma Insert_ok_fresh:
  assumes "inv_Tree T" "Insert T p h = (None, T')"
  shows "registered T p = None"
  using assms
proof (cases rule: Insert_cases)
  case (Inserted ss)
  then show ?thesis by (simp add: registered_def)
qed auto

lemma registered_Insert_err:
  assumes "inv_Tree T" "Insert T p h = (Some e, T')"
  shows "registered T' = registered T"
  using assms
proof (cases rule: Insert_cases)
  case (Conflict ss e)
  then show ?thesis
    by (simp add: registered_def fun_eq_iff grows_hnd split: sum.split)
qed auto

section \<open>Lookup\<close>

lemma registered_iff_table:
  assumes "inv_Tree T"
  shows "hnd (table T ts) = Some h \<longleftrightarrow>
    (\<exists>p ss. parsePattern p = Inr ss \<and> toks ss = ts \<and> registered T p = Some h)"
proof
  assume h: "hnd (table T ts) = Some h"
  then obtain p ss where "parsePattern p = Inr ss" "toks ss = ts"
    using assms by (auto simp: inv_Tree_def)
  then show "\<exists>p ss. parsePattern p = Inr ss \<and> toks ss = ts \<and> registered T p = Some h"
    using h by (intro exI [of _ p] exI [of _ ss]) (simp add: registered_def)
qed (auto simp: registered_def)

lemma parsePattern_toks_nonempty: "parsePattern p = Inr ss \<Longrightarrow> toks ss \<noteq> []"
  using render_toks [of ss] by (auto simp: parsePattern_iff)

lemma Lookup_answers:
  assumes "inv_Tree T" "clean params"
  obtains found where "answers (\<lambda>ts. hnd (table T ts)) path found"
    "agrees params (Lookup T path params) found"
proof (cases "path = [] \<or> root (inner T) = None")
  case True
  have "node_lookup n [] params = (None, params)" for n :: "'a node"
    by (subst node_lookup.simps) simp
  then have "Lookup T path params = (None, params)"
    using True by (auto simp: Lookup_def tree_lookup_def split: option.split)
  moreover have "hnd (table T []) = None"
    using registered_iff_table [OF assms(1), of "[]"] parsePattern_toks_nonempty
    by (cases "hnd (table T [])") auto
  then have "answers (\<lambda>ts. hnd (table T ts)) path None"
    using True by (cases "root (inner T) = None")
      (auto simp: answers_def table_def split: if_splits)
  ultimately show ?thesis
    using assms(2) that by simp
next
  case False
  then obtain n where n: "root (inner T) = Some n" by auto
  then show ?thesis
    using that [of "find_route n path"] find_route_answers [of path n]
      node_lookup_agrees [OF assms(2), of n path] False
    by (simp add: Lookup_def tree_lookup_def table_def)
qed

lemma Lookup_hit:
  assumes "inv_Tree T" "clean params" "Lookup T path params = (Some h, params')"
  shows "\<exists>p cs. registered T p = Some h \<and> matches p path = Some cs
    \<and> clean params' \<and> entries params' = entries params @ cs
    \<and> (\<forall>q. registered T q \<noteq> None \<longrightarrow> matches q path \<noteq> None \<longrightarrow> before p q)"
proof -
  obtain found where f: "answers (\<lambda>ts. hnd (table T ts)) path found"
    "agrees params (Lookup T path params) found"
    by (rule Lookup_answers [OF assms(1,2)])
  then obtain cs ts where cs: "clean params'" "entries params' = entries params @ cs"
    and b: "best (\<lambda>ts. hnd (table T ts)) path ts h cs"
    using assms(3) by (auto simp: agrees_def answers_def split: option.splits)
  then obtain p ss where p: "parsePattern p = Inr ss" "toks ss = ts" "registered T p = Some h"
    using registered_iff_table [OF assms(1)] by (auto simp: best_def)
  have "before p q" if "registered T q \<noteq> None" "matches q path \<noteq> None" for q
    using that b p by (cases "parsePattern q") (auto simp: best_def before_def registered_def matches_def)
  then show ?thesis
    using p cs b by (intro exI [of _ p] exI [of _ cs]) (auto simp: best_def matches_def)
qed

lemma Lookup_miss:
  assumes "inv_Tree T" "clean params" "Lookup T path params = (None, params')"
  shows "clean params' \<and> entries params' = entries params
    \<and> (\<forall>p. registered T p = None \<or> matches p path = None)"
proof -
  obtain found where f: "answers (\<lambda>ts. hnd (table T ts)) path found"
    "agrees params (Lookup T path params) found"
    by (rule Lookup_answers [OF assms(1,2)])
  then have "found = None"
    using assms(3) by (auto simp: agrees_def split: option.splits)
  then have "clean params'" "entries params' = entries params"
    and none: "\<And>ts. hnd (table T ts) = None \<or> match ts path = None"
    using f assms(3) by (auto simp: agrees_def answers_def)
  moreover have "registered T p = None \<or> matches p path = None" for p
    using none by (cases "parsePattern p") (auto simp: registered_def matches_def)
  ultimately show ?thesis
    by auto
qed

section \<open>The contract of a route table\<close>

text \<open>
  \<open>reg\<close> is the table a state stands for; \<open>le\<close> compares two states by how much they
  constrain a further insertion. A failed insertion changes no route, may constrain
  more, and never constrains less.
\<close>

locale route_table =
  fixes invar :: "'t \<Rightarrow> bool"
    and reg :: "'t \<Rightarrow> 'k \<Rightarrow> 'h option"
    and emp :: 't
    and ins :: "'t \<Rightarrow> 'k \<Rightarrow> 'h \<Rightarrow> 'e option \<times> 't"
    and le :: "'t \<Rightarrow> 't \<Rightarrow> bool"
  assumes invar_emp: "invar emp"
    and reg_emp: "reg emp k = None"
    and invar_ins: "invar t \<Longrightarrow> invar (snd (ins t k h))"
    and reg_ok: "invar t \<Longrightarrow> fst (ins t k h) = None \<Longrightarrow> reg (snd (ins t k h)) = (reg t)(k \<mapsto> h)"
    and reg_err: "invar t \<Longrightarrow> fst (ins t k h) \<noteq> None \<Longrightarrow> reg (snd (ins t k h)) = reg t"
    and le_emp: "le emp t"
    and le_ok: "invar s \<Longrightarrow> invar t \<Longrightarrow> le s t \<Longrightarrow> fst (ins t k h) = None \<Longrightarrow>
      fst (ins s k g) = None \<and> le (snd (ins s k g)) (snd (ins t k h))"
    and le_err: "invar t \<Longrightarrow> le s t \<Longrightarrow> fst (ins t k h) \<noteq> None \<Longrightarrow> le s (snd (ins t k h))"
begin

text \<open>Inserting a list of routes, stopping at the first error.\<close>

fun replay :: "'t \<Rightarrow> ('k \<times> 'h) list \<Rightarrow> 'e option \<times> 't" where
  "replay t [] = (None, t)"
| "replay t ((k, h) # rs) =
     (case ins t k h of (Some e, t') \<Rightarrow> (Some e, t') | (None, t') \<Rightarrow> replay t' rs)"

lemma replay_append:
  "replay t (xs @ ys) = (case replay t xs of (Some e, t') \<Rightarrow> (Some e, t') | (None, t') \<Rightarrow> replay t' ys)"
  by (induction t xs rule: replay.induct) (auto split: prod.splits option.splits)

lemma invar_replay: "invar t \<Longrightarrow> invar (snd (replay t rs))"
proof (induction t rs rule: replay.induct)
  case (2 t k h rs)
  obtain r t' where ins: "ins t k h = (r, t')" by fastforce
  then have "invar t'" using invar_ins [OF 2(2), of k h] by simp
  then show ?case using 2(1) ins by (auto split: option.splits)
qed simp

text \<open>A replay that goes through has put every route of the list in the table.\<close>

lemma reg_replay:
  assumes "invar t" "replay t rs = (None, s)"
  shows "reg s = reg t ++ map_of (rev rs)"
  using assms
proof (induction t rs rule: replay.induct)
  case (2 t k h rs)
  then obtain t' where ins: "ins t k h = (None, t')"
    by (auto split: prod.splits option.splits)
  then have "invar t'" "reg t' = (reg t)(k \<mapsto> h)"
    using invar_ins [OF 2(2), of k h] reg_ok [OF 2(2), of k h] by simp_all
  then show ?case
    using 2(1) [OF ins [symmetric] refl] 2(3) ins by (simp add: map_add_def fun_eq_iff split: option.splits)
qed simp

text \<open>
  One more accepted registration: whatever handlers the accepted routes are replayed
  with, the replay still goes through and stays below the registering state.
\<close>

lemma replay_snoc_ok:
  assumes "invar t" "replay emp rs = (None, s)" "le s t" "fst (ins t k h) = None"
  shows "\<exists>s'. replay emp (rs @ [(k, g)]) = (None, s') \<and> le s' (snd (ins t k h))
    \<and> reg s' = (reg s)(k \<mapsto> g)"
proof -
  have s: "invar s"
    using invar_replay [OF invar_emp, of rs] assms(2) by simp
  have ok: "fst (ins s k g) = None" "le (snd (ins s k g)) (snd (ins t k h))"
    using le_ok [OF s assms(1,3,4), of g] by auto
  then obtain s' where s': "ins s k g = (None, s')"
    by (cases "ins s k g") auto
  then show ?thesis
    using ok reg_ok [OF s, of k g] assms(2) by (auto simp: replay_append)
qed

end

definition below_Tree :: "'h Tree \<Rightarrow> 'h Tree \<Rightarrow> bool" where
  "below_Tree S T \<longleftrightarrow> below (table S) (table T)"

lemma below_Tree_ok:
  assumes "inv_Tree S" "inv_Tree T" "below_Tree S T" "Insert T p h = (None, T')"
  shows "\<exists>S'. Insert S p g = (None, S') \<and> below_Tree S' T'"
  using assms(2,4)
proof (cases rule: Insert_cases)
  case (Inserted ss)
  have comp: "compatible (table S) (toks ss)"
    using compatible_below [OF assms(3) [unfolded below_Tree_def] Inserted(3)] .
  obtain r S' where ins: "Insert S p g = (r, S')" by fastforce
  with assms(1) show ?thesis
  proof (cases rule: Insert_cases)
    case (Inserted ss')
    then show ?thesis
      using ins \<open>parsePattern p = Inr ss\<close> \<open>table T' = declares (table T) (toks ss) h\<close>
        below_declares [OF assms(3) [unfolded below_Tree_def], of "toks ss" g h]
      by (auto simp: below_Tree_def)
  qed (use comp \<open>parsePattern p = Inr ss\<close> in auto)
qed auto

lemma below_Tree_err:
  assumes "inv_Tree T" "below_Tree S T" "Insert T p h = (Some e, T')"
  shows "below_Tree S T'"
  using assms(1,3)
proof (cases rule: Insert_cases)
  case (Conflict ss e)
  then show ?thesis
    using assms(2) below_grows by (auto simp: below_Tree_def)
qed (use assms in auto)

interpretation rt: route_table inv_Tree registered empty_Tree Insert below_Tree
proof unfold_locales
  show "below_Tree empty_Tree t" for t :: "'h Tree"
    by (simp add: below_Tree_def empty_Tree_def table_def)
  show "inv_Tree (snd (Insert t k h))" if "inv_Tree t" for t :: "'h Tree" and k h
    using inv_Tree_Insert [OF that] by (cases "Insert t k h") auto
  show "registered (snd (Insert t k h)) = (registered t)(k \<mapsto> h)"
    if "inv_Tree t" "fst (Insert t k h) = None" for t :: "'h Tree" and k h
    using registered_Insert_ok [OF that(1)] that(2) by (cases "Insert t k h") auto
  show "registered (snd (Insert t k h)) = registered t"
    if "inv_Tree t" "fst (Insert t k h) \<noteq> None" for t :: "'h Tree" and k h
    using registered_Insert_err [OF that(1)] that(2) by (cases "Insert t k h") auto
  show "fst (Insert s k g) = None \<and> below_Tree (snd (Insert s k g)) (snd (Insert t k h))"
    if "inv_Tree s" "inv_Tree t" "below_Tree s t" "fst (Insert t k h) = None"
    for s t :: "'h Tree" and k g h
    using below_Tree_ok [OF that(1-3), of k h _ g] that(4) by (cases "Insert t k h") fastforce
  show "below_Tree s (snd (Insert t k h))"
    if "inv_Tree t" "below_Tree s t" "fst (Insert t k h) \<noteq> None" for s t :: "'h Tree" and k h
    using below_Tree_err [OF that(1,2)] that(3) by (cases "Insert t k h") auto
qed simp_all

section \<open>Properties\<close>

text \<open>
  C4: Inserting. A tree that satisfies its invariant still satisfies it after any
  insertion, whether it succeeds or not; a success binds exactly the new pattern, a
  failure changes no route; the number of routes is the tree's \<open>Len\<close>.
\<close>

theorem Insert_table:
  assumes "inv_Tree T"
  shows "inv_Tree (snd (Insert T p h))
    \<and> registered (snd (Insert T p h)) =
        (if fst (Insert T p h) = None then (registered T)(p \<mapsto> h) else registered T)
    \<and> TreeLen (snd (Insert T p h)) =
        (if fst (Insert T p h) = None then Suc (TreeLen T) else TreeLen T)"
proof -
  obtain r T' where ins: "Insert T p h = (r, T')" by fastforce
  with assms have "TreeLen T' = (if r = None then Suc (TreeLen T) else TreeLen T)"
    by (cases rule: Insert_cases) (auto simp: TreeLen_def)
  then show ?thesis
    using ins inv_Tree_Insert [OF assms ins] registered_Insert_ok [OF assms, of p h T']
      registered_Insert_err [OF assms, of p h _ T'] by (cases r) auto
qed

theorem Insert_table_witness:
  "registered (snd (Insert empty_Tree ''/u/:id'' (7::nat))) ''/u/:id'' = Some 7"
proof -
  have "fst (Insert empty_Tree ''/u/:id'' (7::nat)) = None" by code_simp
  then show ?thesis
    using Insert_table [OF inv_empty_Tree, of "''/u/:id''" "7::nat"] by simp
qed

text \<open>
  An insertion is refused as a duplicate exactly when the pattern is registered
  already.
\<close>

lemma Insert_duplicate_iff:
  assumes "inv_Tree T"
  shows "fst (Insert T p h) = Some (InsertError ErrDuplicate) \<longleftrightarrow> registered T p \<noteq> None"
proof -
  obtain r T' where "Insert T p h = (r, T')" by fastforce
  with assms show ?thesis
    by (cases rule: Insert_cases) (auto simp: registered_def \<open>Insert T p h = (r, T')\<close>)
qed

text \<open>
  A lookup that hits returns the handler of a registered pattern that matches the
  whole path, appends exactly that pattern's captures to the parameter buffer, and no
  registered pattern that also matches has priority over it (static before parameter
  before wildcard, at the first difference): backtracking never returns a worse route
  and never leaves a capture of an abandoned branch behind.
\<close>

lemma Lookup_best_route:
  assumes "inv_Tree T" "clean params" "Lookup T path params = (Some h, params')"
  shows "\<exists>p cs. registered T p = Some h \<and> matches p path = Some cs
    \<and> clean params' \<and> entries params' = entries params @ cs
    \<and> (\<forall>q. registered T q \<noteq> None \<longrightarrow> matches q path \<noteq> None \<longrightarrow> before p q)"
  using assms by (rule Lookup_hit)

text \<open>
  A lookup misses exactly when no registered pattern matches the path, and a miss
  leaves the parameter buffer's entries as they were.
\<close>

lemma Lookup_complete:
  assumes "inv_Tree T" "clean params"
  shows "(fst (Lookup T path params) = None \<longleftrightarrow> (\<forall>p. registered T p = None \<or> matches p path = None))
    \<and> (fst (Lookup T path params) = None \<longrightarrow> entries (snd (Lookup T path params)) = entries params)"
proof -
  obtain r params' where res: "Lookup T path params = (r, params')" by fastforce
  show ?thesis
  proof (cases r)
    case None
    then show ?thesis using Lookup_miss [OF assms] res by auto
  next
    case (Some h)
    then show ?thesis using Lookup_hit [OF assms, of path h params'] res by auto
  qed
qed

end
