(* ===== verification/Chain.thy ===== *)
theory Chain
  imports Rice_Prelude
begin

text \<open>
  Middleware chains: \<open>internal/chain/chain.go\<close>. The source folds backwards over the
  slice by index; \<open>compile_from i\<close> is the loop with \<open>i\<close> elements left.
\<close>

type_synonym 'h middleware = "'h \<Rightarrow> 'h"

fun compile_from :: "nat \<Rightarrow> 'h \<Rightarrow> 'h middleware list \<Rightarrow> 'h" where
  "compile_from 0 h mws = h"
| "compile_from (Suc i) h mws = compile_from i ((mws ! i) h) mws"

definition Compile :: "'h \<Rightarrow> 'h middleware list \<Rightarrow> 'h" where
  "Compile h mws = compile_from (length mws) h mws"

lemma compile_from_take:
  "i \<le> length mws \<Longrightarrow> compile_from i h mws = foldr (\<lambda>m k. m k) (take i mws) h"
  by (induction i arbitrary: h) (simp_all add: take_Suc_conv_app_nth)

lemma Compile_foldr: "Compile h mws = foldr (\<lambda>m k. m k) mws h"
  by (simp add: Compile_def compile_from_take)

lemma Compile_simps [simp]:
  "Compile h [] = h"
  "Compile h (m # ms) = m (Compile h ms)"
  "Compile h (ms @ ns) = Compile (Compile h ns) ms"
  by (simp_all add: Compile_foldr)

end
