(* ===== verification/Routes.thy ===== *)
theory Routes
  imports Router Chain
begin

text \<open>
  Registration and Build: \<open>method.go\<close>, \<open>route.go\<close>, \<open>group.go\<close>, \<open>build.go\<close> and the
  registration half of \<open>App\<close> in \<open>app.go\<close>.

  The handler type is a parameter \<open>'h\<close>; a nil handler or middleware is \<open>None\<close>. A Go
  \<open>*Group\<close> is an index into the list of groups the App has made, so that middleware
  added to a group later is seen by everything that points at it. A registration call
  that panics still leaves behind what it had already written (the trees), so every
  operation returns the panic beside the state.
\<close>

section \<open>Methods\<close>

datatype http_method = mGET | mPOST | mPUT | mPATCH | mDELETE | mHEAD | mOPTIONS

definition methodIndex :: "bytes \<Rightarrow> http_method option" where
  "methodIndex m =
     (if length m = 3 then
        (if m = ''GET'' then Some mGET else if m = ''PUT'' then Some mPUT else None)
      else if length m = 4 then
        (if m = ''POST'' then Some mPOST else if m = ''HEAD'' then Some mHEAD else None)
      else if length m = 5 then (if m = ''PATCH'' then Some mPATCH else None)
      else if length m = 6 then (if m = ''DELETE'' then Some mDELETE else None)
      else if length m = 7 then (if m = ''OPTIONS'' then Some mOPTIONS else None)
      else None)"

fun verb :: "http_method \<Rightarrow> bytes" where
  "verb mGET = ''GET''"
| "verb mPOST = ''POST''"
| "verb mPUT = ''PUT''"
| "verb mPATCH = ''PATCH''"
| "verb mDELETE = ''DELETE''"
| "verb mHEAD = ''HEAD''"
| "verb mOPTIONS = ''OPTIONS''"

lemma methodIndex_verb: "methodIndex m = Some i \<longleftrightarrow> m = verb i"
  by (cases i) (auto simp: methodIndex_def)

section \<open>The App's registration state\<close>

record 'h routeEntry =
  re_h :: 'h
  re_pattern :: string

record 'h route =
  r_method :: string
  r_path :: string
  r_h :: 'h
  r_group :: "nat option"
  r_mws :: "'h middleware list"

record 'h Group =
  g_parent :: "nat option"
  g_prefix :: string
  g_mws :: "'h middleware list"

text \<open>
  One \<open>Static\<close> call: the prefix it serves, the file system (by its identity), whether
  \<open>build\<close> has made its file handler and its stop channel, and whether that channel is
  closed. Routes point at an entry by its index, as they do at a group.
\<close>

record staticEntry =
  se_prefix :: string
  se_fsys :: nat
  se_built :: bool
  se_stopped :: bool

record 'h App =
  trees :: "http_method \<Rightarrow> 'h routeEntry Tree"
  rare :: "string \<Rightarrow> 'h routeEntry Tree option"
  app_mws :: "'h middleware list"
  routes :: "'h route list"
  groups :: "'h Group list"
  buildOnce :: bool
  built :: bool
  miss :: 'h
  app_maxParams :: nat
  statics :: "staticEntry list"
  staticStopped :: bool

datatype reg_panic =
    NilMiddleware nat
  | UseAfterBuild
  | RegisterAfterBuild string string
  | GroupAfterBuild
  | EmptyMethod string
  | LowercaseMethod string string
  | NilHandler string string
  | AlreadyRegistered string string
  | BadRoute route_error
  | PrefixNoSlash string
  | PrefixTrailingSlash string string
  | GroupPathEmpty
  | GroupPathNoSlash string string
  | BuildPanic route_error string string
  | NilFS string

definition New :: "'h \<Rightarrow> 'h App" where
  "New notFound =
     \<lparr>trees = (\<lambda>_. empty_Tree), rare = (\<lambda>_. None), app_mws = [], routes = [], groups = [],
      buildOnce = False, built = False, miss = notFound, app_maxParams = 0,
      statics = [], staticStopped = False\<rparr>"

section \<open>The checks of a registration call\<close>

fun checkMiddleware_from :: "nat \<Rightarrow> 'a option list \<Rightarrow> reg_panic option" where
  "checkMiddleware_from i [] = None"
| "checkMiddleware_from i (None # ms) = Some (NilMiddleware i)"
| "checkMiddleware_from i (Some m # ms) = checkMiddleware_from (Suc i) ms"

definition checkMiddleware :: "'a option list \<Rightarrow> reg_panic option" where
  "checkMiddleware mws = checkMiddleware_from 0 mws"

definition hasLowercaseByte :: "string \<Rightarrow> bool" where
  "hasLowercaseByte s \<longleftrightarrow> list_ex is_lower s"

text \<open>\<open>strings.TrimRight(prefix, "/")\<close> in the message of a trailing slash.\<close>

definition trimRightSlash :: "string \<Rightarrow> string" where
  "trimRightSlash s = rev (dropWhile (\<lambda>c. c = CHR ''/'') (rev s))"

definition checkGroupPrefix :: "string \<Rightarrow> reg_panic option" where
  "checkGroupPrefix pre =
     (if pre = [] then None
      else if hd pre \<noteq> CHR ''/'' then Some (PrefixNoSlash pre)
      else if last pre = CHR ''/'' then Some (PrefixTrailingSlash pre (trimRightSlash pre))
      else None)"

definition checkGroupPath :: "string \<Rightarrow> string \<Rightarrow> reg_panic option" where
  "checkGroupPath pre path =
     (if path = [] then (if pre = [] then Some GroupPathEmpty else None)
      else if hd path \<noteq> CHR ''/'' then Some (GroupPathNoSlash path pre)
      else None)"

section \<open>Registration\<close>

definition treeFor :: "'h App \<Rightarrow> string \<Rightarrow> 'h routeEntry Tree" where
  "treeFor a m =
     (case methodIndex m of
        Some i \<Rightarrow> trees a i
      | None \<Rightarrow> (case rare a m of Some t \<Rightarrow> t | None \<Rightarrow> empty_Tree))"

text \<open>What writing through the pointer \<open>treeFor\<close> returns does to the App.\<close>

definition put_tree :: "'h App \<Rightarrow> string \<Rightarrow> 'h routeEntry Tree \<Rightarrow> 'h App" where
  "put_tree a m t =
     (case methodIndex m of
        Some i \<Rightarrow> a\<lparr>trees := (trees a)(i := t)\<rparr>
      | None \<Rightarrow> a\<lparr>rare := (rare a)(m \<mapsto> t)\<rparr>)"

definition register ::
  "'h App \<Rightarrow> string \<Rightarrow> string \<Rightarrow> 'h option \<Rightarrow> nat option \<Rightarrow> 'h middleware option list \<Rightarrow>
   reg_panic option \<times> 'h App"
where
  "register a m path h g mw =
     (case checkMiddleware mw of
        Some p \<Rightarrow> (Some p, a)
      | None \<Rightarrow>
          if built a then (Some (RegisterAfterBuild m path), a)
          else if m = [] then (Some (EmptyMethod path), a)
          else if hasLowercaseByte m then (Some (LowercaseMethod m path), a)
          else case h of
            None \<Rightarrow> (Some (NilHandler m path), a)
          | Some h' \<Rightarrow>
              (case Insert (treeFor a m) path \<lparr>re_h = h', re_pattern = path\<rparr> of
                 (Some e, t) \<Rightarrow>
                   (Some (if e = InsertError ErrDuplicate then AlreadyRegistered path m
                          else BadRoute e),
                    put_tree a m t)
               | (None, t) \<Rightarrow>
                   (let a1 = put_tree a m t
                    in (None,
                        a1\<lparr>app_maxParams := max (app_maxParams a1) (MaxParams t),
                           routes := routes a1 @
                             [\<lparr>r_method = m, r_path = path, r_h = h', r_group = g,
                               r_mws = map the mw\<rparr>]\<rparr>))))"

definition Use :: "'h App \<Rightarrow> 'h middleware option list \<Rightarrow> reg_panic option \<times> 'h App" where
  "Use a mw =
     (case checkMiddleware mw of
        Some p \<Rightarrow> (Some p, a)
      | None \<Rightarrow>
          if built a then (Some UseAfterBuild, a)
          else (None, a\<lparr>app_mws := app_mws a @ map the mw\<rparr>))"

definition Handle ::
  "'h App \<Rightarrow> string \<Rightarrow> string \<Rightarrow> 'h option \<Rightarrow> 'h middleware option list \<Rightarrow> reg_panic option \<times> 'h App"
where
  "Handle a m path h mw = register a m path h None mw"

text \<open>The seven shorthands \<open>GET\<close>, \<open>POST\<close>, ... of the App, by their verb.\<close>

definition App_verb ::
  "http_method \<Rightarrow> 'h App \<Rightarrow> string \<Rightarrow> 'h option \<Rightarrow> 'h middleware option list \<Rightarrow> reg_panic option \<times> 'h App"
where
  "App_verb v a path h mw = register a (verb v) path h None mw"

section \<open>Groups\<close>

text \<open>Creating a group returns its index, the identity of the new pointer.\<close>

definition App_Group ::
  "'h App \<Rightarrow> string \<Rightarrow> 'h middleware option list \<Rightarrow> (reg_panic + nat) \<times> 'h App"
where
  "App_Group a pre mw =
     (case checkGroupPrefix pre of
        Some p \<Rightarrow> (Inl p, a)
      | None \<Rightarrow>
          (case checkMiddleware mw of
             Some p \<Rightarrow> (Inl p, a)
           | None \<Rightarrow>
               if built a then (Inl GroupAfterBuild, a)
               else (Inr (length (groups a)),
                     a\<lparr>groups := groups a @
                        [\<lparr>g_parent = None, g_prefix = pre, g_mws = map the mw\<rparr>]\<rparr>)))"

definition Group_Group ::
  "'h App \<Rightarrow> nat \<Rightarrow> string \<Rightarrow> 'h middleware option list \<Rightarrow> (reg_panic + nat) \<times> 'h App"
where
  "Group_Group a g pre mw =
     (case checkGroupPrefix pre of
        Some p \<Rightarrow> (Inl p, a)
      | None \<Rightarrow>
          (case checkMiddleware mw of
             Some p \<Rightarrow> (Inl p, a)
           | None \<Rightarrow>
               if built a then (Inl GroupAfterBuild, a)
               else (Inr (length (groups a)),
                     a\<lparr>groups := groups a @
                        [\<lparr>g_parent = Some g, g_prefix = g_prefix (groups a ! g) @ pre,
                          g_mws = map the mw\<rparr>]\<rparr>)))"

definition Group_Use ::
  "'h App \<Rightarrow> nat \<Rightarrow> 'h middleware option list \<Rightarrow> reg_panic option \<times> 'h App"
where
  "Group_Use a g mw =
     (case checkMiddleware mw of
        Some p \<Rightarrow> (Some p, a)
      | None \<Rightarrow>
          if built a then (Some UseAfterBuild, a)
          else (None,
                a\<lparr>groups := (groups a)[g := (groups a ! g)\<lparr>g_mws := g_mws (groups a ! g) @ map the mw\<rparr>]\<rparr>))"

definition Group_Handle ::
  "'h App \<Rightarrow> nat \<Rightarrow> string \<Rightarrow> string \<Rightarrow> 'h option \<Rightarrow> 'h middleware option list \<Rightarrow>
   reg_panic option \<times> 'h App"
where
  "Group_Handle a g m path h mw =
     (case checkGroupPath (g_prefix (groups a ! g)) path of
        Some p \<Rightarrow> (Some p, a)
      | None \<Rightarrow> register a m (g_prefix (groups a ! g) @ path) h (Some g) mw)"

definition Group_verb ::
  "http_method \<Rightarrow> 'h App \<Rightarrow> nat \<Rightarrow> string \<Rightarrow> 'h option \<Rightarrow> 'h middleware option list \<Rightarrow>
   reg_panic option \<times> 'h App"
where
  "Group_verb v a g path h mw =
     (case checkGroupPath (g_prefix (groups a ! g)) path of
        Some p \<Rightarrow> (Some p, a)
      | None \<Rightarrow> register a (verb v) (g_prefix (groups a ! g) @ path) h (Some g) mw)"

section \<open>Static files\<close>

text \<open>
  \<open>static\<close> registers GET and HEAD for the prefix, the prefix with a slash and everything
  below it; the first panic ends it. \<open>serve\<close> is the method value \<open>e.serve\<close> of the entry with
  that index, \<open>redirect\<close> is \<open>redirectToDir\<close>.
\<close>

fun register_all ::
  "'h App \<Rightarrow> (string \<times> string \<times> 'h) list \<Rightarrow> nat option \<Rightarrow> 'h middleware option list \<Rightarrow> reg_panic option \<times> 'h App"
where
  "register_all a [] g mw = (None, a)"
| "register_all a ((m, path, h) # rs) g mw =
     (case register a m path (Some h) g mw of
        (Some p, a') \<Rightarrow> (Some p, a')
      | (None, a') \<Rightarrow> register_all a' rs g mw)"

definition static_routes :: "string \<Rightarrow> 'h \<Rightarrow> 'h \<Rightarrow> (string \<times> string \<times> 'h) list" where
  "static_routes pre serve redirect =
     concat (map (\<lambda>m.
       (if pre \<noteq> [] then [(m, pre, redirect)] else [])
       @ [(m, pre @ ''/'', serve), (m, pre @ ''/*filepath'', serve)]) [''GET'', ''HEAD''])"

definition App_static ::
  "'h App \<Rightarrow> (nat \<Rightarrow> 'h) \<Rightarrow> 'h \<Rightarrow> string \<Rightarrow> nat option \<Rightarrow> nat option \<Rightarrow> 'h middleware option list \<Rightarrow>
   reg_panic option \<times> 'h App"
where
  "App_static a serve redirect pre fsys g mw =
     (case fsys of
        None \<Rightarrow> (Some (NilFS pre), a)
      | Some fs \<Rightarrow>
          (case register_all a (static_routes pre (serve (length (statics a))) redirect) g mw of
             (Some p, a') \<Rightarrow> (Some p, a')
           | (None, a') \<Rightarrow>
               (None, a'\<lparr>statics := statics a' @
                  [\<lparr>se_prefix = pre, se_fsys = fs, se_built = False, se_stopped = False\<rparr>]\<rparr>)))"

definition App_Static ::
  "'h App \<Rightarrow> (nat \<Rightarrow> 'h) \<Rightarrow> 'h \<Rightarrow> string \<Rightarrow> nat option \<Rightarrow> 'h middleware option list \<Rightarrow> reg_panic option \<times> 'h App"
where
  "App_Static a serve redirect pre fsys mw =
     (case checkGroupPrefix pre of
        Some p \<Rightarrow> (Some p, a)
      | None \<Rightarrow> App_static a serve redirect pre fsys None mw)"

definition Group_Static ::
  "'h App \<Rightarrow> (nat \<Rightarrow> 'h) \<Rightarrow> 'h \<Rightarrow> nat \<Rightarrow> string \<Rightarrow> nat option \<Rightarrow> 'h middleware option list \<Rightarrow>
   reg_panic option \<times> 'h App"
where
  "Group_Static a serve redirect g pre fsys mw =
     (case checkGroupPrefix pre of
        Some p \<Rightarrow> (Some p, a)
      | None \<Rightarrow> App_static a serve redirect (g_prefix (groups a ! g) @ pre) fsys (Some g) mw)"

definition stopStatic :: "'h App \<Rightarrow> 'h App" where
  "stopStatic a =
     a\<lparr>staticStopped := True,
       statics := map (\<lambda>e. if se_built e then e\<lparr>se_stopped := True\<rparr> else e) (statics a)\<rparr>"

section \<open>Build\<close>

text \<open>
  The walk up the parents. A group's parent was made before it, so it has a smaller
  index; the test is what makes the recursion well-founded and it never fails on the
  groups an App makes (\<open>wf_groups\<close> below).
\<close>

function ancestors :: "'h Group list \<Rightarrow> nat \<Rightarrow> nat list" where
  "ancestors gs g =
     g # (case g_parent (gs ! g) of
            None \<Rightarrow> []
          | Some p \<Rightarrow> if p < g then ancestors gs p else [])"
  by pat_completeness auto
termination
  by (relation "measure snd") auto

declare ancestors.simps [simp del]

definition groupChain :: "'h Group list \<Rightarrow> nat option \<Rightarrow> 'h Group list" where
  "groupChain gs g = (case g of None \<Rightarrow> [] | Some i \<Rightarrow> map (\<lambda>j. gs ! j) (rev (ancestors gs i)))"

definition middlewareFor :: "'h App \<Rightarrow> 'h route \<Rightarrow> 'h middleware list" where
  "middlewareFor a r =
     app_mws a @ concat (map g_mws (groupChain (groups a) (r_group r))) @ r_mws r"

fun build_loop :: "'h App \<Rightarrow> 'h route list \<Rightarrow> reg_panic option \<times> 'h App" where
  "build_loop a [] = (None, a)"
| "build_loop a (r # rs) =
     (case Insert (treeFor a (r_method r)) (r_path r)
             \<lparr>re_h = Compile (r_h r) (middlewareFor a r), re_pattern = r_path r\<rparr> of
        (Some e, t) \<Rightarrow> (Some (BuildPanic e (r_method r) (r_path r)), put_tree a (r_method r) t)
      | (None, t) \<Rightarrow> build_loop (put_tree a (r_method r) t) rs)"

definition staticEntry_build :: "staticEntry \<Rightarrow> staticEntry" where
  "staticEntry_build e = e\<lparr>se_built := True\<rparr>"

definition build :: "'h \<Rightarrow> 'h App \<Rightarrow> reg_panic option \<times> 'h App" where
  "build notFound a =
     (case build_loop (a\<lparr>trees := (\<lambda>_. empty_Tree), rare := (\<lambda>_. None)\<rparr>) (routes a) of
        (Some p, a') \<Rightarrow> (Some p, a')
      | (None, a') \<Rightarrow> 
          (None, a'\<lparr>miss := Compile notFound (app_mws a'),
             statics := (if staticStopped a' then statics a' else map staticEntry_build (statics a')),
             built := True\<rparr>))"

definition Build :: "'h \<Rightarrow> 'h App \<Rightarrow> reg_panic option \<times> 'h App" where
  "Build notFound a =
     (if buildOnce a then (None, a) else build notFound (a\<lparr>buildOnce := True\<rparr>))"

section \<open>Request-time lookup\<close>

definition lookupEntry ::
  "'h App \<Rightarrow> bytes \<Rightarrow> bytes \<Rightarrow> Params \<Rightarrow> 'h routeEntry option \<times> Params"
where
  "lookupEntry a m path params =
     (case methodIndex m of
        Some i \<Rightarrow> Lookup (trees a i) path params
      | None \<Rightarrow>
          (case rare a m of
             None \<Rightarrow> (None, params)
           | Some t \<Rightarrow> Lookup t path params))"

definition lookup :: "'h App \<Rightarrow> bytes \<Rightarrow> bytes \<Rightarrow> Params \<Rightarrow> 'h option \<times> Params" where
  "lookup a m path params =
     (case lookupEntry a m path params of (e, params') \<Rightarrow> (map_option re_h e, params'))"

end
