(* ===== verification/Routes_Build.thy ===== *)
theory Routes_Build
  imports Routes
begin

text \<open>
  What registration and Build establish. \<open>reachable\<close> closes the exported registration
  calls (and Build) under sequencing, in any order and with panics recovered;
  \<open>inv_App\<close> is the invariant of every App so reached. The lemmas then say what the
  trees of a built App hold: exactly the registered routes, each with its handler
  wrapped by the App's, the groups' and its own middleware, outermost first.
\<close>

section \<open>Sequences of registration calls\<close>

inductive reachable :: "'h \<Rightarrow> 'h App \<Rightarrow> bool" for nf :: 'h where
  reach_New: "reachable nf (New nf)"
| reach_Use: "reachable nf a \<Longrightarrow> reachable nf (snd (Use a mw))"
| reach_Handle: "reachable nf a \<Longrightarrow> reachable nf (snd (Handle a m path h mw))"
| reach_App_verb: "reachable nf a \<Longrightarrow> reachable nf (snd (App_verb v a path h mw))"
| reach_App_Group: "reachable nf a \<Longrightarrow> reachable nf (snd (App_Group a pre mw))"
| reach_Group_Group:
    "reachable nf a \<Longrightarrow> g < length (groups a) \<Longrightarrow> reachable nf (snd (Group_Group a g pre mw))"
| reach_Group_Use:
    "reachable nf a \<Longrightarrow> g < length (groups a) \<Longrightarrow> reachable nf (snd (Group_Use a g mw))"
| reach_Group_Handle:
    "reachable nf a \<Longrightarrow> g < length (groups a) \<Longrightarrow> reachable nf (snd (Group_Handle a g m path h mw))"
| reach_Group_verb:
    "reachable nf a \<Longrightarrow> g < length (groups a) \<Longrightarrow> reachable nf (snd (Group_verb v a g path h mw))"
| reach_App_Static:
    "reachable nf a \<Longrightarrow> reachable nf (snd (App_Static a serve redirect pre fsys mw))"
| reach_Group_Static:
    "reachable nf a \<Longrightarrow> g < length (groups a) \<Longrightarrow>
     reachable nf (snd (Group_Static a serve redirect g pre fsys mw))"
| reach_stopStatic: "reachable nf a \<Longrightarrow> reachable nf (stopStatic a)"
| reach_Build: "reachable nf a \<Longrightarrow> reachable nf (snd (Build nf a))"

section \<open>Trees by method\<close>

lemma treeFor_put_tree [simp]:
  "treeFor (put_tree a m t) m' = (if m' = m then t else treeFor a m')"
proof (cases "methodIndex m")
  case None
  then show ?thesis
    by (cases "methodIndex m'") (auto simp: treeFor_def put_tree_def)
next
  case (Some i)
  have inj: "methodIndex m' = Some i \<longleftrightarrow> m' = m"
    using Some methodIndex_verb by metis
  then show ?thesis
    using Some by (cases "methodIndex m'") (auto simp: treeFor_def put_tree_def)
qed

lemma put_tree_fields [simp]:
  "app_mws (put_tree a m t) = app_mws a" "routes (put_tree a m t) = routes a"
  "groups (put_tree a m t) = groups a" "buildOnce (put_tree a m t) = buildOnce a"
  "built (put_tree a m t) = built a" "app_maxParams (put_tree a m t) = app_maxParams a"
  "miss (put_tree a m t) = miss a" "statics (put_tree a m t) = statics a"
  "staticStopped (put_tree a m t) = staticStopped a"
  by (simp_all add: put_tree_def split: option.split)

lemma treeFor_fields [simp]:
  "treeFor (a\<lparr>app_mws := x1\<rparr>) m = treeFor a m" "treeFor (a\<lparr>routes := x2\<rparr>) m = treeFor a m"
  "treeFor (a\<lparr>groups := x3\<rparr>) m = treeFor a m" "treeFor (a\<lparr>buildOnce := x4\<rparr>) m = treeFor a m"
  "treeFor (a\<lparr>built := x4\<rparr>) m = treeFor a m" "treeFor (a\<lparr>app_maxParams := x5\<rparr>) m = treeFor a m"
  "treeFor (a\<lparr>miss := x6\<rparr>) m = treeFor a m" "treeFor (a\<lparr>statics := x7\<rparr>) m = treeFor a m"
  "treeFor (a\<lparr>staticStopped := x8\<rparr>) m = treeFor a m"
  by (simp_all add: treeFor_def split: option.split)

lemma treeFor_cleared [simp]:
  "treeFor (a\<lparr>trees := (\<lambda>_. empty_Tree), rare := (\<lambda>_. None)\<rparr>) m = empty_Tree"
  by (simp add: treeFor_def split: option.split)

lemma Lookup_empty_Tree: "Lookup empty_Tree path params = (None, params)"
  by (simp add: Lookup_def tree_lookup_def empty_Tree_def)

lemma lookupEntry_treeFor: "lookupEntry a m path params = Lookup (treeFor a m) path params"
  by (simp add: lookupEntry_def treeFor_def Lookup_empty_Tree split: option.split)

section \<open>The invariant\<close>

text \<open>The routes of one method, each with a handler chosen by \<open>f\<close>.\<close>

definition method_routes ::
  "('h route \<Rightarrow> 'h routeEntry) \<Rightarrow> 'h route list \<Rightarrow> string \<Rightarrow> (string \<times> 'h routeEntry) list"
where
  "method_routes f rs m = map (\<lambda>r. (r_path r, f r)) (filter (\<lambda>r. r_method r = m) rs)"

definition wf_groups :: "'h Group list \<Rightarrow> bool" where
  "wf_groups gs \<longleftrightarrow> (\<forall>i<length gs. \<forall>p. g_parent (gs ! i) = Some p \<longrightarrow> p < i)"

definition wf_routes :: "'h App \<Rightarrow> bool" where
  "wf_routes a \<longleftrightarrow>
     distinct (map (\<lambda>r. (r_method r, r_path r)) (routes a))
     \<and> (\<forall>r\<in>set (routes a). \<forall>g. r_group r = Some g \<longrightarrow> g < length (groups a))"

text \<open>The entry of a route: as registered, and as compiled by Build.\<close>

definition plain_entry :: "'h route \<Rightarrow> 'h routeEntry" where
  "plain_entry r = \<lparr>re_h = r_h r, re_pattern = r_path r\<rparr>"

definition compiled_entry :: "'h App \<Rightarrow> 'h route \<Rightarrow> 'h routeEntry" where
  "compiled_entry a r = \<lparr>re_h = Compile (r_h r) (middlewareFor a r), re_pattern = r_path r\<rparr>"

text \<open>The trees hold the routes, with the entries \<open>f\<close> gives them.\<close>

definition holds_routes :: "'h App \<Rightarrow> ('h route \<Rightarrow> 'h routeEntry) \<Rightarrow> bool" where
  "holds_routes a f \<longleftrightarrow>
     (\<forall>m. inv_Tree (treeFor a m) \<and> registered (treeFor a m) = map_of (method_routes f (routes a) m))"

text \<open>The accepted routes can be inserted again, with any entries.\<close>

definition replayable :: "'h App \<Rightarrow> bool" where
  "replayable a \<longleftrightarrow>
     (\<forall>f m. \<exists>S. rt.replay empty_Tree (method_routes f (routes a) m) = (None, S)
        \<and> below_Tree S (treeFor a m))"

definition inv_App :: "'h \<Rightarrow> 'h App \<Rightarrow> bool" where
  "inv_App nf a \<longleftrightarrow>
     wf_groups (groups a) \<and> wf_routes a \<and> buildOnce a = built a
     \<and> (if built a then holds_routes a (compiled_entry a) \<and> miss a = Compile nf (app_mws a)
        else holds_routes a plain_entry \<and> replayable a)"

lemma method_routes_append:
  "method_routes f (rs @ rs') m = method_routes f rs m @ method_routes f rs' m"
  by (simp add: method_routes_def)

lemma map_of_rev_distinct:
  "distinct (map fst xs) \<Longrightarrow> map_of (rev xs) = map_of xs"
  by (metis map_of_eqI map_of_inject_set distinct_rev rev_map set_rev)

lemma method_routes_distinct:
  "distinct (map (\<lambda>r. (r_method r, r_path r)) rs) \<Longrightarrow> distinct (map fst (method_routes f rs m))"
  by (induction rs) (auto simp: method_routes_def rev_image_eqI)

lemma method_routes_iff:
  assumes "distinct (map (\<lambda>r. (r_method r, r_path r)) rs)"
  shows "map_of (method_routes f rs m) p = Some e \<longleftrightarrow>
    (\<exists>r\<in>set rs. r_method r = m \<and> r_path r = p \<and> f r = e)"
proof -
  have "map_of (method_routes f rs m) p = Some e \<longleftrightarrow> (p, e) \<in> set (method_routes f rs m)"
    by (rule map_of_eq_Some_iff [OF method_routes_distinct [OF assms]])
  then show ?thesis
    by (auto simp: method_routes_def)
qed

section \<open>Registration keeps it\<close>

lemma checkMiddleware_Some: "checkMiddleware mw = Some p \<Longrightarrow> \<exists>i. p = NilMiddleware i"
proof -
  have "checkMiddleware_from i mw = Some p \<Longrightarrow> \<exists>j. p = NilMiddleware j" for i
    by (induction i mw rule: checkMiddleware_from.induct) auto
  then show "checkMiddleware mw = Some p \<Longrightarrow> \<exists>i. p = NilMiddleware i"
    by (simp add: checkMiddleware_def)
qed

text \<open>The three ways a registration ends.\<close>

lemma register_cases:
  assumes "register a m path h g mw = (r, a')"
  obtains (Refused) p where "r = Some p" "a' = a"
  | (Rejected) h' e t p where "\<not> built a" "h = Some h'" "r = Some p"
      "Insert (treeFor a m) path \<lparr>re_h = h', re_pattern = path\<rparr> = (Some e, t)" "a' = put_tree a m t"
  | (Accepted) h' t where "\<not> built a" "h = Some h'" "r = None"
      "Insert (treeFor a m) path \<lparr>re_h = h', re_pattern = path\<rparr> = (None, t)"
      "a' = (put_tree a m t)\<lparr>app_maxParams := max (app_maxParams a) (MaxParams t),
         routes := routes a @ [\<lparr>r_method = m, r_path = path, r_h = h', r_group = g, r_mws = map the mw\<rparr>]\<rparr>"
proof (cases "checkMiddleware mw = None \<and> \<not> built a \<and> m \<noteq> [] \<and> \<not> hasLowercaseByte m \<and> h \<noteq> None")
  case False
  then have "fst (register a m path h g mw) \<noteq> None \<and> snd (register a m path h g mw) = a"
    by (auto simp: register_def split: option.split)
  then show ?thesis
    using assms Refused by auto
next
  case True
  then obtain h' where h': "h = Some h'" by auto
  obtain e t where ins: "Insert (treeFor a m) path \<lparr>re_h = h', re_pattern = path\<rparr> = (e, t)" by fastforce
  show ?thesis
  proof (cases e)
    case None
    then show ?thesis
      using assms True h' ins Accepted [of h' t] by (simp add: register_def Let_def)
  next
    case (Some err)
    then show ?thesis
      using assms True h' ins Rejected [of h' _ err t] by (auto simp: register_def)
  qed
qed

lemma holds_routes_accept:
  assumes inv: "holds_routes a plain_entry" "wf_routes a"
    and ins: "Insert (treeFor a m) path (plain_entry r) = (None, t)"
    and r: "r_method r = m" "r_path r = path"
    and a': "routes a' = routes a @ [r]" "\<And>m'. treeFor a' m' = (if m' = m then t else treeFor a m')"
  shows "holds_routes a' plain_entry"
    and "distinct (map (\<lambda>r. (r_method r, r_path r)) (routes a'))"
proof -
  have T: "inv_Tree (treeFor a m)"
    "registered (treeFor a m) = map_of (method_routes plain_entry (routes a) m)"
    using inv(1) by (auto simp: holds_routes_def)
  have t: "inv_Tree t" "registered t = (registered (treeFor a m))(path \<mapsto> plain_entry r)"
    "registered (treeFor a m) path = None"
    using inv_Tree_Insert [OF T(1) ins] registered_Insert_ok [OF T(1) ins] Insert_ok_fresh [OF T(1) ins]
    by auto
  have fresh: "map_of (method_routes plain_entry (routes a) m) path = None"
    using t(3) T(2) by simp
  have dist: "distinct (map (\<lambda>r. (r_method r, r_path r)) (routes a))"
    using inv(2) by (simp add: wf_routes_def)
  have "(r_method r', r_path r') \<noteq> (m, path)" if "r' \<in> set (routes a)" for r'
    using that fresh method_routes_iff [OF dist, of plain_entry m path] by auto
  then show "distinct (map (\<lambda>r. (r_method r, r_path r)) (routes a'))"
    using dist a'(1) r by fastforce
  have "registered t = map_of (method_routes plain_entry (routes a @ [r]) m)"
    using t(2) T(2) fresh r
    by (auto simp: method_routes_append method_routes_def fun_eq_iff map_add_def split: option.splits)
  moreover have "method_routes plain_entry (routes a @ [r]) m' = method_routes plain_entry (routes a) m'"
    if "m' \<noteq> m" for m'
    using that r by (simp add: method_routes_def)
  ultimately show "holds_routes a' plain_entry"
    using inv(1) t(1) a' by (auto simp: holds_routes_def)
qed

lemma replayable_accept:
  assumes "holds_routes a plain_entry" "replayable a"
    and ins: "Insert (treeFor a m) path (plain_entry r) = (None, t)"
    and r: "r_method r = m" "r_path r = path"
    and a': "routes a' = routes a @ [r]" "\<And>m'. treeFor a' m' = (if m' = m then t else treeFor a m')"
  shows "replayable a'"
  unfolding replayable_def
proof (intro allI)
  fix f m'
  obtain S where S: "rt.replay empty_Tree (method_routes f (routes a) m') = (None, S)"
    "below_Tree S (treeFor a m')"
    using assms(2) by (auto simp: replayable_def)
  show "\<exists>S. rt.replay empty_Tree (method_routes f (routes a') m') = (None, S) \<and> below_Tree S (treeFor a' m')"
  proof (cases "m' = m")
    case True
    have "inv_Tree (treeFor a m)" using assms(1) by (simp add: holds_routes_def)
    then obtain S' where "rt.replay empty_Tree (method_routes f (routes a) m @ [(path, f r)]) = (None, S')"
      "below_Tree S' t"
      using rt.replay_snoc_ok [of "treeFor a m" _ S path "plain_entry r" "f r"] S True ins by auto
    then show ?thesis
      using True r a' by (auto simp: method_routes_def)
  next
    case False
    then show ?thesis
      using S r a' by (auto simp: method_routes_def)
  qed
qed

lemma inv_App_reject:
  assumes "inv_App nf a" "\<not> built a" "Insert (treeFor a m) path e = (Some err, t)"
  shows "inv_App nf (put_tree a m t)"
proof -
  have a: "holds_routes a plain_entry" "replayable a"
    using assms(1,2) by (auto simp: inv_App_def)
  then have T: "inv_Tree (treeFor a m)" by (simp add: holds_routes_def)
  have "inv_Tree t" "registered t = registered (treeFor a m)"
    "below_Tree S t" if "below_Tree S (treeFor a m)" for S
    using inv_Tree_Insert [OF T assms(3)] registered_Insert_err [OF T assms(3)]
      below_Tree_err [OF T that assms(3)] by auto
  moreover have "inv_Tree t" "registered t = registered (treeFor a m)"
    using inv_Tree_Insert [OF T assms(3)] registered_Insert_err [OF T assms(3)] by auto
  ultimately have "holds_routes (put_tree a m t) plain_entry" "replayable (put_tree a m t)"
    using a by (fastforce simp: holds_routes_def replayable_def)+
  then show ?thesis
    using assms(1,2) by (simp add: inv_App_def wf_routes_def)
qed

lemma inv_App_register:
  assumes "inv_App nf a" "\<And>i. g = Some i \<Longrightarrow> i < length (groups a)"
    and "register a m path h g mw = (r, a')"
  shows "inv_App nf a'"
  using assms(3)
proof (cases rule: register_cases)
  case Refused
  then show ?thesis using assms(1) by simp
next
  case Rejected
  then show ?thesis using inv_App_reject [OF assms(1)] by simp
next
  case (Accepted h' t)
  define rt where "rt = \<lparr>r_method = m, r_path = path, r_h = h', r_group = g, r_mws = map the mw\<rparr>"
  have a: "holds_routes a plain_entry" "replayable a" "wf_routes a"
    using assms(1) Accepted(1) by (auto simp: inv_App_def)
  have ins: "Insert (treeFor a m) path (plain_entry rt) = (None, t)"
    using Accepted(4) by (simp add: plain_entry_def rt_def)
  have fields: "r_method rt = m" "r_path rt = path" "routes a' = routes a @ [rt]"
    "\<And>m'. treeFor a' m' = (if m' = m then t else treeFor a m')"
    by (simp_all add: Accepted(5) rt_def)
  have "wf_routes a'"
    using holds_routes_accept(2) [OF a(1,3) ins fields] a(3) assms(2)
    by (auto simp: wf_routes_def Accepted(5))
  then show ?thesis
    using holds_routes_accept(1) [OF a(1,3) ins fields] replayable_accept [OF a(1,2) ins fields]
      assms(1) Accepted(1) by (simp add: inv_App_def Accepted(5))
qed

lemma inv_App_statics [simp]:
  "inv_App nf (a\<lparr>statics := x\<rparr>) = inv_App nf a"
  "inv_App nf (a\<lparr>staticStopped := y\<rparr>) = inv_App nf a"
proof -
  have "compiled_entry (a\<lparr>statics := x\<rparr>) = compiled_entry a"
    "compiled_entry (a\<lparr>staticStopped := y\<rparr>) = compiled_entry a"
    by (simp_all add: fun_eq_iff compiled_entry_def middlewareFor_def)
  then show "inv_App nf (a\<lparr>statics := x\<rparr>) = inv_App nf a"
    "inv_App nf (a\<lparr>staticStopped := y\<rparr>) = inv_App nf a"
    by (simp_all add: inv_App_def wf_routes_def holds_routes_def replayable_def)
qed

lemma register_groups: "groups (snd (register a m path h g mw)) = groups a"
  by (auto simp: register_def Let_def split: option.split prod.split)

lemma inv_App_register_all:
  assumes "inv_App nf a" "\<And>i. g = Some i \<Longrightarrow> i < length (groups a)"
  shows "inv_App nf (snd (register_all a rs g mw))"
  using assms
proof (induction a rs g mw rule: register_all.induct)
  case (2 a m path h rs g mw)
  obtain r a' where reg: "register a m path (Some h) g mw = (r, a')" by fastforce
  have "inv_App nf a'" by (rule inv_App_register [OF 2(2,3) reg])
  moreover have "groups a' = groups a" using register_groups [of a m path "Some h" g mw] reg by simp
  ultimately show ?case
    using 2(1) [of None a'] 2(3) reg by (cases r) auto
qed simp

lemma inv_App_static:
  assumes "inv_App nf a" "\<And>i. g = Some i \<Longrightarrow> i < length (groups a)"
  shows "inv_App nf (snd (App_static a serve redirect pre fsys g mw))"
proof (cases fsys)
  case (Some fs)
  obtain r a' where "register_all a (static_routes pre (serve (length (statics a))) redirect) g mw = (r, a')"
    by fastforce
  then show ?thesis
    using Some inv_App_register_all [where g = g and rs = "static_routes pre (serve (length (statics a))) redirect" and mw = mw, OF assms]
    by (cases r) (simp_all add: App_static_def)
qed (simp add: App_static_def assms(1))

section \<open>Groups and the group chain\<close>

lemma wf_groups_snoc:
  "wf_groups gs \<Longrightarrow> (\<And>p. g_parent g = Some p \<Longrightarrow> p < length gs) \<Longrightarrow> wf_groups (gs @ [g])"
  by (auto simp: wf_groups_def nth_append not_less less_Suc_eq)

lemma wf_groups_update:
  "wf_groups gs \<Longrightarrow> i < length gs \<Longrightarrow> g_parent g = g_parent (gs ! i) \<Longrightarrow> wf_groups (gs[i := g])"
  by (auto simp: wf_groups_def nth_list_update)

text \<open>Under \<open>wf_groups\<close> the walk is the one the code makes: up to the root, no cut.\<close>

lemma ancestors_wf:
  assumes "wf_groups gs" "g < length gs"
  shows "ancestors gs g =
    g # (case g_parent (gs ! g) of None \<Rightarrow> [] | Some p \<Rightarrow> ancestors gs p)"
  using assms by (subst ancestors.simps) (auto simp: wf_groups_def split: option.split)

lemma groupChain_wf:
  assumes "wf_groups gs" "g < length gs"
  shows "groupChain gs (Some g) = groupChain gs (g_parent (gs ! g)) @ [gs ! g]"
  by (simp add: groupChain_def ancestors_wf [OF assms] split: option.split)

section \<open>Every operation keeps the invariant\<close>

text \<open>Changing only the App's or a group's middleware, or adding a group.\<close>

lemma inv_App_middleware:
  assumes "inv_App nf a" "\<not> built a" "wf_groups gs" "length (groups a) \<le> length gs"
  shows "inv_App nf (a\<lparr>app_mws := ms, groups := gs\<rparr>)"
  using assms
  by (force simp: inv_App_def wf_routes_def holds_routes_def replayable_def)

lemma inv_App_Use:
  assumes "inv_App nf a"
  shows "inv_App nf (snd (Use a mw))"
proof (cases "checkMiddleware mw = None \<and> \<not> built a")
  case True
  then show ?thesis
    using inv_App_middleware [OF assms, of "groups a" "app_mws a @ map the mw"] assms
    by (simp add: Use_def inv_App_def)
qed (use assms in \<open>auto simp: Use_def split: option.splits\<close>)

lemma inv_App_groups:
  assumes "inv_App nf a" "\<not> built a" "wf_groups gs" "length (groups a) \<le> length gs"
  shows "inv_App nf (a\<lparr>groups := gs\<rparr>)"
  using inv_App_middleware [OF assms, of "app_mws a"] by simp

lemma inv_App_App_Group:
  assumes "inv_App nf a"
  shows "inv_App nf (snd (App_Group a pre mw))"
proof (cases "checkGroupPrefix pre = None \<and> checkMiddleware mw = None \<and> \<not> built a")
  case True
  have "wf_groups (groups a)" using assms by (simp add: inv_App_def)
  then show ?thesis
    using True by (auto simp: App_Group_def intro!: inv_App_groups [OF assms] wf_groups_snoc)
qed (use assms in \<open>auto simp: App_Group_def split: option.splits\<close>)

lemma inv_App_Group_Group:
  assumes "inv_App nf a" "g < length (groups a)"
  shows "inv_App nf (snd (Group_Group a g pre mw))"
proof (cases "checkGroupPrefix pre = None \<and> checkMiddleware mw = None \<and> \<not> built a")
  case True
  have "wf_groups (groups a)" using assms by (simp add: inv_App_def)
  then show ?thesis
    using True assms(2)
    by (auto simp: Group_Group_def intro!: inv_App_groups [OF assms(1)] wf_groups_snoc)
qed (use assms in \<open>auto simp: Group_Group_def split: option.splits\<close>)

lemma inv_App_Group_Use:
  assumes "inv_App nf a" "g < length (groups a)"
  shows "inv_App nf (snd (Group_Use a g mw))"
proof (cases "checkMiddleware mw = None \<and> \<not> built a")
  case True
  have "wf_groups (groups a)" using assms by (simp add: inv_App_def)
  then show ?thesis
    using True assms(2)
    by (auto simp: Group_Use_def intro!: inv_App_groups [OF assms(1)] wf_groups_update)
qed (use assms in \<open>auto simp: Group_Use_def split: option.splits\<close>)

lemma New_fields [simp]:
  "treeFor (New nf) m = empty_Tree" "routes (New nf) = []" "groups (New nf) = []"
  "app_mws (New nf) = []" "\<not> built (New nf)" "\<not> buildOnce (New nf)"
  by (simp_all add: New_def treeFor_def split: option.split)

lemma inv_App_New: "inv_App nf (New nf)"
  by (auto simp: inv_App_def wf_groups_def wf_routes_def holds_routes_def replayable_def
      method_routes_def fun_eq_iff rt.le_emp)

section \<open>Build\<close>

lemma middlewareFor_put_tree [simp]: "middlewareFor (put_tree a m t) r = middlewareFor a r"
  by (simp add: middlewareFor_def)

text \<open>One loop over the routes is one replay per method.\<close>

lemma build_loop_replay:
  assumes "\<And>m. rt.replay (treeFor a m) (method_routes (compiled_entry a) rs m) = (None, S m)"
  shows "\<exists>a'. build_loop a rs = (None, a') \<and> (\<forall>m. treeFor a' m = S m)
    \<and> app_mws a' = app_mws a \<and> routes a' = routes a \<and> groups a' = groups a
    \<and> buildOnce a' = buildOnce a \<and> app_maxParams a' = app_maxParams a"
  using assms
proof (induction rs arbitrary: a)
  case Nil
  then show ?case by (auto simp: method_routes_def)
next
  case (Cons r rs)
  let ?m = "r_method r"
  obtain t where ins: "Insert (treeFor a ?m) (r_path r) (compiled_entry a r) = (None, t)"
    using Cons.prems [of ?m] by (auto simp: method_routes_def split: prod.splits option.splits)
  have entry: "compiled_entry (put_tree a ?m t) = compiled_entry a"
    by (simp add: compiled_entry_def fun_eq_iff)
  have "rt.replay (treeFor (put_tree a ?m t) m) (method_routes (compiled_entry (put_tree a ?m t)) rs m)
      = (None, S m)" for m
    using Cons.prems [of m] ins by (cases "m = ?m") (auto simp: entry method_routes_def)
  from Cons.IH [OF this] obtain a' where "build_loop (put_tree a ?m t) rs = (None, a')"
    "\<forall>m. treeFor a' m = S m" "app_mws a' = app_mws a" "routes a' = routes a" "groups a' = groups a"
    "buildOnce a' = buildOnce a" "app_maxParams a' = app_maxParams a"
    by auto
  then show ?case
    using ins by (auto simp: compiled_entry_def)
qed

lemma build_ok:
  assumes inv: "inv_App nf a" and nb: "\<not> built a"
  obtains a' where "build nf (a\<lparr>buildOnce := True\<rparr>) = (None, a')" "inv_App nf a'" "built a'"
    "routes a' = routes a" "app_mws a' = app_mws a" "groups a' = groups a"
    "app_maxParams a' = app_maxParams a"
proof -
  let ?a = "a\<lparr>buildOnce := True, trees := (\<lambda>_. empty_Tree), rare := (\<lambda>_. None)\<rparr>"
  have entry: "compiled_entry ?a = compiled_entry a"
    by (simp add: compiled_entry_def middlewareFor_def fun_eq_iff)
  have "\<exists>S. rt.replay empty_Tree (method_routes (compiled_entry a) (routes a) m) = (None, S)" for m
    using inv nb by (auto simp: inv_App_def replayable_def)
  then obtain S where S: "\<And>m. rt.replay empty_Tree (method_routes (compiled_entry a) (routes a) m) = (None, S m)"
    by metis
  obtain b where b: "build_loop ?a (routes a) = (None, b)" "\<forall>m. treeFor b m = S m"
    "app_mws b = app_mws a" "routes b = routes a" "groups b = groups a" "buildOnce b"
    "app_maxParams b = app_maxParams a"
    using build_loop_replay [of ?a "routes a" S] S by (auto simp: entry)
  define a' where "a' = b\<lparr>miss := Compile nf (app_mws b),
    statics := (if staticStopped b then statics b else map staticEntry_build (statics b)),
    built := True\<rparr>"
  have dist: "distinct (map (\<lambda>r. (r_method r, r_path r)) (routes a))"
    using inv by (simp add: inv_App_def wf_routes_def)
  have "inv_Tree (S m)" "registered (S m) = map_of (method_routes (compiled_entry a) (routes a) m)" for m
    using rt.invar_replay [OF rt.invar_emp, of "method_routes (compiled_entry a) (routes a) m"]
      rt.reg_replay [OF rt.invar_emp S [of m]] S [of m]
      map_of_rev_distinct [OF method_routes_distinct [OF dist]]
    by (auto simp: map_add_def fun_eq_iff split: option.splits)
  moreover have "compiled_entry a' = compiled_entry a"
    by (simp add: compiled_entry_def middlewareFor_def fun_eq_iff a'_def b)
  ultimately have "inv_App nf a'"
    using inv b by (simp add: inv_App_def wf_routes_def holds_routes_def a'_def)
  then show ?thesis
    using that [of a'] b by (simp add: build_def a'_def)
qed

lemma Build_ok:
  assumes "inv_App nf a" "Build nf a = (r, a')"
  shows "r = None \<and> inv_App nf a' \<and> built a' \<and> routes a' = routes a \<and> app_mws a' = app_mws a
    \<and> groups a' = groups a \<and> app_maxParams a' = app_maxParams a"
proof (cases "built a")
  case True
  then show ?thesis using assms by (auto simp: Build_def inv_App_def)
next
  case False
  then have "\<not> buildOnce a" using assms(1) by (simp add: inv_App_def)
  then have "build nf (a\<lparr>buildOnce := True\<rparr>) = (r, a')" using assms(2) by (simp add: Build_def)
  with build_ok [OF assms(1) False] show ?thesis by (metis prod.inject)
qed

lemma inv_App_reachable: "reachable nf a \<Longrightarrow> inv_App nf a"
proof (induction rule: reachable.induct)
  case (reach_Handle a m path h mw)
  then show ?case
    using inv_App_register [of nf a None m path h mw] by (cases "Handle a m path h mw") (auto simp: Handle_def)
next
  case (reach_App_verb a v path h mw)
  then show ?case
    using inv_App_register [of nf a None "verb v" path h mw]
    by (cases "App_verb v a path h mw") (auto simp: App_verb_def)
next
  case (reach_Group_Handle a g m path h mw)
  then show ?case
    using inv_App_register [of nf a "Some g" m "g_prefix (groups a ! g) @ path" h mw]
    by (cases "register a m (g_prefix (groups a ! g) @ path) h (Some g) mw")
      (auto simp: Group_Handle_def split: option.split)
next
  case (reach_Group_verb a g v path h mw)
  then show ?case
    using inv_App_register [of nf a "Some g" "verb v" "g_prefix (groups a ! g) @ path" h mw]
    by (cases "register a (verb v) (g_prefix (groups a ! g) @ path) h (Some g) mw")
      (auto simp: Group_verb_def split: option.split)
next
  case (reach_App_Static a serve redirect pre fsys mw)
  then show ?case
    using inv_App_static [of nf a None] by (auto simp: App_Static_def split: option.split)
next
  case (reach_Group_Static a g serve redirect pre fsys mw)
  then show ?case
    using inv_App_static [of nf a "Some g"] by (auto simp: Group_Static_def split: option.split)
next
  case (reach_stopStatic a)
  then show ?case by (simp add: stopStatic_def)
next
  case (reach_Build a)
  then show ?case
    using Build_ok [of nf a] by (cases "Build nf a") auto
qed (auto intro: inv_App_New inv_App_Use inv_App_App_Group inv_App_Group_Group inv_App_Group_Use)

section \<open>Lookups of a built App\<close>

lemma built_routes:
  assumes "reachable nf a" "built a"
  shows "inv_Tree (treeFor a m)"
    and "registered (treeFor a m) p = Some e \<longleftrightarrow>
      (\<exists>r\<in>set (routes a). r_method r = m \<and> r_path r = p \<and> compiled_entry a r = e)"
proof -
  have "distinct (map (\<lambda>r. (r_method r, r_path r)) (routes a))" "holds_routes a (compiled_entry a)"
    using inv_App_reachable [OF assms(1)] assms(2) by (auto simp: inv_App_def wf_routes_def)
  then show "inv_Tree (treeFor a m)"
    "registered (treeFor a m) p = Some e \<longleftrightarrow>
      (\<exists>r\<in>set (routes a). r_method r = m \<and> r_path r = p \<and> compiled_entry a r = e)"
    by (auto simp: holds_routes_def method_routes_iff)
qed

lemma dispatch_miss:
  assumes "reachable nf a" "built a" "clean params"
  shows "fst (lookupEntry a m path params) = None \<longleftrightarrow>
    (\<forall>r\<in>set (routes a). r_method r = m \<longrightarrow> matches (r_path r) path = None)"
proof -
  note tab = built_routes [OF assms(1,2)]
  obtain res params' where look: "Lookup (treeFor a m) path params = (res, params')" by fastforce
  show ?thesis
  proof (cases res)
    case None
    have "registered (treeFor a m) (r_path r) \<noteq> None"
      if "r \<in> set (routes a)" "r_method r = m" for r
      using that tab(2) by blast
    moreover have "\<forall>p. registered (treeFor a m) p = None \<or> matches p path = None"
      using Lookup_miss [OF tab(1) assms(3), of m path params'] look None by simp
    ultimately have "\<forall>r\<in>set (routes a). r_method r = m \<longrightarrow> matches (r_path r) path = None"
      by blast
    then show ?thesis
      using look None by (simp add: lookupEntry_treeFor)
  next
    case (Some e)
    then show ?thesis
      using Lookup_hit [OF tab(1) assms(3), of m path e params'] look tab(2)
      by (fastforce simp: lookupEntry_treeFor)
  qed
qed

section \<open>Properties\<close>

text \<open>
  C2: Build succeeds after every sequence of registration calls, including calls that
  panicked and left partial nodes in the trees: the routes that were accepted can all
  be inserted again. Afterwards the App is built, and building again changes nothing.
\<close>

theorem Build_total:
  assumes "reachable nf a"
  shows "\<exists>a'. Build nf a = (None, a') \<and> built a' \<and> routes a' = routes a \<and> Build nf a' = (None, a')"
proof -
  obtain r a' where B: "Build nf a = (r, a')" by fastforce
  then have "r = None" "inv_App nf a'" "built a'" "routes a' = routes a"
    using Build_ok [OF inv_App_reachable [OF assms] B] by auto
  then show ?thesis
    using B by (auto simp: Build_def [of nf a'] inv_App_def)
qed

theorem Build_total_witness:
  "\<exists>a'. Build (0::nat) (snd (Handle (New 0) ''GET'' ''/a'' (Some 1) [])) = (None, a') \<and> built a'"
  using Build_total [OF reach_Handle [OF reach_New], of "0::nat" "''GET''" "''/a''" "Some 1" "[]"]
  by blast

text \<open>
  C1: What a built App answers a request with. A hit is the entry of a registered route
  of the request's method whose pattern matches the whole path, no matching route of
  that method has priority over it, the captures are exactly those of its pattern, and
  its handler is the registered one wrapped by the App's middleware outermost, then
  each group's from the outermost group inwards, then the route's own.
\<close>

theorem dispatch_hit:
  assumes "reachable nf a" "built a" "clean params"
    and "lookupEntry a m path params = (Some e, params')"
  shows "\<exists>r\<in>set (routes a). \<exists>cs. r_method r = m \<and> matches (r_path r) path = Some cs
    \<and> re_pattern e = r_path r
    \<and> re_h e = foldr (\<lambda>mw h. mw h)
        (app_mws a @ concat (map g_mws (groupChain (groups a) (r_group r))) @ r_mws r) (r_h r)
    \<and> entries params' = entries params @ cs
    \<and> (\<forall>r'\<in>set (routes a). r_method r' = m \<longrightarrow> matches (r_path r') path \<noteq> None \<longrightarrow>
          before (r_path r) (r_path r'))"
proof -
  note tab = built_routes [OF assms(1,2)]
  obtain p cs where hit: "registered (treeFor a m) p = Some e" "matches p path = Some cs"
    "entries params' = entries params @ cs"
    "\<forall>q. registered (treeFor a m) q \<noteq> None \<longrightarrow> matches q path \<noteq> None \<longrightarrow> before p q"
    using Lookup_hit [OF tab(1) assms(3), of m path e params'] assms(4) by (auto simp: lookupEntry_treeFor)
  then obtain r where r: "r \<in> set (routes a)" "r_method r = m" "r_path r = p" "compiled_entry a r = e"
    using tab(2) by auto
  have "registered (treeFor a m) (r_path r') \<noteq> None" if "r' \<in> set (routes a)" "r_method r' = m" for r'
    using that tab(2) by blast
  then show ?thesis
    using hit r by (intro bexI [of _ r] exI [of _ cs])
      (auto simp: compiled_entry_def middlewareFor_def Compile_foldr)
qed

theorem dispatch_hit_witness:
  "\<exists>r\<in>set (routes (snd (Build (0::nat) (snd (Handle (New 0) ''GET'' ''/a'' (Some 1) []))))).
     r_method r = ''GET'' \<and> (\<exists>cs. matches (r_path r) ''/a'' = Some cs)"
proof -
  let ?a = "snd (Build (0::nat) (snd (Handle (New 0) ''GET'' ''/a'' (Some 1) [])))"
  have reach: "reachable 0 ?a" by (intro reach_Build reach_Handle reach_New)
  have "built ?a" by code_simp
  moreover have "fst (lookupEntry ?a ''GET'' ''/a'' (MakeParams 0)) \<noteq> None" by code_simp
  then obtain e params' where "lookupEntry ?a ''GET'' ''/a'' (MakeParams 0) = (Some e, params')"
    by (metis option.exhaust prod.collapse)
  ultimately show ?thesis
    using dispatch_hit [OF reach _ clean_MakeParams, of "''GET''" "''/a''" 0 e params'] by blast
qed

text \<open>
  Once built, an App is frozen: every further registration call panics and leaves
  the App, its groups included, exactly as it was.
\<close>

lemma built_frozen:
  assumes "built a"
  shows "fst (Use a mw) \<noteq> None \<and> snd (Use a mw) = a
    \<and> fst (Handle a m path h mw') \<noteq> None \<and> snd (Handle a m path h mw') = a
    \<and> fst (Group_Use a g mw) \<noteq> None \<and> snd (Group_Use a g mw) = a
    \<and> fst (Group_Handle a g m path h mw') \<noteq> None \<and> snd (Group_Handle a g m path h mw') = a
    \<and> isl (fst (App_Group a pre mw)) \<and> snd (App_Group a pre mw) = a
    \<and> isl (fst (Group_Group a g pre mw)) \<and> snd (Group_Group a g pre mw) = a
    \<and> fst (App_Static a serve redirect pre fsys mw) \<noteq> None \<and> snd (App_Static a serve redirect pre fsys mw) = a
    \<and> fst (Group_Static a serve redirect g pre fsys mw) \<noteq> None
    \<and> snd (Group_Static a serve redirect g pre fsys mw) = a"
proof -
  have reg: "\<exists>p. register a m path h g mw = (Some p, a)" for m path h g mw
    using assms by (auto simp: register_def split: option.split)
  have "\<exists>p. App_static a serve redirect pre fsys g mw = (Some p, a)" for pre g
  proof -
    obtain m path h rs where rs: "static_routes pre (serve (length (statics a))) redirect = (m, path, h) # rs"
      by (cases "pre = []") (auto simp: static_routes_def)
    obtain p where "register a m path (Some h) g mw = (Some p, a)" using reg by blast
    then show ?thesis using rs by (simp add: App_static_def split: option.split)
  qed
  from this [of pre None] this [of "g_prefix (groups a ! g) @ pre" "Some g"] show ?thesis
    using assms
    by (auto simp: Use_def Handle_def register_def Group_Use_def Group_Handle_def App_Group_def
        Group_Group_def App_Static_def Group_Static_def split: option.split)
qed

text \<open>
  C8: Middleware is not positional. Calling \<open>Use\<close> on the App, or on a group, before or
  after a route is registered leaves the App in the same state, so a route registered
  early is wrapped by middleware added late.
\<close>

theorem Use_not_positional:
  "snd (Use (snd (register a m path h g mw)) ms) = snd (register (snd (Use a ms)) m path h g mw)
   \<and> snd (Group_Use (snd (Group_Handle a i m path h mw)) j ms) =
       snd (Group_Handle (snd (Group_Use a j ms)) i m path h mw)"
proof -
  have tree: "treeFor (snd (Use a ms)) m = treeFor a m" "treeFor (snd (Group_Use a j ms)) m = treeFor a m"
    by (simp_all add: Use_def Group_Use_def split: option.split)
  have pre: "g_prefix (groups (snd (Group_Use a j ms)) ! i) = g_prefix (groups a ! i)"
    by (cases "j < length (groups a)")
      (auto simp: Group_Use_def nth_list_update list_update_beyond split: option.split)
  have put: "put_tree (a\<lparr>app_mws := x\<rparr>) m t = (put_tree a m t)\<lparr>app_mws := x\<rparr>"
    "put_tree (a\<lparr>groups := y\<rparr>) m t = (put_tree a m t)\<lparr>groups := y\<rparr>" for x y t
    by (simp_all add: put_tree_def split: option.split)
  have "snd (Use (snd (register a m path h g mw)) ms) = snd (register (snd (Use a ms)) m path h g mw)"
  proof (cases "checkMiddleware ms = None \<and> \<not> built a")
    case True
    then show ?thesis
      by (cases "Insert (treeFor a m) path \<lparr>re_h = the h, re_pattern = path\<rparr>"; cases h;
          cases "fst (Insert (treeFor a m) path \<lparr>re_h = the h, re_pattern = path\<rparr>)")
        (auto simp: Use_def register_def Let_def put split: option.split)
  next
    case False
    then show ?thesis
      by (cases "checkMiddleware ms") (auto simp: Use_def register_def split: option.split)
  qed
  moreover have "snd (Group_Use (snd (register a m p h (Some i) mw)) j ms) =
      snd (register (snd (Group_Use a j ms)) m p h (Some i) mw)" for p
  proof (cases "checkMiddleware ms = None \<and> \<not> built a")
    case True
    then show ?thesis
      by (cases "Insert (treeFor a m) p \<lparr>re_h = the h, re_pattern = p\<rparr>"; cases h;
          cases "fst (Insert (treeFor a m) p \<lparr>re_h = the h, re_pattern = p\<rparr>)")
        (auto simp: Group_Use_def register_def Let_def put split: option.split)
  next
    case False
    then show ?thesis
      by (cases "checkMiddleware ms") (auto simp: Group_Use_def register_def split: option.split)
  qed
  ultimately show ?thesis
    by (simp add: Group_Handle_def pre split: option.split)
qed


end
