(* ===== verification/Dispatch.thy ===== *)
theory Dispatch
  imports Ctx Routes_Build
begin

text \<open>
  The dispatch path: the error funnel of \<open>errors.go\<close> and \<open>app.go\<close>, \<open>HandleError\<close>, the
  recording of a stream (\<open>stream.go\<close>, \<open>sse.go\<close>) and \<open>App.handle\<close>. The App's handlers and
  its ErrorHandler are values of the model's call type; a panic is a value of it, and
  the recovers of the source are the case distinctions on it.
\<close>

type_synonym ('w, 'x, 'v, 's) Handler = "(('w, 'x, 'v, 's) Ctx, go_error option) call"
type_synonym ('w, 'x, 'v, 's) ErrorHandler = "go_error \<Rightarrow> (('w, 'x, 'v, 's) Ctx, unit) call"

section \<open>The funnel\<close>

definition respond :: "('w, 's) fasthttp \<Rightarrow> int \<Rightarrow> string \<Rightarrow> (('w, 'x, 'v, 's) Ctx, unit) call" where
  "respond F code msg =
     (let v = validStatus code
      in then_do (if v \<noteq> code then tell (f_Log F (LogInvalidStatus code v)) else (\<lambda>c. (Ret (), c))) (\<lambda>_.
         then_do (tell (f_SetStatusCode F v)) (\<lambda>_.
         then_do (tell (f_SetContentType F MIMETextPlainUTF8)) (\<lambda>_.
           tell (f_SetBody F (if msg = [] then f_StatusMessage F v else msg))))))"

definition respondPanic :: "('w, 's) fasthttp \<Rightarrow> pvalue \<Rightarrow> bytes \<Rightarrow> (('w, 'x, 'v, 's) Ctx, unit) call" where
  "respondPanic F v stack =
     then_do (tell (f_Log F (LogPanic v stack))) (\<lambda>_. respond F 500 ''Internal Server Error'')"

text \<open>What follows the type switch: the two \<open>errors.As\<close> walks, in their order.\<close>

definition DefaultErrorHandler_walk :: "('w, 's) fasthttp \<Rightarrow> ('w, 'x, 'v, 's) ErrorHandler" where
  "DefaultErrorHandler_walk F err =
     (case errors_As sel_Panic err of
        Some (v, s) \<Rightarrow> respondPanic F v s
      | None \<Rightarrow>
          (case errors_As sel_HTTP err of
             Some (code, msg) \<Rightarrow> respond F code msg
           | None \<Rightarrow>
               then_do (tell (f_Log F (LogUnhandled err))) (\<lambda>_. respond F 500 ''Internal Server Error'')))"

definition DefaultErrorHandler :: "('w, 's) fasthttp \<Rightarrow> ('w, 'x, 'v, 's) ErrorHandler" where
  "DefaultErrorHandler F err =
     (case err of
        PanicError v s \<Rightarrow> respondPanic F v s
      | HTTPError code msg None \<Rightarrow> respond F code msg
      | _ \<Rightarrow> DefaultErrorHandler_walk F err)"

definition callErrorHandler ::
  "('w, 's) fasthttp \<Rightarrow> ('w, 'x, 'v, 's) ErrorHandler \<Rightarrow> ('w, 'x, 'v, 's) ErrorHandler"
where
  "callErrorHandler F EH err c =
     (case EH err c of
        (Ret u, c') \<Rightarrow> (Ret u, c')
      | (Panic v, c') \<Rightarrow>
          then_do (tell (f_Log F (LogHandlerPanicked v))) (\<lambda>_. respond F 500 ''Internal Server Error'') c')"

definition HandleError ::
  "bool \<Rightarrow> ('w, 's) fasthttp \<Rightarrow> ('w, 'x, 'v, 's) ErrorHandler \<Rightarrow> go_error option \<Rightarrow>
   (('w, 'x, 'v, 's) Ctx, unit) call"
where
  "HandleError dbg F EH err =
     then_do (check dbg) (\<lambda>_ c.
       case err of
         None \<Rightarrow> (Ret (), c)
       | Some e \<Rightarrow>
           if handled c then (Ret (), c)
           else if \<not> has_app c then (Panic errNil, c\<lparr>handled := True\<rparr>)
           else callErrorHandler F EH e (c\<lparr>handled := True\<rparr>))"

definition notFound :: "('w, 'x, 'v, 's) Handler" where
  "notFound c = (Ret (Some ErrNotFound), c)"

section \<open>Recording a stream\<close>

definition registerStream ::
  "('w, 's) fasthttp \<Rightarrow> int \<Rightarrow> 's option \<Rightarrow> (('w, 'x, 'v, 's) Ctx, unit) call"
where
  "registerStream F heartbeat fn c =
     (case fn of
        None \<Rightarrow> (Panic (PVal ''rice: Stream or SSE callback is nil''), c)
      | Some f \<Rightarrow>
          if streamSet c then (Panic (PVal ''rice: Stream or SSE called twice for one request''), c)
          else then_do (ask (f_IsHead F)) (\<lambda>head c.
                 if head then (Ret (), c)
                 else (Ret (), c\<lparr>streamFn := Some f, streamHeartbeat := heartbeat\<rparr>))
               (c\<lparr>streamSet := True\<rparr>))"

definition Ctx_Stream ::
  "bool \<Rightarrow> ('w, 's) fasthttp \<Rightarrow> 's option \<Rightarrow> ('w, 'x, 'v, 's) Handler"
where
  "Ctx_Stream dbg F fn =
     then_do (check dbg) (\<lambda>_. then_do (registerStream F 0 fn) (\<lambda>_ c. (Ret None, c)))"

text \<open>\<open>wrap\<close> is the closure that hands the callback an \<open>SSE\<close> around its \<open>Stream\<close>.\<close>

definition Ctx_SSE ::
  "bool \<Rightarrow> ('w, 's) fasthttp \<Rightarrow> ('f \<Rightarrow> 's) \<Rightarrow> int \<Rightarrow> 'f option \<Rightarrow> ('w, 'x, 'v, 's) Handler"
where
  "Ctx_SSE dbg F wrap heartbeat fn =
     then_do (check dbg) (\<lambda>_ c.
       if heartbeat < 0 then (Panic (PVal ''rice: SSE heartbeat is negative; use 0 to disable it''), c)
       else if fn = None then (Panic (PVal ''rice: Stream or SSE callback is nil''), c)
       else
         then_do (tell (f_SetContentType F ''text/event-stream'')) (\<lambda>_.
         then_do (tell (f_SetHeader F ''Cache-Control'' ''no-cache'')) (\<lambda>_.
         then_do (registerStream F heartbeat (map_option wrap fn)) (\<lambda>_ c. (Ret None, c)))) c)"

definition startStream :: "('w, 's) fasthttp \<Rightarrow> 's \<Rightarrow> int \<Rightarrow> 'w \<Rightarrow> 'w" where
  "startStream F fn heartbeat w = f_SetBodyStreamWriter F fn heartbeat (f_ImmediateHeaderFlush F w)"

section \<open>App.handle\<close>

text \<open>The statements after the deferred function is installed: lookup, handler, funnel.\<close>

definition handle_body ::
  "('w, 's) fasthttp \<Rightarrow> ('w, 'x, 'v, 's) ErrorHandler \<Rightarrow> ('w, 'x, 'v, 's) Handler App \<Rightarrow> 'w \<Rightarrow>
   (('w, 'x, 'v, 's) Ctx, unit) call"
where
  "handle_body F EH a w c =
     (let (e, ps) = lookupEntry a (f_Method F w) (f_Path F w) (params c);
          h = (case e of None \<Rightarrow> miss a | Some en \<Rightarrow> re_h en);
          c1 = c\<lparr>params := ps, route := (case e of None \<Rightarrow> [] | Some en \<Rightarrow> re_pattern en)\<rparr>
      in then_do h (\<lambda>err c2.
           case err of
             None \<Rightarrow> (Ret (), c2)
           | Some er \<Rightarrow>
               if handled c2 then (Ret (), c2)
               else callErrorHandler F EH er (c2\<lparr>handled := True\<rparr>)) c1)"

text \<open>The deferred function's recover.\<close>

definition handle_recover ::
  "('w, 's) fasthttp \<Rightarrow> ('w, 'x, 'v, 's) ErrorHandler \<Rightarrow> bytes \<Rightarrow>
   unit res \<times> ('w, 'x, 'v, 's) Ctx \<Rightarrow> unit res \<times> ('w, 'x, 'v, 's) Ctx"
where
  "handle_recover F EH stack rc =
     (case rc of
        (Ret _, c) \<Rightarrow> (Ret (), c)
      | (Panic v, c) \<Rightarrow> callErrorHandler F EH (PanicError v stack) (c\<lparr>handled := True\<rparr>))"

text \<open>
  A panic that leaves the deferred function ends the process; the Ctx is then lost.
  \<open>stack\<close> is what \<open>debug.Stack\<close> prints.
\<close>

definition handle ::
  "bool \<Rightarrow> ('w, 's) fasthttp \<Rightarrow> ('w, 'x, 'v, 's) ErrorHandler \<Rightarrow> bytes \<Rightarrow> bool \<Rightarrow>
   ('w, 'x, 'v, 's) Handler App \<Rightarrow> nat \<Rightarrow> ('w, 'x, 'v, 's) Ctx list \<Rightarrow> 'w \<Rightarrow>
   unit res \<times> ('w, 'x, 'v, 's) Ctx list \<times> 'w"
where
  "handle dbg F EH stack draining a pick pool w =
     (let w1 = (if draining then f_SetConnectionClose F w else w);
          (c0, pool1) = acquire (app_maxParams a) pick pool w1;
          (r, c) = handle_recover F EH stack (handle_body F EH a w1 c0);
          w2 = (case fctx c of None \<Rightarrow> w1 | Some w' \<Rightarrow> w')
      in case r of
           Panic v \<Rightarrow> (Panic v, pool1, w2)
         | Ret _ \<Rightarrow>
             (Ret (), release dbg c pool1,
              case streamFn c of
                Some fn \<Rightarrow> if handled c then w2 else startStream F fn (streamHeartbeat c) w2
              | None \<Rightarrow> w2))"

section \<open>The funnel always answers\<close>

lemma tell_fctx: "fctx c = Some w \<Longrightarrow> tell f c = (Ret (), c\<lparr>fctx := Some (f w)\<rparr>)"
  by (simp add: tell_def)

text \<open>What \<open>respond\<close> leaves on a bound Ctx, and what the client then reads.\<close>

definition answers_with :: "('w, 's) fasthttp \<Rightarrow> int \<Rightarrow> bytes \<Rightarrow> (('w, 'x, 'v, 's) Ctx, unit) call \<Rightarrow>
    ('w, 'x, 'v, 's) Ctx \<Rightarrow> bool" where
  "answers_with F code body f c \<longleftrightarrow>
     (\<exists>w. f c = (Ret (), c\<lparr>fctx := Some w\<rparr>)
        \<and> (response_laws F \<longrightarrow> f_StatusCode F w = code \<and> f_Body F w = body))"

lemma respond_answers:
  assumes "fctx c \<noteq> None"
  shows "answers_with F (validStatus code)
    (if msg = [] then f_StatusMessage F (validStatus code) else msg) (respond F code msg) c"
proof -
  obtain w where w: "fctx c = Some w" using assms by auto
  have nz: "validStatus code \<noteq> 0" using validStatus_bounds [of code] by auto
  show ?thesis
    using w nz
    by (auto simp: answers_with_def respond_def Let_def then_do_def tell_fctx response_laws_def)
qed

lemma answers_after_log:
  assumes "fctx c \<noteq> None" "\<And>c'. fctx c' \<noteq> None \<Longrightarrow> answers_with F code body f c'"
  shows "answers_with F code body (then_do (tell (f_Log F l)) (\<lambda>_. f)) c"
proof -
  obtain w where w: "fctx c = Some w" using assms(1) by auto
  show ?thesis
    using assms(2) [of "c\<lparr>fctx := Some (f_Log F l w)\<rparr>"] w
    by (auto simp: answers_with_def then_do_def tell_fctx)
qed

lemmas answers_500 =
  respond_answers [where code = 500 and msg = "''Internal Server Error''", simplified validStatus_def, simplified]

lemma respondPanic_answers:
  "fctx c \<noteq> None \<Longrightarrow> answers_with F 500 ''Internal Server Error'' (respondPanic F v s) c"
  unfolding respondPanic_def by (rule answers_after_log) (auto intro: answers_500)

text \<open>The status and body an error stands for.\<close>

definition error_status :: "go_error \<Rightarrow> int" where
  "error_status err =
     (if errors_As sel_Panic err \<noteq> None then 500
      else case errors_As sel_HTTP err of Some (code, _) \<Rightarrow> validStatus code | None \<Rightarrow> 500)"

definition error_body :: "('w, 's) fasthttp \<Rightarrow> go_error \<Rightarrow> bytes" where
  "error_body F err =
     (if errors_As sel_Panic err \<noteq> None then ''Internal Server Error''
      else case errors_As sel_HTTP err of
        Some (code, msg) \<Rightarrow> if msg = [] then f_StatusMessage F (validStatus code) else msg
      | None \<Rightarrow> ''Internal Server Error'')"

lemma walk_answers:
  assumes "fctx c \<noteq> None"
  shows "answers_with F (error_status err) (error_body F err) (DefaultErrorHandler_walk F err) c"
proof (cases "errors_As sel_Panic err")
  case (Some vs)
  then show ?thesis
    using respondPanic_answers [OF assms]
    by (cases vs) (simp add: DefaultErrorHandler_walk_def error_status_def error_body_def)
next
  case None
  show ?thesis
  proof (cases "errors_As sel_HTTP err")
    case (Some cm)
    then show ?thesis
      using None respond_answers [OF assms]
      by (cases cm) (auto simp: DefaultErrorHandler_walk_def error_status_def error_body_def)
  next
    case none: None
    then show ?thesis
      using None answers_after_log [OF assms answers_500, of F "LogUnhandled err"]
      by (simp add: DefaultErrorHandler_walk_def error_status_def error_body_def)
  qed
qed

lemma DefaultErrorHandler_walk_eq: "DefaultErrorHandler F err = DefaultErrorHandler_walk F err"
proof (cases err)
  case (HTTPError code msg cause)
  then show ?thesis
    by (cases cause)
      (auto simp: DefaultErrorHandler_def DefaultErrorHandler_walk_def errors_As.simps)
next
  case (PanicError v s)
  then show ?thesis
    by (simp add: DefaultErrorHandler_def DefaultErrorHandler_walk_def errors_As.simps)
qed (simp_all add: DefaultErrorHandler_def)

lemma DefaultErrorHandler_answers:
  "fctx c \<noteq> None \<Longrightarrow>
   answers_with F (error_status err) (error_body F err) (DefaultErrorHandler F err) c"
  by (simp add: DefaultErrorHandler_walk_eq walk_answers)

section \<open>Well-behaved funnels\<close>

lemma bound_fctx [simp]: "bound c \<Longrightarrow> bound (c\<lparr>fctx := Some w\<rparr>)"
  by (simp add: bound_def clean_Ctx_def)

lemma bound_handled [simp]: "bound (c\<lparr>handled := b\<rparr>) = bound c"
  by (simp add: bound_def clean_Ctx_def)

lemma wb_respond [api]: "well_behaved (respond F code msg)"
  unfolding respond_def Let_def by (cases "validStatus code = code") (auto intro!: api)

lemma wb_DefaultErrorHandler [api]: "well_behaved (DefaultErrorHandler F err)"
  unfolding well_behaved_def
proof (intro allI impI)
  fix c :: "('a, 'b, 'c, 'd) Ctx"
  assume "bound c"
  then show "bound (snd (DefaultErrorHandler F err c))
    \<and> (handled c \<longrightarrow> handled (snd (DefaultErrorHandler F err c)))"
    using DefaultErrorHandler_answers [of c F err] by (auto simp: answers_with_def bound_def clean_Ctx_def)
qed

text \<open>
  Whatever the ErrorHandler does, the funnel returns: its panic is answered with 500.
\<close>

lemma callErrorHandler_returns:
  assumes "well_behaved (EH err)" "bound c"
  shows "\<exists>c'. callErrorHandler F EH err c = (Ret (), c') \<and> bound c' \<and> (handled c \<longrightarrow> handled c')"
proof -
  obtain r c1 where EH: "EH err c = (r, c1)" by fastforce
  then have c1: "bound c1" "handled c \<longrightarrow> handled c1"
    using assms by (auto simp: well_behaved_def dest!: spec [of _ c])
  show ?thesis
  proof (cases r)
    case (Ret u)
    then show ?thesis using EH c1 by (simp add: callErrorHandler_def)
  next
    case (Panic v)
    have "fctx c1 \<noteq> None" using c1 by (simp add: bound_def)
    then have "answers_with F 500 ''Internal Server Error''
        (then_do (tell (f_Log F (LogHandlerPanicked v))) (\<lambda>_. respond F 500 ''Internal Server Error'')) c1"
      by (rule answers_after_log) (auto intro: answers_500)
    then show ?thesis
      using EH Panic c1 by (auto simp: callErrorHandler_def answers_with_def)
  qed
qed

lemma wb_callErrorHandler [api]:
  assumes "well_behaved (EH err)"
  shows "well_behaved (callErrorHandler F EH err)"
  using callErrorHandler_returns [of EH err _ F, OF assms] by (fastforce simp: well_behaved_def)

lemma wb_settle [api]:
  assumes "well_behaved f"
  shows "well_behaved (\<lambda>c. f (c\<lparr>handled := True\<rparr>))"
  unfolding well_behaved_def
proof (intro allI impI)
  fix c :: "('a, 'b, 'c, 'd) Ctx"
  assume "bound c"
  then have "bound (c\<lparr>handled := True\<rparr>)" by simp
  then show "bound (snd (f (c\<lparr>handled := True\<rparr>)))
      \<and> (handled c \<longrightarrow> handled (snd (f (c\<lparr>handled := True\<rparr>))))"
    using assms by (simp add: well_behaved_def)
qed

lemma wb_if [api]:
  assumes "well_behaved f" "well_behaved g"
  shows "well_behaved (\<lambda>c. if P c then f c else g c)"
  using assms by (simp add: well_behaved_def)

lemma wb_case_option [api]:
  assumes "well_behaved f" "\<And>x. well_behaved (g x)"
  shows "well_behaved (\<lambda>c. case opt of None \<Rightarrow> f c | Some x \<Rightarrow> g x c)"
  using assms by (cases opt) simp_all

lemma wb_HandleError [api]:
  assumes "\<And>e. well_behaved (EH e)"
  shows "well_behaved (HandleError dbg F EH err)"
  unfolding HandleError_def
  by (intro api wb_settle [OF wb_callErrorHandler] wb_settle [OF wb_ret] assms)

lemma HandleError_settles:
  assumes "\<forall>e. well_behaved (EH e)" "bound c"
  shows "\<exists>c'. HandleError dbg F EH (Some e) c = (Ret (), c') \<and> bound c' \<and> handled c'"
proof (cases "handled c")
  case True
  then show ?thesis using assms(2) by (simp add: HandleError_def bound_calls)
next
  case False
  have "bound (c\<lparr>handled := True\<rparr>)" using assms(2) by simp
  from callErrorHandler_returns [of EH e, OF assms(1) [rule_format] this, of F] show ?thesis
    using assms(2) False by (auto simp: HandleError_def bound_calls bound_def)
qed

lemma wb_registerStream [api]: "well_behaved (registerStream F hb fn)"
  by (auto simp: well_behaved_def registerStream_def then_do_def ask_def bound_def clean_Ctx_def
      split: option.split)

lemma wb_Ctx_Stream [api]: "well_behaved (Ctx_Stream dbg F fn)"
  unfolding Ctx_Stream_def by (intro api)

lemma wb_notFound [api]: "well_behaved notFound"
  by (simp add: well_behaved_def notFound_def)

section \<open>Well-behaved applications\<close>

text \<open>Every handler is well behaved and every middleware keeps handlers so.\<close>

definition keeps_behaved :: "('w, 'x, 'v, 's) Handler middleware \<Rightarrow> bool" where
  "keeps_behaved mw \<longleftrightarrow> (\<forall>h. well_behaved h \<longrightarrow> well_behaved (mw h))"

definition behaved_App :: "('w, 'x, 'v, 's) Handler App \<Rightarrow> bool" where
  "behaved_App a \<longleftrightarrow>
     list_all keeps_behaved (app_mws a)
     \<and> list_all (\<lambda>g. list_all keeps_behaved (g_mws g)) (groups a)
     \<and> list_all (\<lambda>r. well_behaved (r_h r) \<and> list_all keeps_behaved (r_mws r)) (routes a)"

lemma wb_Compile:
  "well_behaved h \<Longrightarrow> list_all keeps_behaved mws \<Longrightarrow> well_behaved (Compile h mws)"
  by (induction mws) (auto simp: keeps_behaved_def)

lemma ancestors_bound: "j \<in> set (ancestors gs g) \<Longrightarrow> j \<le> g"
proof (induction gs g rule: ancestors.induct)
  case (1 gs g)
  show ?case
  proof (cases "g_parent (gs ! g)")
    case None
    then show ?thesis using 1(2) by (simp add: ancestors.simps [of gs g])
  next
    case (Some p)
    then show ?thesis
      using 1(1) [OF Some] 1(2) by (simp add: ancestors.simps [of gs g] split: if_splits) linarith
  qed
qed

lemma behaved_groupChain:
  assumes "behaved_App a" "\<And>i. g = Some i \<Longrightarrow> i < length (groups a)"
  shows "list_all (\<lambda>g. list_all keeps_behaved (g_mws g)) (groupChain (groups a) g)"
proof (cases g)
  case (Some i)
  have "j < length (groups a)" if "j \<in> set (ancestors (groups a) i)" for j
    using assms(2) [OF Some] ancestors_bound [OF that] by simp
  then show ?thesis
    using assms(1) Some by (auto simp: groupChain_def behaved_App_def list_all_iff)
qed (simp add: groupChain_def)

lemma wb_lookup:
  assumes "reachable notFound a" "built a" "behaved_App a" "clean ps"
    and "lookupEntry a m path ps = (e, ps')"
  shows "well_behaved (case e of None \<Rightarrow> miss a | Some en \<Rightarrow> re_h en) \<and> clean ps'"
proof -
  note inv = inv_App_reachable [OF assms(1)]
  note tab = built_routes [OF assms(1,2)]
  have look: "Lookup (treeFor a m) path ps = (e, ps')"
    using assms(5) by (simp add: lookupEntry_treeFor)
  show ?thesis
  proof (cases e)
    case None
    have "miss a = Compile notFound (app_mws a)"
      using inv assms(2) by (simp add: inv_App_def)
    then show ?thesis
      using None Lookup_miss [OF tab(1) assms(4)] look assms(3) wb_Compile [OF wb_notFound, of "app_mws a"]
      by (simp add: behaved_App_def)
  next
    case (Some en)
    obtain p where p: "registered (treeFor a m) p = Some en" "clean ps'"
      using Lookup_hit [OF tab(1) assms(4)] look Some by blast
    then obtain r where r: "r \<in> set (routes a)" "compiled_entry a r = en"
      using tab(2) by auto
    have "list_all keeps_behaved (middlewareFor a r)"
    proof -
      have "list_all (\<lambda>g. list_all keeps_behaved (g_mws g)) (groupChain (groups a) (r_group r))"
        using behaved_groupChain [OF assms(3), of "r_group r"] r(1) inv
        by (simp add: inv_App_def wf_routes_def)
      then show ?thesis
        using assms(3) r(1) by (auto simp: middlewareFor_def behaved_App_def list_all_iff)
    qed
    moreover have "well_behaved (r_h r)"
      using assms(3) r(1) by (simp add: behaved_App_def list_all_iff)
    ultimately show ?thesis
      using Some p(2) r(2) wb_Compile by (auto simp: compiled_entry_def)
  qed
qed

lemma handle_body_bound:
  assumes "reachable notFound a" "built a" "behaved_App a" "\<And>e. well_behaved (EH e)" "bound c"
  shows "bound (snd (handle_body F EH a w c))"
proof -
  obtain e ps where look: "lookupEntry a (f_Method F w) (f_Path F w) (params c) = (e, ps)" by fastforce
  define h where "h = (case e of None \<Rightarrow> miss a | Some en \<Rightarrow> re_h en)"
  define c1 where "c1 = c\<lparr>params := ps, route := (case e of None \<Rightarrow> [] | Some en \<Rightarrow> re_pattern en)\<rparr>"
  have "clean (params c)" using assms(5) by (simp add: bound_def clean_Ctx_def)
  then have h: "well_behaved h" "clean ps"
    using wb_lookup [OF assms(1-3) _ look] by (auto simp: h_def)
  then have c1: "bound c1"
    using assms(5) by (simp add: c1_def bound_def clean_Ctx_def)
  have "well_behaved (then_do h (\<lambda>err c2. case err of None \<Rightarrow> (Ret (), c2)
      | Some er \<Rightarrow> if handled c2 then (Ret (), c2) else callErrorHandler F EH er (c2\<lparr>handled := True\<rparr>)))"
    by (intro api wb_settle [OF wb_callErrorHandler] assms(4) h(1))
  then show ?thesis
    using c1 look by (simp add: handle_body_def Let_def h_def [symmetric] c1_def [symmetric] well_behaved_def)
qed

lemma handle_recover_returns:
  assumes "\<And>e. well_behaved (EH e)" "bound (snd rc)"
  shows "\<exists>c'. handle_recover F EH stack rc = (Ret (), c') \<and> bound c'"
proof (cases rc)
  case (Pair r c)
  then show ?thesis
    using assms callErrorHandler_returns [of EH _ "c\<lparr>handled := True\<rparr>" F]
    by (cases r) (auto simp: handle_recover_def)
qed

text \<open>The Ctx a request is dispatched on, and the end of a request the funnel answered.\<close>

lemma acquired_bound:
  assumes "\<forall>d\<in>set pool. blank d" "acquire n pick pool w = (c, pool')"
  shows "bound c"
  using acquire_blank(1) [OF assms]
  by (auto simp: bound_def clean_Ctx_def newCtx_def clean_store_def)

lemma handle_answered:
  assumes "acquire (app_maxParams a) pick pool w = (c0, pool1)"
    and "handle_recover F EH stack (handle_body F EH a w c0) = (Ret (), c)"
    and "handled c" "fctx c = Some w'"
  shows "snd (snd (handle dbg F EH stack False a pick pool w)) = w'"
  using assms by (simp add: handle_def split: option.split)

section \<open>An App with middleware and no route\<close>

lemma Use_Build_fields:
  assumes "checkMiddleware mws = None"
  shows "reachable nf (snd (Build nf (snd (Use (New nf) mws))))"
    "built (snd (Build nf (snd (Use (New nf) mws))))"
    "routes (snd (Build nf (snd (Use (New nf) mws)))) = []"
    "groups (snd (Build nf (snd (Use (New nf) mws)))) = []"
    "app_mws (snd (Build nf (snd (Use (New nf) mws)))) = map the mws"
proof -
  have r: "reachable nf (snd (Use (New nf) mws))"
    by (intro reach_Use reach_New)
  then show "reachable nf (snd (Build nf (snd (Use (New nf) mws))))"
    by (rule reach_Build)
  obtain x a' where B: "Build nf (snd (Use (New nf) mws)) = (x, a')" by fastforce
  show "built (snd (Build nf (snd (Use (New nf) mws))))"
    "routes (snd (Build nf (snd (Use (New nf) mws)))) = []"
    "groups (snd (Build nf (snd (Use (New nf) mws)))) = []"
    "app_mws (snd (Build nf (snd (Use (New nf) mws)))) = map the mws"
    using Build_ok [OF inv_App_reachable [OF r] B] assms B by (simp_all add: Use_def)
qed

section \<open>Properties\<close>

text \<open>
  C9: The fast path of the default error handler, which matches only the concrete types,
  answers every error as the two \<open>errors.As\<close> walks alone would.
\<close>

theorem DefaultErrorHandler_fast_path:
  "DefaultErrorHandler F err = DefaultErrorHandler_walk F err"
  by (rule DefaultErrorHandler_walk_eq)

text \<open>What the two walks say of the tree, and the response they choose.\<close>

lemma As_Panic_iff: "errors_As sel_Panic err = None \<longleftrightarrow> (\<nexists>v s. in_chain (PanicError v s) err)"
  unfolding errors_As_None by (metis sel_Panic.elims option.distinct(1) sel_Panic.simps(1))

lemma As_HTTP_iff: "errors_As sel_HTTP err = None \<longleftrightarrow> (\<nexists>code msg cause. in_chain (HTTPError code msg cause) err)"
  unfolding errors_As_None by (metis sel_HTTP.elims option.distinct(1) sel_HTTP.simps(1))

lemma response_of_HTTP:
  assumes no: "\<nexists>v s. in_chain (PanicError v s) err" and h: "\<exists>code msg cause. in_chain (HTTPError code msg cause) err"
  shows "\<exists>code msg cause. in_chain (HTTPError code msg cause) err
    \<and> error_status err = validStatus code
    \<and> error_body F err = (if msg = [] then f_StatusMessage F (validStatus code) else msg)"
proof -
  obtain code msg where cm: "errors_As sel_HTTP err = Some (code, msg)"
    using h As_HTTP_iff [of err] by (cases "errors_As sel_HTTP err") auto
  have np: "errors_As sel_Panic err = None" using no As_Panic_iff by simp
  obtain cause where "in_chain (HTTPError code msg cause) err"
    using errors_As_SomeD [OF cm] by (auto elim: sel_HTTP.elims)
  then show ?thesis
    using cm np by (intro exI [of _ code] exI [of _ msg] exI [of _ cause]) (simp add: error_status_def error_body_def)
qed

lemma response_of_other:
  assumes "(\<exists>v s. in_chain (PanicError v s) err) \<or> (\<nexists>code msg cause. in_chain (HTTPError code msg cause) err)"
  shows "error_status err = 500 \<and> error_body F err = ''Internal Server Error''"
proof (cases "errors_As sel_Panic err")
  case None
  then have "errors_As sel_HTTP err = None" using assms As_Panic_iff [of err] As_HTTP_iff [of err] by blast
  then show ?thesis using None by (simp add: error_status_def error_body_def)
qed (simp add: error_status_def error_body_def)

text \<open>
  C6: What the default error handler sends. It always returns, with a status from 100 to
  599. A recovered panic anywhere in the error's chain is a 500 with a generic body,
  whatever else the chain holds; otherwise an \<open>HTTPError\<close> of the chain decides status
  and body; otherwise it is a 500 with the generic body, so no other error's text is
  sent.
\<close>

theorem DefaultErrorHandler_response:
  assumes "response_laws F" "fctx c \<noteq> None"
  shows "\<exists>w. DefaultErrorHandler F err c = (Ret (), c\<lparr>fctx := Some w\<rparr>)
    \<and> 100 \<le> f_StatusCode F w \<and> f_StatusCode F w \<le> 599
    \<and> ((\<exists>v s. in_chain (PanicError v s) err) \<longrightarrow>
         f_StatusCode F w = 500 \<and> f_Body F w = ''Internal Server Error'')
    \<and> ((\<nexists>v s. in_chain (PanicError v s) err) \<longrightarrow>
         (if \<exists>code msg cause. in_chain (HTTPError code msg cause) err
          then \<exists>code msg cause. in_chain (HTTPError code msg cause) err
             \<and> f_StatusCode F w = validStatus code
             \<and> f_Body F w = (if msg = [] then f_StatusMessage F (validStatus code) else msg)
          else f_StatusCode F w = 500 \<and> f_Body F w = ''Internal Server Error''))"
proof -
  obtain w where w: "DefaultErrorHandler F err c = (Ret (), c\<lparr>fctx := Some w\<rparr>)"
    "f_StatusCode F w = error_status err" "f_Body F w = error_body F err"
    using DefaultErrorHandler_answers [OF assms(2)] assms(1) by (auto simp: answers_with_def)
  have bounds: "100 \<le> error_status err \<and> error_status err \<le> 599"
    using validStatus_bounds by (auto simp: error_status_def split: option.split)
  show ?thesis
  proof (intro exI [of _ w] conjI impI w(1))
    show "if \<exists>code msg cause. in_chain (HTTPError code msg cause) err
          then \<exists>code msg cause. in_chain (HTTPError code msg cause) err
             \<and> f_StatusCode F w = validStatus code
             \<and> f_Body F w = (if msg = [] then f_StatusMessage F (validStatus code) else msg)
          else f_StatusCode F w = 500 \<and> f_Body F w = ''Internal Server Error''"
      if "\<nexists>v s. in_chain (PanicError v s) err"
      unfolding w(2,3) using response_of_HTTP [OF that, of F] response_of_other [of err F] by presburger
  qed (use bounds response_of_other [of err F] w(2,3) in simp_all)
qed

theorem DefaultErrorHandler_response_witness:
  "\<exists>w. DefaultErrorHandler wire_http (HTTPError 400 ''bad'' (Some (PanicError (PVal ''boom'') [])))
        ((newCtx 0 :: (nat wire, unit, nat, nat) Ctx)\<lparr>fctx := Some get_wire\<rparr>) =
      (Ret (), (newCtx 0)\<lparr>fctx := Some w\<rparr>) \<and> f_StatusCode wire_http w = 500"
proof -
  have "in_chain (PanicError (PVal ''boom'') []) (HTTPError 400 ''bad'' (Some (PanicError (PVal ''boom'') [])))"
    by (rule chain_step [OF _ chain_refl]) simp
  then show ?thesis
    using DefaultErrorHandler_response [OF wire_laws,
        of "(newCtx 0 :: (nat wire, unit, nat, nat) Ctx)\<lparr>fctx := Some get_wire\<rparr>"
           "HTTPError 400 ''bad'' (Some (PanicError (PVal ''boom'') []))"]
    by (auto simp: newCtx_def)
qed

text \<open>
  A request is settled once: after \<open>HandleError\<close> has answered, a further call, with
  any error, changes nothing.
\<close>

lemma HandleError_settles_once:
  assumes "bound c" "\<forall>e. well_behaved (EH e)"
    and "HandleError dbg F EH (Some err) c = (r, c')"
  shows "r = Ret () \<and> handled c' \<and> HandleError dbg F EH err' c' = (Ret (), c')"
proof -
  have "r = Ret () \<and> handled c' \<and> bound c'"
  proof (cases "handled c")
    case True
    then show ?thesis using assms(1,3) by (auto simp: HandleError_def then_do_def check_bound)
  next
    case False
    then show ?thesis
      using assms callErrorHandler_returns [of EH err "c\<lparr>handled := True\<rparr>" F]
      by (auto simp: HandleError_def then_do_def check_bound bound_def clean_Ctx_def)
  qed
  then show ?thesis
    by (auto simp: HandleError_def then_do_def check_bound split: option.split)
qed

text \<open>Dispatch returns with a blank pool, for every handler and ErrorHandler that keeps the Ctx bound.\<close>

lemma handle_returns:
  assumes "reachable notFound a" "built a" "behaved_App a" "\<forall>e. well_behaved (EH e)"
    and "\<forall>d\<in>set pool. blank d"
  shows "fst (handle dbg F EH stack draining a pick pool w) = Ret ()
    \<and> (\<forall>d\<in>set (fst (snd (handle dbg F EH stack draining a pick pool w))). blank d)"
proof -
  let ?w = "if draining then f_SetConnectionClose F w else w"
  obtain c0 pool1 where acq: "acquire (app_maxParams a) pick pool ?w = (c0, pool1)" by fastforce
  then have "bound c0"
    by (rule acquired_bound [OF assms(5)])
  then obtain c where c: "handle_recover F EH stack (handle_body F EH a ?w c0) = (Ret (), c)" "bound c"
    using handle_recover_returns [of EH "handle_body F EH a ?w c0"] handle_body_bound [OF assms(1-3), of EH c0 F ?w]
      assms(4) by blast
  moreover have "\<forall>d\<in>set (release dbg c pool1). blank d"
    using c(2) acquire_blank(2) [OF assms(5) acq] by (intro blank_release) (auto simp: bound_def)
  ultimately show ?thesis
    using acq by (simp add: handle_def Let_def)
qed

text \<open>
  C3: Dispatch never crashes the process and never leaks a Ctx. For a built App of
  well-behaved handlers and any well-behaved ErrorHandler, \<open>handle\<close> returns for every
  request, whether its handler returns, errors or panics and even when the ErrorHandler
  panics, and everything then in the pool is blank.
\<close>

theorem handle_total:
  assumes "reachable notFound a" "built a" "behaved_App a" "\<forall>e. well_behaved (EH e)"
    and "\<forall>d\<in>set pool. blank d"
  shows "fst (handle dbg F EH stack draining a pick pool w) = Ret ()
    \<and> (\<forall>d\<in>set (fst (snd (handle dbg F EH stack draining a pick pool w))). blank d)"
  using handle_returns [OF assms] .

theorem handle_total_witness:
  "fst (handle False wire_http (DefaultErrorHandler wire_http) [] True
     (snd (Build notFound (snd (Use (New (notFound :: (nat wire, unit, nat, nat) Handler)) [])))) 0
     [newCtx 1] get_wire) = Ret ()"
proof -
  let ?a = "snd (Build notFound (snd (Use (New (notFound :: (nat wire, unit, nat, nat) Handler)) [])))"
  have "reachable notFound ?a" "built ?a" "behaved_App ?a"
    using Use_Build_fields [of "[]" "notFound :: (nat wire, unit, nat, nat) Handler"]
    by (simp_all add: behaved_App_def checkMiddleware_def)
  moreover have "\<forall>e. well_behaved (DefaultErrorHandler wire_http e :: ((nat wire, unit, nat, nat) Ctx, unit) call)"
    by (simp add: wb_DefaultErrorHandler)
  ultimately show ?thesis
    using handle_total [of ?a "DefaultErrorHandler wire_http" "[newCtx 1]" False wire_http "[]" True 0 get_wire]
    by (simp add: blank_newCtx)
qed

text \<open>
  C5: A panicking handler or middleware is always answered with a 500 and the generic
  body, and a stream it had recorded is never started: whatever was written before the
  panic, the response the client reads is the funnel's.
\<close>

theorem handle_panic_500:
  fixes a :: "('w, 'x, 'v, 's) Handler App"
  assumes "reachable notFound a" "built a" "behaved_App a" "\<forall>d\<in>set pool. blank d" "response_laws F"
    and "fst (handle_body F (DefaultErrorHandler F) a w (fst (acquire (app_maxParams a) pick pool w))) = Panic v"
  shows "f_StatusCode F (snd (snd (handle dbg F (DefaultErrorHandler F) stack False a pick pool w))) = 500
    \<and> f_Body F (snd (snd (handle dbg F (DefaultErrorHandler F) stack False a pick pool w))) =
        ''Internal Server Error''"
proof -
  let ?EH = "DefaultErrorHandler F :: ('w, 'x, 'v, 's) ErrorHandler"
  obtain c0 pool1 where acq: "acquire (app_maxParams a) pick pool w = (c0, pool1)" by fastforce
  then have "bound c0"
    by (rule acquired_bound [OF assms(4)])
  then have "bound (snd (handle_body F ?EH a w c0))"
    by (intro handle_body_bound [OF assms(1-3)] wb_DefaultErrorHandler)
  moreover obtain c1 where body: "handle_body F ?EH a w c0 = (Panic v, c1)"
    using assms(6) acq by (metis fst_conv prod.collapse)
  ultimately have "fctx (c1\<lparr>handled := True\<rparr>) \<noteq> None"
    by (simp add: bound_def)
  from DefaultErrorHandler_answers [OF this, of F "PanicError v stack"] obtain u where
    u: "?EH (PanicError v stack) (c1\<lparr>handled := True\<rparr>) = (Ret (), c1\<lparr>handled := True, fctx := Some u\<rparr>)"
    "f_StatusCode F u = 500" "f_Body F u = ''Internal Server Error''"
    using assms(5) by (auto simp: answers_with_def error_status_def error_body_def errors_As.simps)
  then have "handle_recover F ?EH stack (handle_body F ?EH a w c0) =
      (Ret (), c1\<lparr>handled := True, fctx := Some u\<rparr>)"
    by (simp add: handle_recover_def body callErrorHandler_def)
  from handle_answered [OF acq this] show ?thesis
    using u(2,3) by simp
qed

definition panicking :: "('w, 'x, 'v, 's) Handler middleware" where
  "panicking h c = (Panic (PVal ''boom''), c)"

theorem handle_panic_500_witness:
  "f_StatusCode wire_http (snd (snd (handle False wire_http (DefaultErrorHandler wire_http) [] False
     (snd (Build notFound (snd (Use (New (notFound :: (nat wire, unit, nat, nat) Handler)) [Some panicking])))) 0
     [newCtx 1] get_wire))) = 500"
proof -
  let ?a = "snd (Build notFound (snd (Use (New (notFound :: (nat wire, unit, nat, nat) Handler)) [Some panicking])))"
  have chk: "checkMiddleware [Some (panicking :: (nat wire, unit, nat, nat) Handler middleware)] = None"
    by (simp add: checkMiddleware_def)
  note a = Use_Build_fields [OF chk, of notFound]
  have "keeps_behaved (panicking :: (nat wire, unit, nat, nat) Handler middleware)"
    by (simp add: keeps_behaved_def well_behaved_def panicking_def)
  then have beh: "behaved_App ?a"
    using a by (simp add: behaved_App_def)
  have miss: "miss ?a = panicking notFound"
    using inv_App_reachable [OF a(1)] a(2,5) by (simp add: inv_App_def)
  have "fst (lookupEntry ?a m path (MakeParams n)) = None" for m path n
    using dispatch_miss [OF a(1,2), of "MakeParams n" m path] a(3) by simp
  then obtain ps where "lookupEntry ?a (f_Method wire_http get_wire) (f_Path wire_http get_wire)
      (MakeParams (Suc 0)) = (None, ps)"
    by (metis prod.collapse)
  then have "fst (handle_body wire_http (DefaultErrorHandler wire_http) ?a get_wire
      (fst (acquire (app_maxParams ?a) 0 [newCtx 1] get_wire))) = Panic (PVal ''boom'')"
    by (auto simp: acquire_def handle_body_def miss panicking_def then_do_def reset_def resetStore_def
        newCtx_def)
  then show ?thesis
    using handle_panic_500 [OF a(1,2) beh _ wire_laws, of "[newCtx 1]" get_wire 0 "PVal ''boom''" False "[]"]
    by (simp add: blank_newCtx)
qed

end
