(* ===== verification/Gates.thy ===== *)
theory Gates
  imports Auth Dispatch
begin

text \<open>
  Middleware that answers some requests itself, installed outermost on an App: what a
  whole dispatch then does, from the pool to the response. The interface is
  \<open>early_refusal\<close>; the two auth middlewares provide it.
\<close>

section \<open>Every request goes through the outermost middleware\<close>

lemma dispatched_outermost:
  assumes "reachable nf a" "built a" "app_mws a = m # ms" "clean ps"
    and "lookupEntry a meth path ps = (e, ps')"
  shows "(\<exists>rest. (case e of None \<Rightarrow> miss a | Some en \<Rightarrow> re_h en) = m rest) \<and> clean ps'"
proof -
  note tab = built_routes [OF assms(1,2)]
  have look: "Lookup (treeFor a meth) path ps = (e, ps')"
    using assms(5) by (simp add: lookupEntry_treeFor)
  show ?thesis
  proof (cases e)
    case None
    have "miss a = Compile nf (app_mws a)"
      using inv_App_reachable [OF assms(1)] assms(2) by (simp add: inv_App_def)
    then show ?thesis
      using None Lookup_miss [OF tab(1) assms(4)] look assms(3,4) by auto
  next
    case (Some en)
    obtain p where "registered (treeFor a meth) p = Some en" "clean ps'"
      using Lookup_hit [OF tab(1) assms(4)] look Some by blast
    then show ?thesis
      using tab(2) [of meth p en] Some assms(3) by (auto simp: compiled_entry_def middlewareFor_def)
  qed
qed

text \<open>The response the default funnel makes of a plain HTTPError.\<close>

definition refusal :: "('w, 's) fasthttp \<Rightarrow> int \<Rightarrow> string \<Rightarrow> 'w \<Rightarrow> 'w" where
  "refusal F code msg w =
     f_SetBody F (if msg = [] then f_StatusMessage F code else msg)
       (f_SetContentType F MIMETextPlainUTF8 (f_SetStatusCode F code w))"

lemma refusal_read:
  assumes "response_laws F" "code \<noteq> 0"
  shows "f_StatusCode F (refusal F code msg w) = code"
    "f_Body F (refusal F code msg w) = (if msg = [] then f_StatusMessage F code else msg)"
  using assms by (simp_all add: refusal_def response_laws_def)

lemma funnel_refusal:
  assumes "validStatus code = code" "fctx c = Some w"
  shows "callErrorHandler F (DefaultErrorHandler F) (HTTPError code msg None) c =
    (Ret (), c\<lparr>fctx := Some (refusal F code msg w)\<rparr>)"
  using assms
  by (simp add: callErrorHandler_def DefaultErrorHandler_def respond_def Let_def then_do_def tell_fctx refusal_def)

section \<open>The interface\<close>

text \<open>
  \<open>refuses w\<close>: the middleware answers the request \<open>w\<close> of a fresh Ctx itself, without
  looking at the rest of the chain, with the error \<open>HTTPError code msg\<close> after writing
  \<open>stamp\<close> on the response.
\<close>

locale early_refusal =
  fixes F :: "('w, 's) fasthttp"
    and gate :: "('w, 'x, 'v, 's) Handler middleware"
    and refuses :: "'w \<Rightarrow> bool"
    and code :: int and msg :: string
    and stamp :: "'w \<Rightarrow> 'w"
  assumes refused: "\<And>c next. bound c \<Longrightarrow> ctx c = None \<Longrightarrow> refuses (req c) \<Longrightarrow>
      gate next c = (Ret (Some (HTTPError code msg None)), on_req stamp c)"
    and status: "validStatus code = code"
begin

lemma body_refused:
  assumes "reachable notFound a" "built a" "app_mws a = gate # ms" "bound c" "ctx c = None" "\<not> handled c"
    and "refuses (req c)"
  shows "\<exists>c'. handle_body F (DefaultErrorHandler F) a w c = (Ret (), c')
    \<and> fctx c' = Some (refusal F code msg (stamp (req c))) \<and> handled c'"
proof -
  obtain e ps where look: "lookupEntry a (f_Method F w) (f_Path F w) (params c) = (e, ps)" by fastforce
  define c1 where "c1 = c\<lparr>params := ps, route := (case e of None \<Rightarrow> [] | Some en \<Rightarrow> re_pattern en)\<rparr>"
  have "clean (params c)" using assms(4) by (simp add: bound_def clean_Ctx_def)
  then obtain rest where h: "(case e of None \<Rightarrow> miss a | Some en \<Rightarrow> re_h en) = gate rest" and ps: "clean ps"
    using dispatched_outermost [OF assms(1-3) _ look] by blast
  have "bound c1" "ctx c1 = None" "req c1 = req c" "\<not> handled c1"
    using assms(4-6) ps by (simp_all add: c1_def bound_def clean_Ctx_def clean_store_def req_def)
  then have "gate rest c1 = (Ret (Some (HTTPError code msg None)), on_req stamp c1)" "\<not> handled (on_req stamp c1)"
      "fctx (on_req stamp c1) = Some (stamp (req c))"
    using refused [of c1] assms(7) by (simp_all add: on_req_def)
  then show ?thesis
    using look funnel_refusal [OF status, of "(on_req stamp c1)\<lparr>handled := True\<rparr>" "stamp (req c)" F msg] h
    by (simp add: handle_body_def Let_def then_do_def c1_def [symmetric])
qed

lemma dispatch_refused:
  assumes "reachable notFound a" "built a" "app_mws a = gate # ms" "\<forall>d\<in>set pool. blank d"
    and "refuses (if drains then f_SetConnectionClose F w else w)"
  shows "snd (snd (handle dbg F (DefaultErrorHandler F) stack drains a pick pool w)) =
    refusal F code msg (stamp (if drains then f_SetConnectionClose F w else w))"
proof -
  let ?w = "if drains then f_SetConnectionClose F w else w"
  obtain c0 pool1 where acq: "acquire (app_maxParams a) pick pool ?w = (c0, pool1)" by fastforce
  then have c0: "bound c0" "ctx c0 = None" "\<not> handled c0" "req c0 = ?w"
    using acquired_bound [OF assms(4) acq] acquire_blank(1) [OF assms(4) acq] by (auto simp: newCtx_def req_def)
  obtain c' where "handle_body F (DefaultErrorHandler F) a ?w c0 = (Ret (), c')"
      "fctx c' = Some (refusal F code msg (stamp ?w))" "handled c'"
    using body_refused [OF assms(1-3) c0(1-3), of ?w] assms(5) c0(4) by auto
  then show ?thesis
    using acq by (simp add: handle_def Let_def handle_recover_def split: option.split)
qed

end

section \<open>The providers\<close>

text \<open>The requests each middleware refuses: no credentials, or credentials Validate rejects.\<close>

definition basic_refuses ::
  "('w, 's) fasthttp \<Rightarrow> ('x \<Rightarrow> string \<Rightarrow> string \<Rightarrow> ('v option \<times> bool \<times> go_error option) res) \<Rightarrow> 'x \<Rightarrow> 'w \<Rightarrow> bool"
where
  "basic_refuses F validate x w \<longleftrightarrow>
     (case basic_credentials (f_Header F ''Authorization'' w) of
        None \<Rightarrow> True
      | Some (u, p) \<Rightarrow> (case validate x u p of Ret (_, False, None) \<Rightarrow> True | _ \<Rightarrow> False))"

definition key_refuses ::
  "('w, 's) fasthttp \<Rightarrow> ('x \<Rightarrow> string \<Rightarrow> ('v option \<times> bool \<times> go_error option) res) \<Rightarrow> bool \<Rightarrow> string \<Rightarrow> 'x \<Rightarrow> 'w \<Rightarrow> bool"
where
  "key_refuses F validate bearer header x w \<longleftrightarrow>
     (case key_credentials bearer (f_Header F header w) of
        None \<Rightarrow> True
      | Some k \<Rightarrow> (case validate x k of Ret (_, False, None) \<Rightarrow> True | _ \<Rightarrow> False))"

definition challenged :: "('w, 's) fasthttp \<Rightarrow> string \<Rightarrow> 'w \<Rightarrow> 'w" where
  "challenged F challenge w = (if challenge = [] then w else f_SetHeader F ''WWW-Authenticate'' challenge w)"

lemma unauthorized_stamps:
  "bound c \<Longrightarrow> unauthorized dbg F challenge c =
     (Ret (Some (HTTPError 401 ''Unauthorized'' None)), on_req (challenged F challenge) c)"
  by (auto simp: bound_calls challenged_def errUnauthorized_def on_req_def req_def bound_def)

lemma BasicAuth_refuses:
  assumes "bound c" "ctx c = None" "basic_refuses F validate base (req c)"
  shows "BasicAuth_handler dbg F base validate \<lparr>k_id = Some slot, k_name = nm\<rparr> challenge next c =
      (Ret (Some (HTTPError 401 ''Unauthorized'' None)), on_req (challenged F challenge) c)"
  using assms
  by (auto simp: BasicAuth_eval decide_def basic_refuses_def cur_ctx_def unauthorized_stamps
      split: option.splits res.splits prod.splits bool.splits)

lemma KeyAuth_refuses:
  assumes "bound c" "ctx c = None" "key_refuses F validate bearer header base (req c)"
  shows "KeyAuth_handler dbg F base validate \<lparr>k_id = Some slot, k_name = nm\<rparr> bearer header challenge next c =
      (Ret (Some (HTTPError 401 ''Unauthorized'' None)), on_req (challenged F challenge) c)"
  using assms
  by (auto simp: KeyAuth_eval decide_def key_refuses_def cur_ctx_def unauthorized_stamps
      split: option.splits res.splits prod.splits bool.splits)

lemma validStatus_401: "validStatus 401 = 401"
  by (simp add: validStatus_def)

interpretation br: early_refusal F
  "BasicAuth_handler dbg F base validate \<lparr>k_id = Some slot, k_name = nm\<rparr> challenge"
  "basic_refuses F validate base" 401 "''Unauthorized''" "challenged F challenge"
  for dbg F base validate slot nm challenge
  by (rule early_refusal.intro [OF BasicAuth_refuses validStatus_401])

interpretation kr: early_refusal F
  "KeyAuth_handler dbg F base validate \<lparr>k_id = Some slot, k_name = nm\<rparr> bearer header challenge"
  "key_refuses F validate bearer header base" 401 "''Unauthorized''" "challenged F challenge"
  for dbg F base validate slot nm bearer header challenge
  by (rule early_refusal.intro [OF KeyAuth_refuses validStatus_401])

section \<open>An App with one middleware and one route\<close>

lemma register_app_mws [simp]: "app_mws (snd (register a m path h g mw)) = app_mws a"
  by (simp add: register_def Let_def split: option.split prod.split)

definition one_route :: "'h \<Rightarrow> 'h middleware \<Rightarrow> string \<Rightarrow> 'h \<Rightarrow> 'h App" where
  "one_route nf mw path h = snd (Build nf (snd (Handle (snd (Use (New nf) [Some mw])) ''GET'' path (Some h) [])))"

lemma one_route_fields:
  "reachable nf (one_route nf mw path h)" "built (one_route nf mw path h)" "app_mws (one_route nf mw path h) = [mw]"
proof -
  let ?b = "snd (Handle (snd (Use (New nf) [Some mw])) ''GET'' path (Some h) [])"
  have r: "reachable nf ?b" by (intro reach_Handle reach_Use reach_New)
  then show "reachable nf (one_route nf mw path h)"
    unfolding one_route_def by (rule reach_Build)
  obtain x a' where B: "Build nf ?b = (x, a')" by fastforce
  have "app_mws ?b = [mw]"
    by (simp add: Handle_def Use_def New_def checkMiddleware_def)
  then show "built (one_route nf mw path h)" "app_mws (one_route nf mw path h) = [mw]"
    using Build_ok [OF inv_App_reachable [OF r] B] B by (simp_all add: one_route_def)
qed

end
