(* ===== verification/Observe.thy ===== *)
theory Observe
  imports Dispatch
begin

text \<open>
  The middleware that names, records and contains a request: \<open>middleware/requestid.go\<close>,
  \<open>logger.go\<close> and \<open>recover.go\<close>. The random bytes, the clock and the stack trace are
  parameters; a log line is a record, kept in order beside the Ctx.
\<close>

section \<open>Recover\<close>

text \<open>\<open>stack\<close> is what \<open>debug.Stack\<close> prints.\<close>

definition Recover :: "bytes \<Rightarrow> ('c, go_error option) call \<Rightarrow> ('c, go_error option) call" where
  "Recover stack next c =
     (case next c of
        (Ret err, c') \<Rightarrow> (Ret err, c')
      | (Panic v, c') \<Rightarrow> (Ret (Some (PanicError v stack)), c'))"

lemma wb_Recover [api]: "well_behaved f \<Longrightarrow> well_behaved (Recover stack f)"
  by (auto simp: well_behaved_def Recover_def split: prod.split res.split)

section \<open>RequestID\<close>

definition requestIDHeader :: string where
  "requestIDHeader = ''X-Request-Id''"

definition validRequestID :: "bytes \<Rightarrow> bool" where
  "validRequestID ident \<longleftrightarrow> \<not> (length ident = 0 \<or> length ident > 64)
     \<and> list_all (\<lambda>b. is_lower b \<or> is_upper b \<or> is_digit b \<or> b = CHR ''-'' \<or> b = CHR ''_'') ident"

text \<open>\<open>hex.EncodeToString\<close>.\<close>

definition hexLower :: "nat \<Rightarrow> char" where
  "hexLower n = ''0123456789abcdef'' ! n"

definition EncodeToString :: "bytes \<Rightarrow> string" where
  "EncodeToString bs = concat (map (\<lambda>b. [hexLower (byte b div 16), hexLower (byte b mod 16)]) bs)"

text \<open>\<open>rnd\<close> is what \<open>rand.Read\<close> fills the 16 bytes with.\<close>

definition newRequestID :: "bytes \<Rightarrow> string" where
  "newRequestID rnd = EncodeToString rnd"

text \<open>The store keeps values of any type: \<open>box\<close> and \<open>unbox\<close> take a string in and out.\<close>

definition RequestID ::
  "bool \<Rightarrow> ('w, 's) fasthttp \<Rightarrow> Key \<Rightarrow> (string \<Rightarrow> 'v) \<Rightarrow> bytes \<Rightarrow>
   ('w, 'x, 'v, 's) Handler \<Rightarrow> ('w, 'x, 'v, 's) Handler"
where
  "RequestID dbg F requestIDKey box rnd next =
     then_do (Header dbg F requestIDHeader) (\<lambda>hdr.
       let ident = (if validRequestID hdr then hdr else newRequestID rnd)
       in then_do (Key_Set dbg requestIDKey (Some (box ident))) (\<lambda>_.
          then_do (SetHeader dbg F requestIDHeader ident) (\<lambda>_. next)))"

definition RequestIDFrom ::
  "bool \<Rightarrow> Key \<Rightarrow> ('v \<Rightarrow> string) \<Rightarrow> (('w, 'x, 'v, 's) Ctx, string) call"
where
  "RequestIDFrom dbg requestIDKey unbox =
     then_do (Key_Get dbg requestIDKey) (\<lambda>(v, ok) c. (Ret (case v of None \<Rightarrow> [] | Some x \<Rightarrow> unbox x), c))"

lemma hexLower_range: "n < 16 \<Longrightarrow> is_lower (hexLower n) \<or> is_digit (hexLower n)"
proof -
  assume "n < 16"
  then have "hexLower n \<in> set ''0123456789abcdef''"
    unfolding hexLower_def by (intro nth_mem) simp
  then show ?thesis by (auto simp: byte_class)
qed

lemma EncodeToString_length: "length (EncodeToString bs) = 2 * length bs"
  by (induction bs) (simp_all add: EncodeToString_def)

lemma EncodeToString_chars: "list_all (\<lambda>c. is_lower c \<or> is_digit c) (EncodeToString bs)"
proof -
  have "byte b div 16 < 16" for b using byte_less_256 [of b] by linarith
  then show ?thesis
    by (auto simp: EncodeToString_def list_all_iff intro!: hexLower_range)
qed

lemma newRequestID_valid:
  assumes "length rnd = 16"
  shows "validRequestID (newRequestID rnd)"
  using assms EncodeToString_length [of rnd] EncodeToString_chars [of rnd]
  by (auto simp: validRequestID_def newRequestID_def list_all_iff)

section \<open>Logger\<close>

datatype level = LevelInfo | LevelError

text \<open>The line's attributes; the address is kept as bytes, before its formatting.\<close>

record log_line =
  l_level :: level
  l_method :: bytes
  l_path :: bytes
  l_status :: int
  l_latency :: int
  l_ip :: bytes
  l_request_id :: "string option"

definition level_of :: "int \<Rightarrow> level" where
  "level_of status = (if status \<ge> 500 then LevelError else LevelInfo)"

definition emit :: "log_line \<Rightarrow> ('c \<times> log_line list, go_error option) call" where
  "emit l cl = (Ret None, (fst cl, snd cl @ [l]))"

text \<open>\<open>enabled\<close> is the logger's \<open>Enabled\<close>; \<open>latency\<close> is \<open>time.Since(start)\<close>.\<close>

definition Logger_line ::
  "bool \<Rightarrow> ('w, 's) fasthttp \<Rightarrow> Key \<Rightarrow> ('v \<Rightarrow> string) \<Rightarrow> int \<Rightarrow> int \<Rightarrow>
   (('w, 'x, 'v, 's) Ctx \<times> log_line list, go_error option) call"
where
  "Logger_line dbg F requestIDKey unbox latency status =
     then_do (on_ctx (Ctx_Method dbg F)) (\<lambda>m.
     then_do (on_ctx (Ctx_Path dbg F)) (\<lambda>p.
     then_do (on_ctx (ClientIP dbg F)) (\<lambda>ip.
     then_do (on_ctx (RequestIDFrom dbg requestIDKey unbox)) (\<lambda>ident.
       emit \<lparr>l_level = level_of status, l_method = m, l_path = p, l_status = status, l_latency = latency,
             l_ip = ip, l_request_id = (if ident \<noteq> [] then Some ident else None)\<rparr>))))"

definition Logger ::
  "bool \<Rightarrow> ('w, 's) fasthttp \<Rightarrow> 'x \<Rightarrow> ('w, 'x, 'v, 's) ErrorHandler \<Rightarrow> ('x \<Rightarrow> level \<Rightarrow> bool) \<Rightarrow> Key \<Rightarrow>
   ('v \<Rightarrow> string) \<Rightarrow> int \<Rightarrow> (('w, 'x, 'v, 's) Ctx \<times> log_line list, go_error option) call \<Rightarrow>
   (('w, 'x, 'v, 's) Ctx \<times> log_line list, go_error option) call"
where
  "Logger dbg F base EH enabled requestIDKey unbox latency next =
     then_do next (\<lambda>err.
     then_do (if err \<noteq> None then on_ctx (HandleError dbg F EH err) else (\<lambda>cl. (Ret (), cl))) (\<lambda>_.
     then_do (on_ctx (RequestCtx dbg)) (\<lambda>_.
     then_do (on_ctx (ask (f_StatusCode F))) (\<lambda>status.
     then_do (on_ctx (Context dbg base)) (\<lambda>x.
       if \<not> enabled x (level_of status) then (\<lambda>cl. (Ret None, cl))
       else Logger_line dbg F requestIDKey unbox latency status)))))"

definition Logger_new :: "bool \<Rightarrow> 'm \<Rightarrow> 'm res" where
  "Logger_new isNil mw =
     (if isNil then Panic (PVal ''rice: middleware.Logger: logger is nil'') else Ret mw)"

text \<open>The line a settled request gives.\<close>

definition line_of :: "('w, 's) fasthttp \<Rightarrow> nat \<Rightarrow> ('v \<Rightarrow> string) \<Rightarrow> int \<Rightarrow> ('w, 'x, 'v, 's) Ctx \<Rightarrow> log_line" where
  "line_of F slot unbox latency c =
     \<lparr>l_level = level_of (f_StatusCode F (req c)), l_method = f_Method F (req c), l_path = f_Path F (req c),
      l_status = f_StatusCode F (req c), l_latency = latency, l_ip = f_RemoteIP F (req c),
      l_request_id = (case fst (ctx_get slot c) of
         None \<Rightarrow> None | Some v \<Rightarrow> if unbox v = [] then None else Some (unbox v))\<rparr>"

lemma RequestIDFrom_bound [bound_calls]:
  "bound c \<Longrightarrow> RequestIDFrom dbg \<lparr>k_id = Some slot, k_name = nm\<rparr> unbox c =
     (Ret (case fst (ctx_get slot c) of None \<Rightarrow> [] | Some x \<Rightarrow> unbox x), c)"
  by (simp add: RequestIDFrom_def bound_calls split: prod.split option.split)

lemma Logger_line_bound:
  assumes "bound c"
  shows "Logger_line dbg F \<lparr>k_id = Some slot, k_name = nm\<rparr> unbox latency (f_StatusCode F (req c)) (c, log) =
     (Ret None, (c, log @ [line_of F slot unbox latency c]))"
  using assms
  by (auto simp: Logger_line_def bound_calls emit_def line_of_def split: option.split)

lemma Logger_tail:
  assumes "\<forall>e. well_behaved (EH e)" "bound c" "next (c0, log) = (Ret err, (c, log))"
  shows "\<exists>c'. Logger dbg F base EH enabled \<lparr>k_id = Some slot, k_name = nm\<rparr> unbox latency next (c0, log) =
      (Ret None, (c', log @ (if enabled (cur_ctx base c') (level_of (f_StatusCode F (req c')))
         then [line_of F slot unbox latency c'] else [])))
    \<and> bound c' \<and> (err = None \<longrightarrow> c' = c) \<and> (err \<noteq> None \<longrightarrow> handled c')"
proof -
  obtain c' where c': "(if err \<noteq> None then on_ctx (HandleError dbg F EH err) else (\<lambda>cl. (Ret (), cl))) (c, log) =
      (Ret (), (c', log))" "bound c'" "err = None \<longrightarrow> c' = c" "err \<noteq> None \<longrightarrow> handled c'"
  proof (cases err)
    case None
    then show ?thesis using that [of c] assms(2) by simp
  next
    case (Some e)
    then show ?thesis using HandleError_settles [OF assms(1,2), of dbg F e] that by auto
  qed
  then show ?thesis
    using assms(3) Logger_line_bound [OF c'(2), of dbg F slot nm unbox latency log]
    by (intro exI [of _ c']) (simp add: Logger_def bound_calls)
qed

text \<open>The id a request is given, and the Ctx the rest of the chain gets.\<close>

definition assigned_id :: "('w, 's) fasthttp \<Rightarrow> bytes \<Rightarrow> ('w, 'x, 'v, 's) Ctx \<Rightarrow> string" where
  "assigned_id F rnd c =
     (let hdr = f_Header F requestIDHeader (req c) in if validRequestID hdr then hdr else newRequestID rnd)"

definition with_id ::
  "('w, 's) fasthttp \<Rightarrow> nat \<Rightarrow> (string \<Rightarrow> 'v) \<Rightarrow> string \<Rightarrow> ('w, 'x, 'v, 's) Ctx \<Rightarrow> ('w, 'x, 'v, 's) Ctx"
where
  "with_id F slot box ident c =
     on_req (f_SetHeader F requestIDHeader ident) (ctx_set slot (Some (box ident)) c)"

section \<open>Properties\<close>

text \<open>
  C31: With Recover directly inside it, Logger writes exactly one line for every request its
  level admits, whatever the chain below does: return, fail or panic. It returns nil, a
  failed or panicking request is settled when the line is written, and the line's status is
  the one the response carries then, at level ERROR exactly from 500 up.
\<close>

theorem Logger_over_Recover:
  assumes "bound c" "\<forall>e. well_behaved (EH e)" "well_behaved body"
  shows "\<exists>c'. Logger dbg F base EH enabled \<lparr>k_id = Some slot, k_name = nm\<rparr> unbox latency
        (Recover stack (on_ctx body)) (c, log) =
      (Ret None, (c', log @ (if enabled (cur_ctx base c') (level_of (f_StatusCode F (req c')))
         then [line_of F slot unbox latency c'] else [])))
    \<and> bound c' \<and> (if fst (body c) = Ret None then c' = snd (body c) else handled c')"
proof -
  obtain r d where body: "body c = (r, d)" by fastforce
  then have d: "bound d" using assms(1,3) by (auto simp: well_behaved_def dest!: spec [of _ c])
  have "Recover stack (on_ctx body) (c, log) =
      (Ret (case r of Ret err \<Rightarrow> err | Panic v \<Rightarrow> Some (PanicError v stack)), (d, log))"
    using body by (auto simp: Recover_def split: res.split)
  from Logger_tail [where ?next = "Recover stack (on_ctx body)", OF assms(2) d this] show ?thesis
    using body by (cases r) fastforce+
qed

definition id_wire :: "(nat wire, unit, string, nat) Ctx" where
  "id_wire = (newCtx 0)\<lparr>fctx := Some get_wire, has_app := True\<rparr>"

lemma bound_id_wire: "bound id_wire"
  unfolding id_wire_def by (rule bound_acquired)

theorem Logger_over_Recover_witness:
  "\<exists>c'. Logger False wire_http () (DefaultErrorHandler wire_http) (\<lambda>_ _. True) \<lparr>k_id = Some 1, k_name = ''r''\<rparr> id 5
        (Recover [] (on_ctx (\<lambda>c. (Panic (PVal ''boom''), c)))) (id_wire, []) =
      (Ret None, (c', [line_of wire_http 1 id 5 c'])) \<and> handled c'"
proof -
  have "well_behaved (\<lambda>c :: (nat wire, unit, string, nat) Ctx. (Panic (PVal ''boom'') :: go_error option res, c))"
    by (rule wb_ret)
  then show ?thesis
    using Logger_over_Recover [OF bound_id_wire, of "DefaultErrorHandler wire_http" "\<lambda>c. (Panic (PVal ''boom''), c)"
        False wire_http "()" "\<lambda>_ _. True" 1 "''r''" id 5 "[]" "[]"]
    by (auto simp: wb_DefaultErrorHandler)
qed

text \<open>
  Every request gets an id that is safe in a log line: 1 to 64 bytes, letters, digits,
  dash and underscore only, however hostile the incoming header. A safe incoming id is
  kept, any other is replaced by 32 hexadecimal digits, and the same id is what
  RequestIDFrom reads below and what the response header carries.
\<close>

lemma RequestID_safe:
  assumes "bound c" "length rnd = 16" "\<And>s. unbox (box s) = s"
  shows "RequestID dbg F \<lparr>k_id = Some slot, k_name = nm\<rparr> box rnd next c =
        next (with_id F slot box (assigned_id F rnd c) c)
    \<and> validRequestID (assigned_id F rnd c) \<and> (\<forall>b\<in>set (assigned_id F rnd c). 32 < byte b \<and> byte b < 127)
    \<and> (assigned_id F rnd c = f_Header F requestIDHeader (req c) \<or> length (assigned_id F rnd c) = 32)
    \<and> RequestIDFrom dbg \<lparr>k_id = Some slot, k_name = nm\<rparr> unbox (with_id F slot box (assigned_id F rnd c) c) =
        (Ret (assigned_id F rnd c), with_id F slot box (assigned_id F rnd c) c)"
proof -
  let ?i = "assigned_id F rnd c"
  let ?d = "ctx_set slot (Some (box ?i)) c"
  have b: "bound ?d" using assms(1) by (simp add: bound_calls)
  have "RequestID dbg F \<lparr>k_id = Some slot, k_name = nm\<rparr> box rnd next c = next (with_id F slot box ?i c)"
    using assms(1) b by (auto simp: RequestID_def assigned_id_def with_id_def bound_calls Let_def)
  moreover have v: "validRequestID ?i"
    using newRequestID_valid [OF assms(2)] by (simp add: assigned_id_def Let_def)
  moreover have "\<forall>b\<in>set ?i. 32 < byte b \<and> byte b < 127"
    using v by (auto simp: validRequestID_def list_all_iff byte_class)
  moreover have "fst (ctx_get slot (with_id F slot box ?i c)) = Some (box ?i)"
    using assms(1) ctx_set_get [of c] by (simp add: with_id_def bound_def clean_Ctx_def)
  then have "RequestIDFrom dbg \<lparr>k_id = Some slot, k_name = nm\<rparr> unbox (with_id F slot box ?i c) =
      (Ret ?i, with_id F slot box ?i c)"
    using bound_on_req [OF b] assms(3) by (simp add: with_id_def RequestIDFrom_bound)
  moreover have "?i = f_Header F requestIDHeader (req c) \<or> length ?i = 32"
    using EncodeToString_length [of rnd] assms(2) by (simp add: assigned_id_def newRequestID_def Let_def)
  ultimately show ?thesis by blast
qed

end
