(* ===== verification/Deadline.thy ===== *)
theory Deadline
  imports Dispatch Lifecycle
begin

text \<open>
  Deadlines: what \<open>middleware/timeout.go\<close> and \<open>health/health.go\<close> use of Go's \<open>context\<close>
  package, and those two. A handler that takes time runs on the Ctx together with the
  clock, which it may only move on.
\<close>

section \<open>Contexts\<close>

text \<open>
  A base context that someone else may cancel (\<open>env\<close> says when, if ever), a derived one
  with a deadline, and the derived one without its own that \<open>WithDeadline\<close> makes when the
  parent's deadline comes first.
\<close>

datatype gctx = BaseCtx nat | WithCancel gctx | WithDeadline gctx int

definition DeadlineExceeded :: go_error where
  "DeadlineExceeded = Plain ''context deadline exceeded''"

definition Canceled :: go_error where
  "Canceled = Plain ''context canceled''"

fun ctx_Deadline :: "gctx \<Rightarrow> int option" where
  "ctx_Deadline (BaseCtx b) = None"
| "ctx_Deadline (WithCancel p) = ctx_Deadline p"
| "ctx_Deadline (WithDeadline p t) = Some t"

definition WithTimeout :: "int \<Rightarrow> gctx \<Rightarrow> int \<Rightarrow> gctx" where
  "WithTimeout now p d =
     (case ctx_Deadline p of
        Some t \<Rightarrow> if t < now + d then WithCancel p else WithDeadline p (now + d)
      | None \<Rightarrow> WithDeadline p (now + d))"

text \<open>When a context ends and with which error: the first of its own deadline and its parent's end.\<close>

fun ctx_end :: "(nat \<Rightarrow> int option) \<Rightarrow> gctx \<Rightarrow> (int \<times> go_error) option" where
  "ctx_end env (BaseCtx b) = map_option (\<lambda>t. (t, Canceled)) (env b)"
| "ctx_end env (WithCancel p) = ctx_end env p"
| "ctx_end env (WithDeadline p t) =
     (case ctx_end env p of
        Some (u, e) \<Rightarrow> if u \<le> t then Some (u, e) else Some (t, DeadlineExceeded)
      | None \<Rightarrow> Some (t, DeadlineExceeded))"

definition ctx_Err :: "(nat \<Rightarrow> int option) \<Rightarrow> int \<Rightarrow> gctx \<Rightarrow> go_error option" where
  "ctx_Err env now x = (case ctx_end env x of Some (u, e) \<Rightarrow> if u \<le> now then Some e else None | None \<Rightarrow> None)"

lemma ctx_end_deadline: "ctx_Deadline x = Some t \<Longrightarrow> \<exists>u e. ctx_end env x = Some (u, e) \<and> u \<le> t"
  by (induction x) (auto split: option.split)

text \<open>
  A derived context ends at the latest after \<open>d\<close> and never later than its parent, whose
  earlier end it passes on.
\<close>

lemma WithTimeout_end:
  "\<exists>u e. ctx_end env (WithTimeout now p d) = Some (u, e) \<and> u \<le> now + d
     \<and> (\<forall>u' e'. ctx_end env p = Some (u', e') \<longrightarrow> u \<le> u' \<and> (u' \<le> now + d \<longrightarrow> (u, e) = (u', e')))"
proof (cases "\<exists>t. ctx_Deadline p = Some t \<and> t < now + d")
  case True
  then obtain t where t: "ctx_Deadline p = Some t" "t < now + d" by auto
  then obtain u e where "ctx_end env p = Some (u, e)" "u \<le> t"
    using ctx_end_deadline by blast
  moreover have "WithTimeout now p d = WithCancel p" using t by (simp add: WithTimeout_def)
  ultimately show ?thesis using t(2) by simp
next
  case False
  then have "WithTimeout now p d = WithDeadline p (now + d)"
    by (auto simp: WithTimeout_def split: option.split)
  then show ?thesis by (cases "ctx_end env p") auto
qed

section \<open>Timeout\<close>

definition timeout_error :: "go_error option \<Rightarrow> go_error option \<Rightarrow> go_error option" where
  "timeout_error cerr err =
     (case err of
        None \<Rightarrow> None
      | Some e \<Rightarrow>
          if cerr \<noteq> Some DeadlineExceeded then Some e
          else if errors_As sel_HTTP e \<noteq> None then Some e
          else Some (HTTPError 503 [] (Some e)))"

definition Timeout ::
  "bool \<Rightarrow> gctx \<Rightarrow> (nat \<Rightarrow> int option) \<Rightarrow> int \<Rightarrow>
   (('w, gctx, 'v, 's) Ctx \<times> int, go_error option) call \<Rightarrow> (('w, gctx, 'v, 's) Ctx \<times> int, go_error option) call"
where
  "Timeout dbg base env d next =
     then_do (on_ctx (Context dbg base)) (\<lambda>prev cs.
       let x = WithTimeout (snd cs) prev d
       in then_do (on_ctx (SetContext dbg (Some x)))
            (\<lambda>_. finally_do (on_ctx (SetContext dbg (Some prev)))
              (then_do next (\<lambda>err cs'. (Ret (timeout_error (ctx_Err env (snd cs') x) err), cs')))) cs)"

definition Timeout_new :: "int \<Rightarrow> 'm \<Rightarrow> 'm res" where
  "Timeout_new d mw =
     (if d \<le> 0 then Panic (PVal ''rice: middleware.Timeout: duration must be positive'') else Ret mw)"

section \<open>Health\<close>

definition defaultTimeout :: int where
  "defaultTimeout = second"

definition errNotReady :: go_error where
  "errNotReady = HTTPError 503 ''not ready'' None"

definition Live :: "bool \<Rightarrow> ('w, 's) fasthttp \<Rightarrow> ('w, 'x, 'v, 's) Handler" where
  "Live dbg F = Ctx_String dbg F 200 ''ok''"

text \<open>A check's function takes the context and the time and says what it returns and when.\<close>

record health_check =
  h_Name :: string
  h_Timeout :: int
  h_Fn :: "(gctx \<Rightarrow> int \<Rightarrow> go_error option res \<times> int) option"

definition run_check ::
  "(nat \<Rightarrow> int option) \<Rightarrow> gctx \<Rightarrow> health_check \<Rightarrow> int \<Rightarrow> go_error option res \<times> int"
where
  "run_check env parent ch now =
     (let timeout = (if h_Timeout ch = 0 then defaultTimeout else h_Timeout ch);
          x = WithTimeout now parent timeout
      in case h_Fn ch of
           None \<Rightarrow> (Panic errNil, now)
         | Some fn \<Rightarrow>
             (case fn x now of
                (Panic v, t) \<Rightarrow> (Panic v, t)
              | (Ret (Some err), t) \<Rightarrow> (Ret (Some err), t)
              | (Ret None, t) \<Rightarrow> (Ret (ctx_Err env t x), t)))"

text \<open>\<open>quote\<close> is the percent-q verb of \<open>fmt\<close>.\<close>

definition check_failed :: "('w, 's) fasthttp \<Rightarrow> (string \<Rightarrow> string) \<Rightarrow> health_check \<Rightarrow> go_error \<Rightarrow> go_error" where
  "check_failed F quote ch err =
     HTTPError 503 ''not ready''
       (Some (Wrapped (''health: check '' @ quote (h_Name ch) @ '': '' @ Error (f_StatusMessage F) err) err))"

fun run_checks ::
  "bool \<Rightarrow> ('w, 's) fasthttp \<Rightarrow> (string \<Rightarrow> string) \<Rightarrow> gctx \<Rightarrow> (nat \<Rightarrow> int option) \<Rightarrow> health_check list \<Rightarrow>
   (('w, gctx, 'v, 's) Ctx \<times> int, go_error option) call"
where
  "run_checks dbg F quote base env [] = on_ctx (Ctx_String dbg F 200 ''ok'')"
| "run_checks dbg F quote base env (ch # chs) =
     then_do (on_ctx (Context dbg base)) (\<lambda>x cs.
       case run_check env x ch (snd cs) of
         (Panic v, t) \<Rightarrow> (Panic v, (fst cs, t))
       | (Ret (Some err), t) \<Rightarrow> (Ret (Some (check_failed F quote ch err)), (fst cs, t))
       | (Ret None, t) \<Rightarrow> run_checks dbg F quote base env chs (fst cs, t))"

definition health_Ready ::
  "bool \<Rightarrow> ('w, 's) fasthttp \<Rightarrow> (string \<Rightarrow> string) \<Rightarrow> gctx \<Rightarrow> (nat \<Rightarrow> int option) \<Rightarrow> life \<Rightarrow> health_check list \<Rightarrow>
   (('w, gctx, 'v, 's) Ctx \<times> int, go_error option) call"
where
  "health_Ready dbg F quote base env app checks cs =
     (if \<not> Ready app then (Ret (Some errNotReady), cs)
      else run_checks dbg F quote base env checks cs)"

text \<open>The checks of the constructor, in their order.\<close>

fun health_panic :: "health_check list \<Rightarrow> string option" where
  "health_panic [] = None"
| "health_panic (ch # chs) =
     (if h_Name ch = [] then Some ''rice: health.Ready: a Check has an empty Name''
      else if h_Fn ch = None then Some (''rice: health.Ready: Check '' @ h_Name ch @ '' has a nil Fn'')
      else if h_Timeout ch < 0 then Some (''rice: health.Ready: Check '' @ h_Name ch @ '' has a negative Timeout'')
      else health_panic chs)"

definition health_Ready_new :: "bool \<Rightarrow> health_check list \<Rightarrow> 'm \<Rightarrow> 'm res" where
  "health_Ready_new appIsNil checks mw =
     (if appIsNil then Panic (PVal ''rice: health.Ready: app is nil'')
      else case health_panic checks of Some msg \<Rightarrow> Panic (PVal msg) | None \<Rightarrow> Ret mw)"

section \<open>What they answer\<close>

lemma Timeout_eval:
  assumes c: "bound c" and "next": "next (c\<lparr>ctx := Some (WithTimeout t0 (cur_ctx base c) d)\<rparr>, t0) = (r, (c', t1))"
    and c': "bound c'"
  shows "Timeout dbg base env d next (c, t0) =
     (case r of
        Ret err \<Rightarrow> Ret (timeout_error (ctx_Err env t1 (WithTimeout t0 (cur_ctx base c) d)) err)
      | Panic v \<Rightarrow> Panic v, (c'\<lparr>ctx := Some (cur_ctx base c)\<rparr>, t1))"
  using c c' "next"
  by (auto simp: Timeout_def Let_def bound_calls finally_do_def then_do_def on_ctx_def split: res.split)

lemma errors_As_Wrapped:
  "errors_As sel_Panic (Wrapped s e) = errors_As sel_Panic e"
  "errors_As sel_Panic (HTTPError code msg (Some e)) = errors_As sel_Panic e"
  "errors_As sel_Panic (HTTPError code msg None) = None"
  "errors_As sel_HTTP (HTTPError code msg cause) = Some (code, msg)"
proof -
  have one: "first_some [x] = x" for x :: "'z option" by (cases x) simp_all
  show "errors_As sel_Panic (Wrapped s e) = errors_As sel_Panic e"
    "errors_As sel_Panic (HTTPError code msg (Some e)) = errors_As sel_Panic e"
    "errors_As sel_Panic (HTTPError code msg None) = None"
    "errors_As sel_HTTP (HTTPError code msg cause) = Some (code, msg)"
    by (subst errors_As.simps, simp add: one)+
qed

text \<open>All checks pass, one after the other, each within its time.\<close>

fun all_pass :: "(nat \<Rightarrow> int option) \<Rightarrow> gctx \<Rightarrow> health_check list \<Rightarrow> int \<Rightarrow> int option" where
  "all_pass env x [] t = Some t"
| "all_pass env x (ch # chs) t =
     (case run_check env x ch t of (Ret None, t') \<Rightarrow> all_pass env x chs t' | _ \<Rightarrow> None)"

lemma run_checks_pass:
  assumes "bound c"
  shows "case all_pass env (cur_ctx base c) chs t of
      Some t' \<Rightarrow> run_checks dbg F quote base env chs (c, t) =
        (Ret None, (on_req (\<lambda>w. f_SetBody F ''ok'' (f_SetContentType F MIMETextPlainUTF8 (f_SetStatusCode F 200 w))) c, t'))
    | None \<Rightarrow> fst (run_checks dbg F quote base env chs (c, t)) \<noteq> Ret None"
proof (induction chs arbitrary: t)
  case Nil
  then show ?case using assms by (simp add: bound_calls)
next
  case (Cons ch chs)
  obtain r t' where "run_check env (cur_ctx base c) ch t = (r, t')" by fastforce
  then show ?case
    using Cons [of t'] assms by (cases r) (auto simp: bound_calls check_failed_def split: option.splits)
qed

lemma run_checks_errors:
  assumes "bound c" "run_checks dbg F quote base env chs (c, t) = (Ret (Some e), cs)"
  shows "\<exists>ch\<in>set chs. \<exists>u err u'. run_check env (cur_ctx base c) ch u = (Ret (Some err), u') \<and> e = check_failed F quote ch err"
  using assms(2)
proof (induction chs arbitrary: t)
  case Nil
  then show ?case using assms(1) by (simp add: bound_calls)
next
  case (Cons ch chs)
  obtain r t' where r: "run_check env (cur_ctx base c) ch t = (r, t')" by fastforce
  consider "\<exists>v. r = Panic v" | err where "r = Ret (Some err)" | "r = Ret None"
    by (cases r) auto
  then show ?case
    using Cons.prems r assms(1) Cons.IH [of t'] by cases (auto simp: bound_calls)
qed

lemma ctx_Err_not_panic: "ctx_Err env t x = Some e \<Longrightarrow> errors_As sel_Panic e = None"
proof -
  have "ctx_end env x = Some (u, e) \<Longrightarrow> e = Canceled \<or> e = DeadlineExceeded" for u e
    by (induction x arbitrary: u) (auto split: option.splits if_splits)
  moreover have "errors_As sel_Panic (Plain s) = None" for s by (subst errors_As.simps) simp
  ultimately show "ctx_Err env t x = Some e \<Longrightarrow> errors_As sel_Panic e = None"
    by (auto simp: ctx_Err_def Canceled_def DeadlineExceeded_def split: option.splits if_splits)
qed

section \<open>Properties\<close>

text \<open>
  C32: Timeout. The chain runs under a context that ends at the latest after \<open>d\<close> and never
  later than the one it replaces, whose earlier end reaches it unchanged. When the chain
  returns or panics the replaced context is back. A returned error becomes a 503 wrapping
  it exactly when that context's deadline had passed and no HTTPError is in its chain;
  every other outcome is passed on as it is, a success after the deadline too.
\<close>

theorem Timeout_policy:
  assumes "bound c" "bound c'"
    and "next (c\<lparr>ctx := Some (WithTimeout t0 (cur_ctx base c) d)\<rparr>, t0) = (r, (c', t1))"
  shows "Timeout dbg base env d next (c, t0) =
      (case r of
         Panic v \<Rightarrow> Panic v
       | Ret None \<Rightarrow> Ret None
       | Ret (Some e) \<Rightarrow>
           Ret (Some (if ctx_Err env t1 (WithTimeout t0 (cur_ctx base c) d) = Some DeadlineExceeded
                        \<and> (\<forall>x. in_chain x e \<longrightarrow> sel_HTTP x = None)
                      then HTTPError 503 [] (Some e) else e)),
       (c'\<lparr>ctx := Some (cur_ctx base c)\<rparr>, t1))
    \<and> (\<exists>u e. ctx_end env (WithTimeout t0 (cur_ctx base c) d) = Some (u, e) \<and> u \<le> t0 + d
        \<and> (\<forall>u' e'. ctx_end env (cur_ctx base c) = Some (u', e') \<longrightarrow>
             u \<le> u' \<and> (u' \<le> t0 + d \<longrightarrow> (u, e) = (u', e'))))"
proof -
  have "Timeout dbg base env d next (c, t0) = (case r of
        Ret err \<Rightarrow> Ret (timeout_error (ctx_Err env t1 (WithTimeout t0 (cur_ctx base c) d)) err)
      | Panic v \<Rightarrow> Panic v, (c'\<lparr>ctx := Some (cur_ctx base c)\<rparr>, t1))"
    by (rule Timeout_eval [where ?next = "next", OF assms(1,3,2)])
  also have "\<dots> = (case r of
         Panic v \<Rightarrow> Panic v
       | Ret None \<Rightarrow> Ret None
       | Ret (Some e) \<Rightarrow>
           Ret (Some (if ctx_Err env t1 (WithTimeout t0 (cur_ctx base c) d) = Some DeadlineExceeded
                        \<and> (\<forall>x. in_chain x e \<longrightarrow> sel_HTTP x = None)
                      then HTTPError 503 [] (Some e) else e)),
       (c'\<lparr>ctx := Some (cur_ctx base c)\<rparr>, t1))"
    by (auto simp: timeout_error_def errors_As_None [symmetric] split: res.split option.split)
  finally show ?thesis
    using WithTimeout_end [of env t0 "cur_ctx base c" d] by (rule conjI)
qed

definition slow_ctx :: "(nat wire, gctx, nat, nat) Ctx" where
  "slow_ctx = (newCtx 0)\<lparr>fctx := Some get_wire, has_app := True\<rparr>"

theorem Timeout_policy_witness:
  "Timeout False (BaseCtx 0) (\<lambda>_. None) 5 (\<lambda>(c, t). (Ret (Some (Plain ''db'')), (c, t + 9))) (slow_ctx, 100) =
     (Ret (Some (HTTPError 503 [] (Some (Plain ''db'')))), (slow_ctx\<lparr>ctx := Some (BaseCtx 0)\<rparr>, 109))"
proof -
  let ?c' = "slow_ctx\<lparr>ctx := Some (WithTimeout 100 (cur_ctx (BaseCtx 0) slow_ctx) 5)\<rparr>"
  have b: "bound slow_ctx" unfolding slow_ctx_def by (rule bound_acquired)
  have x: "cur_ctx (BaseCtx 0) slow_ctx = BaseCtx 0" by (simp add: slow_ctx_def cur_ctx_def newCtx_def)
  have "in_chain x (Plain ''db'') \<Longrightarrow> sel_HTTP x = None" for x by (auto elim: in_chainE)
  then show ?thesis
    using Timeout_policy [OF b bound_SetContext [OF b], of "\<lambda>(c, t). (Ret (Some (Plain ''db'')), (c, t + 9))" 100
        "BaseCtx 0" 5 "Ret (Some (Plain ''db''))" _ 109 False "\<lambda>_. None"] x
    by (simp add: ctx_Err_def WithTimeout_def)
qed



end
