(* ===== verification/Static.thy ===== *)
theory Static
  imports Dispatch
begin

text \<open>
  Serving files: the handlers of \<open>static.go\<close>. fasthttp's file handler and its response
  headers are parameters; \<open>url.URL.EscapedPath\<close> is modelled, with the decoder that is its
  specification. How a \<open>Static\<close> call registers its routes is in \<open>Routes\<close>.
\<close>

section \<open>The path\<close>

text \<open>The loop over the segments.\<close>

function hasDotDotSegment :: "bytes \<Rightarrow> bool" where
  "hasDotDotSegment p =
     (if p = [] then False
      else
        let (seg, rest) = (case indexByte (CHR ''/'') p of
                             Some i \<Rightarrow> (take i p, drop (Suc i) p)
                           | None \<Rightarrow> (p, []))
        in if length seg = 2 \<and> seg ! 0 = CHR ''.'' \<and> seg ! 1 = CHR ''.'' then True
           else hasDotDotSegment rest)"
  by pat_completeness auto
termination
  by (relation "measure length") (auto split: option.splits dest: indexByte_SomeD)

declare hasDotDotSegment.simps [simp del]

text \<open>
  \<open>url.escape\<close> in its path mode: letters, digits and the listed marks stand for
  themselves, any other byte is a percent sign and two capital hexadecimal digits.
\<close>

definition shouldEscape :: "char \<Rightarrow> bool" where
  "shouldEscape c \<longleftrightarrow> \<not> (is_lower c \<or> is_upper c \<or> is_digit c \<or> c \<in> set ''-_.~$&+,/:;=@'')"

definition hexdigits :: string where
  "hexdigits = ''0123456789ABCDEF''"

definition upperhex :: "nat \<Rightarrow> char" where
  "upperhex n = hexdigits ! n"

definition escape_byte :: "char \<Rightarrow> string" where
  "escape_byte c =
     (if shouldEscape c then [CHR ''%'', upperhex (byte c div 16), upperhex (byte c mod 16)] else [c])"

definition EscapedPath :: "string \<Rightarrow> string" where
  "EscapedPath p = (if p = ''*'' then ''*'' else concat (map escape_byte p))"

section \<open>The redirect\<close>

definition dir_location :: "bytes \<Rightarrow> bytes \<Rightarrow> bytes" where
  "dir_location path query =
     (let p = dropWhile (\<lambda>c. c = CHR ''/'' \<or> c = CHR 0x5C) (EscapedPath path)
      in ''/'' @ (if p \<noteq> [] then p @ ''/'' else []) @ (if query \<noteq> [] then ''?'' @ query else []))"

text \<open>\<open>query\<close> is \<open>fctx.URI().QueryString()\<close>.\<close>

definition writeDirRedirect :: "('w, 's) fasthttp \<Rightarrow> ('w \<Rightarrow> bytes) \<Rightarrow> 'w \<Rightarrow> 'w" where
  "writeDirRedirect F query w =
     f_SetStatusCode F 301
       (f_SetHeader F ''Location'' (dir_location (f_Path F w) (query w)) (f_ResetBody F w))"

definition redirectToDir :: "('w, 's) fasthttp \<Rightarrow> ('w \<Rightarrow> bytes) \<Rightarrow> ('w, 'x, 'v, 's) Handler" where
  "redirectToDir F query = then_do (tell (writeDirRedirect F query)) (\<lambda>_ c. (Ret None, c))"

section \<open>The file handler\<close>

text \<open>
  What \<open>serve\<close> uses of fasthttp's response header: its length and content type, and
  \<open>CopyTo\<close> in both directions.
\<close>

record ('w, 'd) header_ops =
  hd_Len :: "'w \<Rightarrow> nat"
  hd_ContentType :: "'w \<Rightarrow> bytes"
  hd_save :: "'w \<Rightarrow> 'd"
  hd_restore :: "'d \<Rightarrow> 'w \<Rightarrow> 'w"

definition errStaticNotBuilt :: go_error where
  "errStaticNotBuilt = Plain ''rice: a Static route was dispatched before Build''"

definition hasHeaders :: "('w, 'd) header_ops \<Rightarrow> 'w \<Rightarrow> bool" where
  "hasHeaders H w \<longleftrightarrow>
     (let n = int (hd_Len H w) in (if length (hd_ContentType H w) > 0 then n - 1 else n) > 0)"

definition staticResult :: "('w, 's) fasthttp \<Rightarrow> ('w \<Rightarrow> bytes) \<Rightarrow> 'w \<Rightarrow> go_error option \<times> 'w" where
  "staticResult F query w =
     (let code = f_StatusCode F w
      in if code = 302 then (None, writeDirRedirect F query w)
         else if code = 404 \<or> code = 403 then (Some ErrNotFound, w)
         else if code \<ge> 400 then (Some (NewHTTPError code []), w)
         else (None, w))"

text \<open>\<open>h\<close> is the entry's file handler, nil until Build.\<close>

definition static_serve ::
  "('w, 's) fasthttp \<Rightarrow> ('w, 'd) header_ops \<Rightarrow> ('w \<Rightarrow> bytes) \<Rightarrow> ('w \<Rightarrow> 'w) option \<Rightarrow> ('w, 'x, 'v, 's) Handler"
where
  "static_serve F H query h =
     (case h of
        None \<Rightarrow> (\<lambda>c. (Ret (Some errStaticNotBuilt), c))
      | Some files \<Rightarrow>
          then_do (ask (f_Path F)) (\<lambda>p.
            if indexByte (CHR 0x00) p \<noteq> None \<or> hasDotDotSegment p then (\<lambda>c. (Ret (Some ErrNotFound), c))
            else
              then_do (ask id) (\<lambda>w.
                let saved = (if hasHeaders H w then Some (hd_save H w) else None);
                    w1 = files w;
                    code = f_StatusCode F w1;
                    w2 = (case saved of
                            None \<Rightarrow> w1
                          | Some d \<Rightarrow>
                              if code < 200 \<or> code \<ge> 300 then f_SetStatusCode F code (hd_restore H d w1) else w1);
                    (err, w3) = staticResult F query w2
                in then_do (tell (\<lambda>_. w3)) (\<lambda>_ c. (Ret err, c)))))"

section \<open>Segments\<close>

fun split_on :: "char \<Rightarrow> bytes \<Rightarrow> bytes list" where
  "split_on sep [] = [[]]"
| "split_on sep (c # s) =
     (if c = sep then [] # split_on sep s
      else case split_on sep s of x # xs \<Rightarrow> (c # x) # xs | [] \<Rightarrow> [[c]])"

lemma split_on_index:
  "split_on sep p = (case indexByte sep p of
      Some i \<Rightarrow> take i p # split_on sep (drop (Suc i) p) | None \<Rightarrow> [p])"
proof (induction p)
  case (Cons c p)
  then show ?case by (cases "indexByte sep p") (simp_all del: indexByte_None)
qed simp

lemma hasDotDotSegment_split: "hasDotDotSegment p \<longleftrightarrow> ''..'' \<in> set (split_on (CHR ''/'') p)"
proof (induction p rule: hasDotDotSegment.induct)
  case (1 p)
  have dots: "length s = 2 \<and> s ! 0 = CHR ''.'' \<and> s ! 1 = CHR ''.'' \<longleftrightarrow> s = ''..''" for s :: bytes
    by (auto simp: length_Suc_conv numeral_2_eq_2)
  show ?case
  proof (cases "p = []")
    case False
    show ?thesis
    proof (cases "indexByte (CHR ''/'') p")
      case None
      then have "hasDotDotSegment p \<longleftrightarrow> p = ''..''"
        using False dots [of p] hasDotDotSegment.simps [of "[]"]
        by (subst hasDotDotSegment.simps) (simp del: indexByte_None)
      then show ?thesis
        using None by (subst split_on_index) (auto simp del: indexByte_None)
    next
      case (Some i)
      then have "hasDotDotSegment p \<longleftrightarrow> take i p = ''..'' \<or> hasDotDotSegment (drop (Suc i) p)"
        using False dots [of "take i p"]
        by (subst hasDotDotSegment.simps) (simp del: indexByte_None)
      moreover have "(take i p, drop (Suc i) p) = (case indexByte (CHR ''/'') p of
          Some i \<Rightarrow> (take i p, drop (Suc i) p) | None \<Rightarrow> (p, []))"
        using Some by simp
      from 1 [OF False refl this] have "take i p \<noteq> ''..'' \<Longrightarrow>
          hasDotDotSegment (drop (Suc i) p) \<longleftrightarrow> ''..'' \<in> set (split_on (CHR ''/'') (drop (Suc i) p))"
        unfolding dots by blast
      moreover have "split_on (CHR ''/'') p = take i p # split_on (CHR ''/'') (drop (Suc i) p)"
        using Some by (subst split_on_index) simp
      ultimately show ?thesis by (cases "take i p = ''..''") auto
    qed
  qed (simp add: hasDotDotSegment.simps)
qed

section \<open>Escaping\<close>

text \<open>The decoder of percent-encoding, after RFC 3986.\<close>

fun unescape :: "string \<Rightarrow> string option" where
  "unescape [] = Some []"
| "unescape (c # s) =
     (if c = CHR ''%'' then
        (case s of
           a # b # r \<Rightarrow>
             (case (indexByte a hexdigits, indexByte b hexdigits, unescape r) of
                (Some x, Some y, Some t) \<Rightarrow> Some (char_of (x * 16 + y) # t)
              | _ \<Rightarrow> None)
         | _ \<Rightarrow> None)
      else map_option ((#) c) (unescape s))"

lemma upperhex_mem: "n < 16 \<Longrightarrow> upperhex n \<in> set hexdigits"
  unfolding upperhex_def by (intro nth_mem) (simp add: hexdigits_def)

lemma upperhex_index:
  assumes "n < 16"
  shows "indexByte (upperhex n) hexdigits = Some n"
proof -
  have "n \<in> set [0..<16]" using assms by simp
  moreover have "\<forall>n\<in>set [0..<16]. indexByte (upperhex n) hexdigits = Some n" by code_simp
  ultimately show ?thesis by blast
qed

lemma byte_nibbles: "byte c div 16 < 16" "byte c mod 16 < 16" "byte c div 16 * 16 + byte c mod 16 = byte c"
proof -
  show "byte c div 16 < 16" "byte c mod 16 < 16" using byte_less_256 [of c] by linarith+
  show "byte c div 16 * 16 + byte c mod 16 = byte c" by simp
qed

lemma safe_byte: "\<not> shouldEscape c \<Longrightarrow> 32 < byte c \<and> byte c < 127 \<and> byte c \<noteq> 92 \<and> byte c \<noteq> 63 \<and> byte c \<noteq> 37"
  by (auto simp: shouldEscape_def is_lower_def is_upper_def is_digit_def in_range_def byte_def)

lemma unescape_escape_byte: "unescape (escape_byte c @ s) = map_option ((#) c) (unescape s)"
proof (cases "shouldEscape c")
  case True
  have "char_of (byte c) = c" by (simp add: byte_def)
  then show ?thesis
    using True byte_nibbles [of c]
    by (cases "unescape s") (simp_all add: escape_byte_def upperhex_index)
next
  case False
  then have "c \<noteq> CHR ''%''" using safe_byte [of c] by (auto simp: byte_def)
  then show ?thesis using False by (simp add: escape_byte_def)
qed

lemma unescape_concat: "unescape (concat (map escape_byte p) @ s) = map_option ((@) p) (unescape s)"
  by (induction p) (simp_all add: unescape_escape_byte option.map_comp comp_def option.map_ident)

lemma escape_byte_printable:
  assumes "b \<in> set (escape_byte c)"
  shows "32 < byte b \<and> byte b < 127 \<and> byte b \<noteq> 92 \<and> byte b \<noteq> 63"
proof -
  have hex: "b \<in> set hexdigits \<Longrightarrow> 32 < byte b \<and> byte b < 127 \<and> byte b \<noteq> 92 \<and> byte b \<noteq> 63" for b
    by (auto simp: hexdigits_def byte_def)
  have pct: "32 < byte (CHR ''%'') \<and> byte (CHR ''%'') < 127 \<and> byte (CHR ''%'') \<noteq> 92 \<and> byte (CHR ''%'') \<noteq> 63"
    by (simp add: byte_def)
  show ?thesis
  proof (cases "shouldEscape c")
    case True
    then have "b = CHR ''%'' \<or> b \<in> set hexdigits"
      using assms upperhex_mem [OF byte_nibbles(1)] upperhex_mem [OF byte_nibbles(2)]
      by (auto simp: escape_byte_def)
    then show ?thesis using hex pct by blast
  next
    case False
    then show ?thesis using assms safe_byte [of c] by (simp add: escape_byte_def)
  qed
qed

lemma escape_byte_head:
  "hd (escape_byte c) \<noteq> CHR 0x5C" "hd (escape_byte c) = CHR ''/'' \<longleftrightarrow> c = CHR ''/''" "escape_byte c \<noteq> []"
proof -
  show ne: "escape_byte c \<noteq> []" by (simp add: escape_byte_def)
  then have "byte (hd (escape_byte c)) \<noteq> 92" using escape_byte_printable [of "hd (escape_byte c)" c] by simp
  then show "hd (escape_byte c) \<noteq> CHR 0x5C" by (auto simp: byte_def)
  have "\<not> shouldEscape (CHR ''/'')" by (simp add: shouldEscape_def)
  then show "hd (escape_byte c) = CHR ''/'' \<longleftrightarrow> c = CHR ''/''"
    by (auto simp: escape_byte_def)
qed

lemma trim_escaped:
  "dropWhile (\<lambda>c. c = CHR ''/'' \<or> c = CHR 0x5C) (concat (map escape_byte p)) =
     concat (map escape_byte (dropWhile (\<lambda>c. c = CHR ''/'') p))"
proof (induction p)
  case (Cons c p)
  show ?case
  proof (cases "c = CHR ''/''")
    case True
    then have "escape_byte c = ''/''" by (simp add: escape_byte_def shouldEscape_def)
    then show ?thesis using Cons True by simp
  next
    case False
    then show ?thesis
      using escape_byte_head [of c] by (cases "escape_byte c") auto
  qed
qed simp

lemma location_shape:
  assumes "path \<noteq> ''*''"
  shows "dir_location path query =
    ''/'' @ (let r = dropWhile (\<lambda>c. c = CHR ''/'') path in if r \<noteq> [] then concat (map escape_byte r) @ ''/'' else [])
      @ (if query \<noteq> [] then ''?'' @ query else [])"
proof -
  let ?r = "dropWhile (\<lambda>c. c = CHR ''/'') path"
  have "concat (map escape_byte r) = [] \<longleftrightarrow> r = []" for r
    using escape_byte_head(3) by (cases r) auto
  from this [of ?r] have "(concat (map escape_byte ?r) \<noteq> []) = (?r \<noteq> [])" by (rule arg_cong)
  moreover have "EscapedPath path = concat (map escape_byte path)"
    using assms by (simp add: EscapedPath_def)
  ultimately show ?thesis
    unfolding dir_location_def Let_def by (simp only: trim_escaped)
qed

section \<open>Properties\<close>

text \<open>
  C33: The directory redirect cannot leave the site or split the response. Its Location is
  a slash, the request's own path without leading slashes, percent-encoded, a slash, and
  the query as it was. It never begins with two slashes or a slash and a backslash, its
  path part has printable bytes only and no question mark, and decodes to the requested
  path with a slash appended.
\<close>

theorem redirect_stays_on_site:
  assumes "hd path = CHR ''/''" "path \<noteq> []"
  shows "\<exists>loc. dir_location path query = loc @ (if query = [] then [] else ''?'' @ query)
    \<and> (\<forall>b\<in>set loc. 32 < byte b \<and> byte b < 127 \<and> b \<noteq> CHR ''?'')
    \<and> (\<exists>rest. loc = CHR ''/'' # rest \<and> (rest = [] \<or> (hd rest \<noteq> CHR ''/'' \<and> hd rest \<noteq> CHR 0x5C)))
    \<and> unescape loc =
        Some (let r = dropWhile (\<lambda>c. c = CHR ''/'') path in if r = [] then ''/'' else CHR ''/'' # r @ ''/'')"
proof -
  define r where "r = dropWhile (\<lambda>c. c = CHR ''/'') path"
  let ?e = "concat (map escape_byte r)"
  let ?loc = "CHR ''/'' # (if r = [] then [] else ?e @ ''/'')"
  have "path \<noteq> ''*''" using assms by auto
  from location_shape [OF this, of query]
  have eq: "dir_location path query = ?loc @ (if query = [] then [] else ''?'' @ query)"
    by (simp add: r_def Let_def)
  have "32 < byte b \<and> byte b < 127 \<and> byte b \<noteq> 63" if "b \<in> set ?e" for b
    using that escape_byte_printable by fastforce
  moreover have "32 < byte (CHR ''/'') \<and> byte (CHR ''/'') < 127 \<and> byte (CHR ''/'') \<noteq> 63" "byte (CHR ''?'') = 63"
    by (simp_all add: byte_def)
  ultimately have "\<forall>b\<in>set ?loc. 32 < byte b \<and> byte b < 127 \<and> b \<noteq> CHR ''?''" by (auto split: if_splits)
  moreover have "hd (?e @ ''/'') \<noteq> CHR ''/'' \<and> hd (?e @ ''/'') \<noteq> CHR 0x5C" if "r \<noteq> []"
  proof -
    have "hd r \<noteq> CHR ''/''" using that hd_dropWhile [of "\<lambda>c. c = CHR ''/''" path] by (auto simp: r_def)
    then show ?thesis
      using that escape_byte_head [of "hd r"] by (cases r) (auto simp: hd_append)
  qed
  moreover have "unescape ?loc = Some (if r = [] then ''/'' else CHR ''/'' # r @ ''/'')"
    using unescape_concat [of r "''/''"] by simp
  ultimately show ?thesis
    using eq unfolding r_def [symmetric] Let_def by (intro exI [of _ ?loc]) auto
qed

theorem redirect_stays_on_site_witness:
  "\<exists>loc. dir_location ''//e/a b'' ''q=1'' = loc @ ''?q=1'' \<and> unescape loc = Some ''/e/a b/''"
  using redirect_stays_on_site [of "''//e/a b''" "''q=1''"] by (auto simp: Let_def)

text \<open>
  What a Static route answers. A path with a NUL byte or a segment that is two dots
  is a 404 and never reaches the file handler, whatever the file system holds. For every
  other path the handler's status decides: a redirect is rewritten to the request's own
  path, a 403 and a 404 are the same ErrNotFound, so that a directory without an index
  does not show, any other status from 400 up goes to the ErrorHandler, the rest stands;
  and headers that middleware set are back on every response that is not a 2xx.
\<close>

lemma static_answers:
  assumes "bound c" "response_laws F"
  shows "(CHR 0x00 \<in> set (f_Path F (req c)) \<or> ''..'' \<in> set (split_on (CHR ''/'') (f_Path F (req c))) \<longrightarrow>
        static_serve F H query (Some files) c = (Ret (Some ErrNotFound), c))
    \<and> (CHR 0x00 \<notin> set (f_Path F (req c)) \<longrightarrow> ''..'' \<notin> set (split_on (CHR ''/'') (f_Path F (req c))) \<longrightarrow>
        f_StatusCode F (files (req c)) \<noteq> 0 \<longrightarrow>
        (let code = f_StatusCode F (files (req c));
             kept = (if hasHeaders H (req c) \<and> \<not> (200 \<le> code \<and> code < 300)
                     then f_SetStatusCode F code (hd_restore H (hd_save H (req c)) (files (req c)))
                     else files (req c))
         in static_serve F H query (Some files) c =
              (Ret (if code = 404 \<or> code = 403 then Some ErrNotFound
                    else if code \<noteq> 302 \<and> code \<ge> 400 then Some (NewHTTPError code []) else None),
               c\<lparr>fctx := Some (if code = 302 then writeDirRedirect F query kept else kept)\<rparr>)))"
proof -
  have bad: "indexByte (CHR 0x00) p \<noteq> None \<or> hasDotDotSegment p \<longleftrightarrow>
      CHR 0x00 \<in> set p \<or> ''..'' \<in> set (split_on (CHR ''/'') p)" for p
    by (simp add: hasDotDotSegment_split)
  have code: "f_StatusCode F (f_SetStatusCode F k w) = k" if "k \<noteq> 0" for k w
    using assms(2) that by (simp add: response_laws_def)
  have fc: "c\<lparr>fctx := Some w\<rparr> = on_req (\<lambda>_. w) c" for w by (simp add: on_req_def)
  show ?thesis
    using assms(1) code unfolding static_serve_def fc bad Let_def
    by (auto simp: bound_calls staticResult_def Let_def split: option.split)
qed

definition file_ctx :: "(nat wire, unit, nat, nat) Ctx" where
  "file_ctx = (newCtx 0)\<lparr>fctx := Some get_wire, has_app := True\<rparr>"

definition bare_headers :: "(nat wire, nat wire) header_ops" where
  "bare_headers = \<lparr>hd_Len = (\<lambda>_. 0), hd_ContentType = (\<lambda>_. []), hd_save = id, hd_restore = (\<lambda>d w. w)\<rparr>"

end
