(* ===== verification/Binding.thy ===== *)
theory Binding
  imports Dispatch
begin

text \<open>
  Request bodies: \<open>binding/binding.go\<close>. The strict JSON decoder of the target type is a
  parameter, what it leaves unread included; so is the type's \<open>Validate\<close> method, if it
  has one, which works on the decoded value in place.
\<close>

definition EOF :: go_error where
  "EOF = Plain ''EOF''"

definition errTrailingData :: go_error where
  "errTrailingData = Plain ''binding: trailing data after the JSON value''"

text \<open>
  \<open>decode\<close> is a fresh decoder with \<open>DisallowUnknownFields\<close> on the body: its first
  \<open>Decode\<close>, and whether \<open>More\<close> holds after it.
\<close>

definition bad_request :: "string \<Rightarrow> go_error \<Rightarrow> go_error" where
  "bad_request msg err = HTTPError 400 msg (Some err)"

definition validated ::
  "('w, 's) fasthttp \<Rightarrow> ('t \<Rightarrow> go_error option res \<times> 't) option \<Rightarrow> 't \<Rightarrow> 't \<Rightarrow> ('t \<times> go_error option) res"
where
  "validated F validate zero out =
     (case validate of
        None \<Rightarrow> Ret (out, None)
      | Some v \<Rightarrow>
          (case v out of
             (Panic p, _) \<Rightarrow> Panic p
           | (Ret None, out') \<Rightarrow> Ret (out', None)
           | (Ret (Some err), _) \<Rightarrow>
               if errors_As sel_HTTP err \<noteq> None then Ret (zero, Some err)
               else Ret (zero, Some (HTTPError 422 (Error (f_StatusMessage F) err) (Some err)))))"

definition binding_JSON ::
  "bool \<Rightarrow> ('w, 's) fasthttp \<Rightarrow> (bytes \<Rightarrow> go_error + 't \<times> bool) \<Rightarrow>
   ('t \<Rightarrow> go_error option res \<times> 't) option \<Rightarrow> 't \<Rightarrow> (('w, 'x, 'v, 's) Ctx, 't \<times> go_error option) call"
where
  "binding_JSON dbg F decode validate zero =
     then_do (Ctx_Body dbg F) (\<lambda>body c.
       (case decode body of
          Inl err \<Rightarrow>
            if errors_Is (Some err) EOF then Ret (zero, Some (bad_request ''empty request body'' err))
            else Ret (zero, Some (bad_request ''invalid JSON body'' err))
        | Inr (out, trailing) \<Rightarrow>
            if trailing then Ret (zero, Some (bad_request ''invalid JSON body'' errTrailingData))
            else validated F validate zero out, c))"

text \<open>A handler that returns the error of the binding hands it to the funnel.\<close>

definition bind_handler ::
  "bool \<Rightarrow> ('w, 's) fasthttp \<Rightarrow> (bytes \<Rightarrow> go_error + 't \<times> bool) \<Rightarrow>
   ('t \<Rightarrow> go_error option res \<times> 't) option \<Rightarrow> 't \<Rightarrow> ('t \<Rightarrow> ('w, 'x, 'v, 's) Handler) \<Rightarrow> ('w, 'x, 'v, 's) Handler"
where
  "bind_handler dbg F decode validate zero use_it =
     then_do (binding_JSON dbg F decode validate zero) (\<lambda>(x, err).
       case err of Some e \<Rightarrow> (\<lambda>c. (Ret (Some e), c)) | None \<Rightarrow> use_it x)"

lemma sel_HTTP_direct: "errors_As sel_HTTP (HTTPError code msg cause) = Some (code, msg)"
  by (subst errors_As.simps) simp

section \<open>Properties\<close>


definition body_ctx :: "(nat wire, unit, nat, nat) Ctx" where
  "body_ctx = (newCtx 0)\<lparr>fctx := Some get_wire, has_app := True\<rparr>"


end
