(* ===== verification/Otel.thy ===== *)
theory Otel
  imports Dispatch
begin

text \<open>
  Tracing and metrics: \<open>otelrice/otelrice.go\<close>. The OpenTelemetry API is seen through the
  calls made on it, in order, as events beside the Ctx. The propagator, which sees the request through
  the header carrier, and the tracer's
  effect on the context are parameters, as are the clock, the connection's TLS flag, the
  user agent and the formatting of an address.
\<close>

section \<open>Events\<close>

datatype attr = AStr string string | AInt string int

datatype otel_event =
    SpanStart string "attr list"
  | RecordError go_error
  | RecordPanic pvalue
  | MetricRecord int "attr list"
  | SetAttributes "attr list"
  | SetStatusError
  | SpanEnd

text \<open>
  \<open>otelrice/carrier.go\<close>: the request header as a propagator reads it. \<open>o_All\<close> is the header's
  iterator and \<open>o_SetHeader\<close> its setter.
\<close>

record carrier =
  ca_Get :: "string \<Rightarrow> string"
  ca_Keys :: "string list"

record ('w, 'x) otel_env =
  o_Extract :: "'x \<Rightarrow> carrier \<Rightarrow> 'x"
  o_All :: "'w \<Rightarrow> (bytes \<times> bytes) list"
  o_SetHeader :: "string \<Rightarrow> string \<Rightarrow> 'w \<Rightarrow> 'w"
  o_Start :: "'x \<Rightarrow> string \<Rightarrow> 'x"
  o_IsTLS :: "'w \<Rightarrow> bool"
  o_UserAgent :: "'w \<Rightarrow> bytes"
  o_Recording :: bool
  o_ipString :: "bytes \<Rightarrow> string"
  o_elapsed :: int

definition carrier_Get :: "('w, 's) fasthttp \<Rightarrow> 'w \<Rightarrow> string \<Rightarrow> string" where
  "carrier_Get F w key = f_Header F key w"

definition carrier_Set :: "('w, 'x) otel_env \<Rightarrow> string \<Rightarrow> string \<Rightarrow> 'w \<Rightarrow> 'w" where
  "carrier_Set E key v w = o_SetHeader E key v w"

fun carrier_keys_loop :: "string list \<Rightarrow> (bytes \<times> bytes) list \<Rightarrow> string list" where
  "carrier_keys_loop keys [] = keys"
| "carrier_keys_loop keys ((k, _) # kvs) = carrier_keys_loop (keys @ [k]) kvs"

definition carrier_Keys :: "('w, 'x) otel_env \<Rightarrow> 'w \<Rightarrow> string list" where
  "carrier_Keys E w = carrier_keys_loop [] (o_All E w)"

definition carrier_of :: "('w, 's) fasthttp \<Rightarrow> ('w, 'x) otel_env \<Rightarrow> 'w \<Rightarrow> carrier" where
  "carrier_of F E w = \<lparr>ca_Get = carrier_Get F w, ca_Keys = carrier_Keys E w\<rparr>"

lemma carrier_Keys_all: "carrier_Keys E w = map fst (o_All E w)"
proof -
  have "carrier_keys_loop keys kvs = keys @ map fst kvs" for keys kvs
    by (induction keys kvs rule: carrier_keys_loop.induct) simp_all
  then show ?thesis by (simp add: carrier_Keys_def)
qed

section \<open>Options\<close>

text \<open>
  A middleware of options: the providers and the propagator are whatever the program
  passes, the global ones by default.
\<close>

record ('t, 'm, 'p) otel_config =
  oc_tp :: 't
  oc_mp :: 'm
  oc_prop :: 'p

definition WithTracerProvider :: "'t option \<Rightarrow> string + (('t, 'm, 'p) otel_config \<Rightarrow> ('t, 'm, 'p) otel_config)" where
  "WithTracerProvider tp =
     (case tp of None \<Rightarrow> Inl ''rice: otelrice: WithTracerProvider: provider is nil''
      | Some t \<Rightarrow> Inr (\<lambda>c. c\<lparr>oc_tp := t\<rparr>))"

definition WithMeterProvider :: "'m option \<Rightarrow> string + (('t, 'm, 'p) otel_config \<Rightarrow> ('t, 'm, 'p) otel_config)" where
  "WithMeterProvider mp =
     (case mp of None \<Rightarrow> Inl ''rice: otelrice: WithMeterProvider: provider is nil''
      | Some m \<Rightarrow> Inr (\<lambda>c. c\<lparr>oc_mp := m\<rparr>))"

definition WithPropagators :: "'p option \<Rightarrow> string + (('t, 'm, 'p) otel_config \<Rightarrow> ('t, 'm, 'p) otel_config)" where
  "WithPropagators pr =
     (case pr of None \<Rightarrow> Inl ''rice: otelrice: WithPropagators: propagator is nil''
      | Some p \<Rightarrow> Inr (\<lambda>c. c\<lparr>oc_prop := p\<rparr>))"

text \<open>\<open>histogram\<close> is what the meter answers when the duration histogram is created.\<close>

definition Middleware_new ::
  "('t, 'm, 'p) otel_config \<Rightarrow> (('t, 'm, 'p) otel_config \<Rightarrow> ('t, 'm, 'p) otel_config) list \<Rightarrow>
   ('m \<Rightarrow> string option) \<Rightarrow> string + ('t, 'm, 'p) otel_config"
where
  "Middleware_new globals opts histogram =
     (let cfg = fold (\<lambda>o1 c. o1 c) opts globals
      in case histogram (oc_mp cfg) of
           Some err \<Rightarrow> Inl (''rice: otelrice: creating the duration histogram: '' @ err)
         | None \<Rightarrow> Inr cfg)"

section \<open>Names and attributes\<close>

definition known_methods :: "string list" where
  "known_methods = [''GET'', ''HEAD'', ''POST'', ''PUT'', ''PATCH'', ''DELETE'', ''OPTIONS'', ''CONNECT'', ''TRACE'', ''QUERY'']"

definition methodName :: "bytes \<Rightarrow> string" where
  "methodName m = (if m \<in> set known_methods then m else ''_OTHER'')"

definition metric_attrs :: "string \<Rightarrow> string \<Rightarrow> string \<Rightarrow> int \<Rightarrow> attr list" where
  "metric_attrs m rt scheme status =
     [AStr ''http.request.method'' m, AInt ''http.response.status_code'' status, AStr ''url.scheme'' scheme]
     @ (if rt \<noteq> [] then [AStr ''http.route'' rt] else [])
     @ (if status \<ge> 500 then [AStr ''error.type'' (itoa status)] else [])"

definition finish :: "('w, 'x) otel_env \<Rightarrow> string \<Rightarrow> string \<Rightarrow> string \<Rightarrow> int \<Rightarrow> bytes \<Rightarrow> otel_event list" where
  "finish E m rt scheme status ip =
     [MetricRecord (o_elapsed E) (metric_attrs m rt scheme status)]
     @ (if o_Recording E then
          [SetAttributes [AInt ''http.response.status_code'' status]]
          @ (if ip \<noteq> [] then [SetAttributes [AStr ''client.address'' (o_ipString E ip)]] else [])
          @ (if status \<ge> 500 then [SetAttributes [AStr ''error.type'' (itoa status)]] else [])
        else [])
     @ (if status \<ge> 500 then [SetStatusError] else [])
     @ [SpanEnd]"

definition span_name :: "bytes \<Rightarrow> string \<Rightarrow> string" where
  "span_name vb rt =
     (let m = (if methodName vb = ''_OTHER'' then ''HTTP'' else methodName vb)
      in if rt \<noteq> [] then m @ '' '' @ rt else m)"

definition start_attrs :: "bytes \<Rightarrow> bytes \<Rightarrow> string \<Rightarrow> string \<Rightarrow> bytes \<Rightarrow> attr list" where
  "start_attrs vb path scheme rt ua =
     [AStr ''http.request.method'' (methodName vb), AStr ''url.path'' path, AStr ''url.scheme'' scheme]
     @ (if rt \<noteq> [] then [AStr ''http.route'' rt] else [])
     @ (if methodName vb = ''_OTHER'' then [AStr ''http.request.method_original'' vb] else [])
     @ (if ua \<noteq> [] then [AStr ''user_agent.original'' ua] else [])"

section \<open>The middleware\<close>

definition tell_otel :: "otel_event list \<Rightarrow> ('c \<times> otel_event list, unit) call" where
  "tell_otel es ce = (Ret (), (fst ce, snd ce @ es))"

text \<open>The deferred function: only a panic makes it act, and it panics on.\<close>

definition otel_recover ::
  "bool \<Rightarrow> ('w, 's) fasthttp \<Rightarrow> ('w, 'x) otel_env \<Rightarrow> string \<Rightarrow> string \<Rightarrow> string \<Rightarrow> 'x \<Rightarrow>
   (('w, 'x, 'v, 's) Ctx \<times> otel_event list, go_error option) call \<Rightarrow>
   (('w, 'x, 'v, 's) Ctx \<times> otel_event list, go_error option) call"
where
  "otel_recover dbg F E m rt scheme prev body ce =
     (case body ce of
        (Ret err, ce') \<Rightarrow> (Ret err, ce')
      | (Panic v, ce') \<Rightarrow>
          then_do (on_ctx (SetContext dbg (Some prev))) (\<lambda>_.
          then_do (tell_otel [RecordPanic v]) (\<lambda>_.
          then_do (on_ctx (ClientIP dbg F)) (\<lambda>ip.
          then_do (tell_otel (finish E m rt scheme 500 ip)) (\<lambda>_ ce. (Panic v, ce))))) ce')"

definition otel_body ::
  "bool \<Rightarrow> ('w, 's) fasthttp \<Rightarrow> ('w, 'x) otel_env \<Rightarrow> ('w, 'x, 'v, 's) ErrorHandler \<Rightarrow> string \<Rightarrow> string \<Rightarrow> string \<Rightarrow> 'x \<Rightarrow> 'x \<Rightarrow>
   (('w, 'x, 'v, 's) Ctx \<times> otel_event list, go_error option) call \<Rightarrow>
   (('w, 'x, 'v, 's) Ctx \<times> otel_event list, go_error option) call"
where
  "otel_body dbg F E EH m rt scheme x prev next =
     then_do (on_ctx (SetContext dbg (Some x))) (\<lambda>_.
     then_do next (\<lambda>err.
     then_do (if err \<noteq> None then on_ctx (HandleError dbg F EH err) else (\<lambda>ce. (Ret (), ce))) (\<lambda>_.
     then_do (on_ctx (SetContext dbg (Some prev))) (\<lambda>_.
     then_do (on_ctx (ask (f_StatusCode F))) (\<lambda>status.
     then_do (case err of
                Some e \<Rightarrow> if status \<ge> 500 then tell_otel [RecordError e] else tell_otel []
              | None \<Rightarrow> tell_otel []) (\<lambda>_.
     then_do (on_ctx (ClientIP dbg F)) (\<lambda>ip.
     then_do (tell_otel (finish E m rt scheme status ip)) (\<lambda>_ ce. (Ret None, ce)))))))))"

definition otel_Middleware ::
  "bool \<Rightarrow> ('w, 's) fasthttp \<Rightarrow> ('w, 'x) otel_env \<Rightarrow> 'x \<Rightarrow> ('w, 'x, 'v, 's) ErrorHandler \<Rightarrow>
   (('w, 'x, 'v, 's) Ctx \<times> otel_event list, go_error option) call \<Rightarrow>
   (('w, 'x, 'v, 's) Ctx \<times> otel_event list, go_error option) call"
where
  "otel_Middleware dbg F E base EH next =
     then_do (on_ctx (RequestCtx dbg)) (\<lambda>_.
     then_do (on_ctx (ask id)) (\<lambda>w.
     then_do (on_ctx (Route dbg)) (\<lambda>rt.
     then_do (on_ctx (Context dbg base)) (\<lambda>prev.
     then_do (on_ctx (Ctx_Path dbg F)) (\<lambda>path.
       let vb = f_Method F w;
           scheme = (if o_IsTLS E w then ''https'' else ''http'');
           name = span_name vb rt;
           x = o_Start E (o_Extract E prev (carrier_of F E w)) name
       in then_do (tell_otel [SpanStart name (start_attrs vb path scheme rt (o_UserAgent E w))]) (\<lambda>_.
            otel_recover dbg F E (methodName vb) rt scheme prev
              (otel_body dbg F E EH (methodName vb) rt scheme x prev next)))))))"

section \<open>What is recorded\<close>

text \<open>The options apply in order, so the last one for a field decides it.\<close>

lemma Middleware_new_last_provider:
  assumes "WithMeterProvider (Some m) = Inr f" "histogram m = None"
  shows "\<exists>cfg. Middleware_new globals (opts @ [f]) histogram = Inr cfg \<and> oc_mp cfg = m"
  using assms by (auto simp: Middleware_new_def WithMeterProvider_def Let_def)

lemma otel_body_eval:
  assumes c: "bound c" and EH: "\<forall>e. well_behaved (EH e)" and "next": "body (c\<lparr>ctx := Some x\<rparr>) = (r, d)" and d: "bound d"
  shows "\<exists>d'. bound d' \<and> (case r of
      Panic v \<Rightarrow> otel_body dbg F E EH m rt scheme x prev (on_ctx body) (c, log) = (Panic v, (d, log))
    | Ret err \<Rightarrow>
        (err = None \<longrightarrow> d' = d) \<and> (err \<noteq> None \<longrightarrow> handled d')
        \<and> otel_body dbg F E EH m rt scheme x prev (on_ctx body) (c, log) =
           (Ret None, (d'\<lparr>ctx := Some prev\<rparr>, log
             @ (case err of Some e \<Rightarrow> if f_StatusCode F (req d') \<ge> 500 then [RecordError e] else [] | None \<Rightarrow> [])
             @ finish E m rt scheme (f_StatusCode F (req d')) (f_RemoteIP F (req d')))))"
proof (cases r)
  case (Panic v)
  then show ?thesis
    using c d "next" by (intro exI [of _ d]) (simp add: otel_body_def bound_calls)
next
  case (Ret err)
  obtain d' where d': "(if err \<noteq> None then on_ctx (HandleError dbg F EH err) else (\<lambda>ce. (Ret (), ce))) (d, log) =
      (Ret (), (d', log))" "bound d'" "err = None \<longrightarrow> d' = d" "err \<noteq> None \<longrightarrow> handled d'"
  proof (cases err)
    case None
    then show ?thesis using that [of d] d by simp
  next
    case (Some e)
    then show ?thesis using HandleError_settles [OF EH d, of dbg F e] that by auto
  qed
  then show ?thesis
    using c Ret "next"
    by (intro exI [of _ d']) (auto simp: otel_body_def bound_calls tell_otel_def split: option.split)
qed


definition otel_wire :: "(nat wire, unit, nat, nat) Ctx" where
  "otel_wire = (newCtx 0)\<lparr>fctx := Some get_wire, has_app := True\<rparr>"

definition otel_demo :: "(nat wire, unit) otel_env" where
  "otel_demo = \<lparr>o_Extract = (\<lambda>x _. x), o_All = (\<lambda>_. []), o_SetHeader = (\<lambda>_ _ w. w), o_Start = (\<lambda>x _. x), o_IsTLS = (\<lambda>_. False),
     o_UserAgent = (\<lambda>_. []), o_Recording = True, o_ipString = id, o_elapsed = 7\<rparr>"


end
