(* ===== verification/Options.thy ===== *)
theory Options
  imports Dispatch Lifecycle
begin

text \<open>
  Constructing an App: the options of \<open>app.go\<close> with their panics, what \<open>New\<close> makes of
  them, the transport's own error handler and \<open>FasthttpHandler\<close>. A duration is an \<open>int\<close> of
  nanoseconds in the range of \<open>time.Duration\<close>; zero means no limit, and for the body size
  fasthttp's default.
\<close>

section \<open>Options\<close>

record 'e server_conf =
  errorHandler :: 'e
  ReadTimeout :: int
  WriteTimeout :: int
  IdleTimeout :: int
  MaxRequestBodySize :: int
  drainDelay :: int

type_synonym 'e Option = "'e server_conf \<Rightarrow> 'e server_conf"

definition WithErrorHandler :: "'e option \<Rightarrow> string + 'e Option" where
  "WithErrorHandler h =
     (case h of None \<Rightarrow> Inl ''rice: WithErrorHandler: handler is nil''
      | Some e \<Rightarrow> Inr (\<lambda>a. a\<lparr>errorHandler := e\<rparr>))"

definition WithReadTimeout :: "int \<Rightarrow> string + 'e Option" where
  "WithReadTimeout d =
     (if d < 0 then Inl ''rice: WithReadTimeout: duration is negative''
      else Inr (\<lambda>a. a\<lparr>ReadTimeout := d\<rparr>))"

definition WithWriteTimeout :: "int \<Rightarrow> string + 'e Option" where
  "WithWriteTimeout d =
     (if d < 0 then Inl ''rice: WithWriteTimeout: duration is negative''
      else Inr (\<lambda>a. a\<lparr>WriteTimeout := d\<rparr>))"

definition WithIdleTimeout :: "int \<Rightarrow> string + 'e Option" where
  "WithIdleTimeout d =
     (if d < 0 then Inl ''rice: WithIdleTimeout: duration is negative''
      else Inr (\<lambda>a. a\<lparr>IdleTimeout := d\<rparr>))"

definition WithMaxBodySize :: "int \<Rightarrow> string + 'e Option" where
  "WithMaxBodySize n =
     (if n \<le> 0 then Inl ''rice: WithMaxBodySize: size must be positive''
      else Inr (\<lambda>a. a\<lparr>MaxRequestBodySize := n\<rparr>))"

definition WithDrainDelay :: "int \<Rightarrow> string + 'e Option" where
  "WithDrainDelay d =
     (if d < 0 then Inl ''rice: WithDrainDelay: duration is negative''
      else Inr (\<lambda>a. a\<lparr>drainDelay := d\<rparr>))"

text \<open>The fields \<open>New\<close> sets that an option can change, then the options from left to right.\<close>

definition New_conf :: "'e \<Rightarrow> 'e Option list \<Rightarrow> 'e server_conf" where
  "New_conf defaultHandler opts = fold (\<lambda>opt a. opt a) opts
     \<lparr>errorHandler = defaultHandler, ReadTimeout = 0, WriteTimeout = 0, IdleTimeout = 0,
      MaxRequestBodySize = 0, drainDelay = 0\<rparr>"

section \<open>The transport's errors\<close>

text \<open>
  \<open>err413\<close> is fasthttp's sentinel \<open>ErrBodyTooLarge\<close>; \<open>asSmall\<close> and \<open>asNet\<close> tell which errors
  are a \<open>fasthttp.ErrSmallBuffer\<close> and a \<open>net.OpError\<close>, the latter with its \<open>Timeout()\<close>;
  \<open>ctx_Error\<close> is \<open>RequestCtx.Error\<close>.
\<close>

definition transportError ::
  "go_error \<Rightarrow> (go_error \<Rightarrow> unit option) \<Rightarrow> (go_error \<Rightarrow> bool option) \<Rightarrow>
   (string \<Rightarrow> int \<Rightarrow> 'w \<Rightarrow> 'w) \<Rightarrow> go_error \<Rightarrow> 'w \<Rightarrow> 'w"
where
  "transportError err413 asSmall asNet ctx_Error err w =
     (if errors_Is (Some err) err413 then ctx_Error ''Request Entity Too Large'' 413 w
      else if errors_As asSmall err \<noteq> None then ctx_Error ''Too big request header'' 431 w
      else if errors_As asNet err = Some True then ctx_Error ''Request timeout'' 408 w
      else ctx_Error ''Error when parsing request'' 400 w)"

definition FasthttpHandler ::
  "bool \<Rightarrow> ('w, 's) fasthttp \<Rightarrow> bytes \<Rightarrow> bool \<Rightarrow> ('w, 'x, 'v, 's) ErrorHandler server_conf \<Rightarrow>
   ('w, 'x, 'v, 's) Handler App \<Rightarrow>
   reg_panic + (nat \<Rightarrow> ('w, 'x, 'v, 's) Ctx list \<Rightarrow> 'w \<Rightarrow> unit res \<times> ('w, 'x, 'v, 's) Ctx list \<times> 'w)"
where
  "FasthttpHandler dbg F stack drains conf a =
     (case Build notFound a of
        (Some p, _) \<Rightarrow> Inl p
      | (None, a') \<Rightarrow> Inr (handle dbg F (errorHandler conf) stack drains a'))"

section \<open>Accepted options\<close>

text \<open>An option a program can hold: what a constructor returned for an argument of its Go type.\<close>

inductive made :: "('e \<Rightarrow> bool) \<Rightarrow> 'e Option \<Rightarrow> bool" for ok :: "'e \<Rightarrow> bool" where
  made_error: "\<lbrakk>WithErrorHandler h = Inr f; \<And>e. h = Some e \<Longrightarrow> ok e\<rbrakk> \<Longrightarrow> made ok f"
| made_read: "\<lbrakk>WithReadTimeout d = Inr f; d \<le> maxInt64\<rbrakk> \<Longrightarrow> made ok f"
| made_write: "\<lbrakk>WithWriteTimeout d = Inr f; d \<le> maxInt64\<rbrakk> \<Longrightarrow> made ok f"
| made_idle: "\<lbrakk>WithIdleTimeout d = Inr f; d \<le> maxInt64\<rbrakk> \<Longrightarrow> made ok f"
| made_body: "\<lbrakk>WithMaxBodySize n = Inr f; n \<le> maxInt64\<rbrakk> \<Longrightarrow> made ok f"
| made_drain: "\<lbrakk>WithDrainDelay d = Inr f; d \<le> maxInt64\<rbrakk> \<Longrightarrow> made ok f"

lemmas option_defs = WithErrorHandler_def WithReadTimeout_def WithWriteTimeout_def WithIdleTimeout_def
  WithMaxBodySize_def WithDrainDelay_def

definition sane_conf :: "('e \<Rightarrow> bool) \<Rightarrow> 'e server_conf \<Rightarrow> bool" where
  "sane_conf ok c \<longleftrightarrow> ok (errorHandler c)
     \<and> list_all (\<lambda>d. 0 \<le> d \<and> d \<le> maxInt64)
         [ReadTimeout c, WriteTimeout c, IdleTimeout c, MaxRequestBodySize c, drainDelay c]"

lemma made_sane: "made ok f \<Longrightarrow> sane_conf ok c \<Longrightarrow> sane_conf ok (f c)"
  by (induction rule: made.induct) (auto simp: option_defs sane_conf_def split: if_splits option.splits)

lemma fold_sane: "list_all (made ok) opts \<Longrightarrow> sane_conf ok c \<Longrightarrow> sane_conf ok (fold (\<lambda>opt a. opt a) opts c)"
  by (induction opts arbitrary: c) (auto simp: made_sane)

lemma New_sane: "list_all (made ok) opts \<Longrightarrow> ok dh \<Longrightarrow> sane_conf ok (New_conf dh opts)"
  unfolding New_conf_def by (rule fold_sane) (simp_all add: sane_conf_def maxInt64_def)

lemma New_last_wins: "New_conf dh (opts @ [f]) = f (New_conf dh opts)"
  by (simp add: New_conf_def)

text \<open>
  No configuration can make a shutdown end early. Whatever options an App was made
  with and in whatever order, RunContext gives Shutdown the drain delay plus the grace,
  cut off at the largest duration: the sum never wraps round to a negative timeout.
\<close>

lemma configured_shutdown_time:
  assumes "list_all (made (\<lambda>_. True)) opts" "\<not> RunContext_panics grace" "grace \<le> maxInt64"
  shows "shutdownWithin_total (drainDelay (New_conf dh opts)) grace =
      min (drainDelay (New_conf dh opts) + grace) maxInt64
    \<and> grace \<le> shutdownWithin_total (drainDelay (New_conf dh opts)) grace"
  using New_sane [OF assms(1), of dh] assms(2,3) shutdownWithin_saturates [of "drainDelay (New_conf dh opts)" grace]
  by (auto simp: sane_conf_def RunContext_panics_def)

section \<open>The transport never blames the request for its size\<close>

text \<open>
  A body over the limit is a 413 wherever the sentinel sits in the error's tree, and only
  then; an error of none of the three classes is the 400 fasthttp itself would send.
\<close>

lemma transportError_413_iff:
  assumes "\<And>msg msg' code code' w. ctx_Error msg code w = ctx_Error msg' code' w \<Longrightarrow> code = code'"
  shows "transportError err413 asSmall asNet ctx_Error err w = ctx_Error ''Request Entity Too Large'' 413 w
    \<longleftrightarrow> in_chain err413 err"
proof -
  have "errors_Is (Some err) err413 \<longleftrightarrow> in_chain err413 err"
    using errors_As_None [of "\<lambda>x. if x = err413 then Some () else None" err] by (auto simp: errors_Is_def)
  then show ?thesis
    using assms [of "''Too big request header''" 431 w "''Request Entity Too Large''" 413]
      assms [of "''Request timeout''" 408 w "''Request Entity Too Large''" 413]
      assms [of "''Error when parsing request''" 400 w "''Request Entity Too Large''" 413]
    by (auto simp: transportError_def)
qed

lemma transportError_default:
  assumes "\<And>x. in_chain x err \<Longrightarrow> x \<noteq> err413 \<and> asSmall x = None \<and> asNet x = None"
  shows "transportError err413 asSmall asNet ctx_Error err w = ctx_Error ''Error when parsing request'' 400 w"
proof -
  have "errors_As asSmall err = None" "errors_As asNet err = None" "\<not> errors_Is (Some err) err413"
    using assms by (auto simp: errors_As_None errors_Is_def split: if_splits)
  then show ?thesis by (simp add: transportError_def)
qed

section \<open>The mounted handler\<close>

text \<open>
  The handler a program mounts is total: Build does not panic on an App made by any
  sequence of registrations, and every request is answered by the configured funnel.
\<close>

lemma FasthttpHandler_total:
  assumes "reachable notFound a" "behaved_App (snd (Build notFound a))"
    and "list_all (made (\<lambda>EH. \<forall>e. well_behaved (EH e))) opts" "\<forall>d\<in>set pool. blank d"
  shows "\<exists>h. FasthttpHandler dbg F stack drains (New_conf (DefaultErrorHandler F) opts) a = Inr h
    \<and> fst (h pick pool w) = Ret () \<and> (\<forall>d\<in>set (fst (snd (h pick pool w))). blank d)"
proof -
  obtain a' where a': "Build notFound a = (None, a')" "built a'"
    using Build_ok [OF inv_App_reachable [OF assms(1)]] by (metis prod.collapse)
  have "reachable notFound a'"
    using reach_Build [OF assms(1)] a'(1) by simp
  moreover have "\<forall>e. well_behaved (errorHandler (New_conf (DefaultErrorHandler F) opts) e)"
    using New_sane [OF assms(3)] by (simp add: sane_conf_def wb_DefaultErrorHandler)
  ultimately show ?thesis
    using assms(2,4) a' handle_returns by (simp add: FasthttpHandler_def)
qed

end
