(* ===== verification/Capture_Bound.thy ===== *)
theory Capture_Bound
  imports Routes_Build
begin

text \<open>
  The size of the parameter buffer. \<open>App.maxParams\<close> is the largest number of captures of a
  registered route, and a Ctx is made with room for that many, so that the lookups of a
  built App never grow a buffer, backtracking included.
\<close>

section \<open>How many captures a walk down a tree can hold\<close>

fun fits :: "nat \<Rightarrow> 'h node \<Rightarrow> bool" where
  "fits k (Node p h ss pa wi nm) \<longleftrightarrow>
     list_all (fits k) ss
     \<and> (case pa of None \<Rightarrow> True | Some c \<Rightarrow> 0 < k \<and> fits (k - 1) c)
     \<and> (case wi of None \<Rightarrow> True | Some c \<Rightarrow> 0 < k \<and> fits (k - 1) c)"

lemma fits_iff:
  "fits k n \<longleftrightarrow> list_all (fits k) (n_static n)
     \<and> (\<forall>c. n_param n = Some c \<longrightarrow> 0 < k \<and> fits (k - 1) c)
     \<and> (\<forall>c. n_wildcard n = Some c \<longrightarrow> 0 < k \<and> fits (k - 1) c)"
  by (cases n) (auto split: option.splits)

lemma fits_fresh [simp]: "fits k (Node p None [] None None x)"
  by simp

lemma fits_static: "fits k n \<Longrightarrow> i < length (n_static n) \<Longrightarrow> fits k (n_static n ! i)"
  by (subst (asm) fits_iff) (simp add: list_all_length)

lemma fits_split_node: "fits k n \<Longrightarrow> fits k (split_node cp n)"
  by (subst (asm) fits_iff) (auto simp: split_node_def split: option.split)

lemma fits_set_static: "fits k n \<Longrightarrow> list_all (fits k) ss \<Longrightarrow> fits k (set_static ss n)"
  by (cases n) (simp add: set_static_def)

lemma fits_set_capture:
  "fits k n \<Longrightarrow> 0 < k \<Longrightarrow> fits (k - 1) c \<Longrightarrow> fits k (set_param c n) \<and> fits k (set_wildcard c n)"
  by (cases n) (simp add: set_param_def set_wildcard_def)

lemma fits_set_handler [simp]: "fits k (set_handler h n) \<longleftrightarrow> fits k n"
  by (cases n) (simp add: set_handler_def)

lemma fits_insertStatic:
  assumes "fits k n" "\<And>m. fits k m \<Longrightarrow> fits k (snd (f m))"
  shows "fits k (snd (insertStatic tx f n))"
  using assms
proof (induction tx f n rule: insertStatic.induct)
  case (1 tx f n)
  show ?case
  proof (cases "tx = []")
    case True
    then show ?thesis using 1(2,3) by (subst insertStatic.simps) simp
  next
    case tx: False
    have ss: "list_all (fits k) (n_static n)" using 1(2) by (subst (asm) fits_iff) simp
    show ?thesis
    proof (cases "static_index (hd tx) (n_static n)")
      case None
      then show ?thesis
        using tx ss 1(2) 1(3) [OF fits_fresh]
        by (subst insertStatic.simps) (simp add: split_beta fits_set_static)
    next
      case (Some i)
      let ?c = "n_static n ! i"
      let ?cp = "commonPrefixLen (n_prefix ?c) tx"
      let ?c1 = "if ?cp < length (n_prefix ?c) then split_node ?cp ?c else ?c"
      have "fits k ?c1"
        using static_index_SomeD [OF Some] fits_static [OF 1(2)] by (simp add: fits_split_node)
      then have "fits k (snd (insertStatic (drop ?cp tx) f ?c1))"
        using 1(1) [OF tx Some refl refl refl _ 1(3)] by simp
      then have "list_all (fits k) ((n_static n)[i := snd (insertStatic (drop ?cp tx) f ?c1)])"
        using ss by (auto simp: list_all_iff dest!: subsetD [OF set_update_subset_insert])
      then show ?thesis
        using tx Some 1(2) by (subst insertStatic.simps) (simp add: Let_def split_beta fits_set_static)
    qed
  qed
qed

lemma fits_insert_walk: "fits k n \<Longrightarrow> captures ss \<le> k \<Longrightarrow> fits k (snd (insert_walk pat ss h n))"
proof (induction pat ss h n arbitrary: k rule: insert_walk.induct)
  case (2 pat t ss h n)
  then show ?case
    by (simp add: captures_def fits_insertStatic)
next
  case (3 pat x ss h n)
  then have k: "0 < k" "captures ss \<le> k - 1" by (simp_all add: captures_def)
  show ?case
  proof (cases "n_param n")
    case None
    then show ?thesis
      using 3(1) [OF None fits_fresh k(2)] fits_set_capture [OF 3(3) k(1)] by (simp add: split_beta)
  next
    case (Some c)
    then have "fits (k - 1) c" using 3(3) by (subst (asm) fits_iff) simp
    then show ?thesis
      using Some 3(2) [OF Some _ _ k(2)] fits_set_capture [OF 3(3) k(1)] 3(3) by (simp add: split_beta)
  qed
next
  case (4 pat x ss h n)
  then have k: "0 < k" "captures ss \<le> k - 1" by (simp_all add: captures_def)
  show ?case
  proof (cases "n_wildcard n")
    case None
    then show ?thesis
      using 4(1) [OF None fits_fresh k(2)] fits_set_capture [OF 4(3) k(1)] by (simp add: split_beta)
  next
    case (Some c)
    then have "fits (k - 1) c" using 4(3) by (subst (asm) fits_iff) simp
    then show ?thesis
      using Some 4(2) [OF Some _ _ k(2)] fits_set_capture [OF 4(3) k(1)] 4(3) by (simp add: split_beta)
  qed
qed (auto simp: captures_def)

definition fits_Tree :: "nat \<Rightarrow> 'h Tree \<Rightarrow> bool" where
  "fits_Tree k T \<longleftrightarrow> (\<forall>n. root (inner T) = Some n \<longrightarrow> fits k n)"

lemma fits_empty_Tree [simp]: "fits_Tree k empty_Tree"
  by (simp add: fits_Tree_def empty_Tree_def)

lemma fits_Tree_Insert:
  assumes "fits_Tree k T" "\<And>ss. parsePattern p = Inr ss \<Longrightarrow> captures ss \<le> k"
  shows "fits_Tree k (snd (Insert T p h))"
proof (cases "parsePattern p")
  case (Inr ss)
  let ?n = "case root (inner T) of None \<Rightarrow> empty_node | Some n \<Rightarrow> n"
  have "fits k ?n"
    using assms(1) by (auto simp: fits_Tree_def empty_node_def split: option.split)
  then have "fits k (snd (insert_walk p ss h ?n))"
    by (rule fits_insert_walk) (rule assms(2) [OF Inr])
  then show ?thesis
    using Inr by (auto simp: Insert_def tree_insert_def fits_Tree_def Let_def split: prod.splits option.splits)
qed (use assms(1) in \<open>simp add: Insert_def\<close>)

section \<open>A lookup stays within the room it needs\<close>

text \<open>The room that is left in a buffer; a lookup in a tree that fits it changes no capacity.\<close>

definition room :: "Params \<Rightarrow> nat" where
  "room p = Cap p - Len p"

lemma Cap_ptruncate [simp]: "n \<le> plen p \<Longrightarrow> clean p \<Longrightarrow> Cap (ptruncate p n) = Cap p"
  by (simp add: Cap_def ptruncate_def)

lemma Cap_add: "0 < room p \<Longrightarrow> Cap (add p x v) = Cap p \<and> room (add p x v) = room p - 1"
  by (simp add: room_def Cap_def Len_def add_def)

text \<open>A failed attempt leaves the room it found.\<close>

lemma clean_Len: "clean p \<Longrightarrow> Len p = length (entries p)"
  by (simp add: Len_def entries_def)

lemma room_same: "clean p \<Longrightarrow> clean q \<Longrightarrow> entries q = entries p \<Longrightarrow> Cap q = Cap p \<Longrightarrow> room q = room p"
  by (simp add: room_def clean_Len)

lemma Cap_try_param:
  fixes n :: "'h node"
  assumes p: "clean p" and n: "fits k n" "k \<le> room p"
    and IH: "\<And>(c :: 'h node) rest q. length rest < length path \<Longrightarrow> clean q \<Longrightarrow> fits (k - 1) c \<Longrightarrow> k - 1 \<le> room q \<Longrightarrow>
      Cap (snd (node_lookup c rest q)) = Cap q"
  shows "Cap (snd (try_param node_lookup n path p)) = Cap p"
proof (cases "n_param n")
  case (Some c)
  let ?seg = "takeWhile (\<lambda>b. b \<noteq> CHR ''/'') path"
  let ?q = "add p (n_name c) ?seg"
  have k: "0 < k" "fits (k - 1) c" using n(1) Some by (subst (asm) fits_iff, simp)+
  have q: "clean ?q" "Cap ?q = Cap p" "k - 1 \<le> room ?q"
    using p k(1) n(2) Cap_add [of p] by (auto intro: clean_add)
  show ?thesis
  proof (cases "?seg = []")
    case False
    define res where "res = (if drop (length ?seg) path = [] then (n_handler c, ?q)
      else node_lookup c (drop (length ?seg) path) ?q)"
    have "length (drop (length ?seg) path) < length path"
      using False by (cases path) auto
    then have "Cap (snd res) = Cap p"
      using IH [OF _ q(1) k(2) q(3)] q(2) by (simp add: res_def)
    moreover have "clean (snd res)" "length (entries ?q) \<le> length (entries (snd res))"
      using q(1) node_lookup_agrees [OF q(1), of c "drop (length ?seg) path"]
      by (auto simp: res_def agrees_def split: option.splits)
    moreover have "length (entries p) \<le> length (entries ?q)"
      by (simp add: pb.ents_put [OF p])
    ultimately have res: "Cap (snd res) = Cap p" "clean (snd res)" "Len p \<le> plen (snd res)"
      using clean_Len [OF p] clean_Len [of "snd res"] by (simp_all add: Len_def)
    have "try_param node_lookup n path p =
        (if fst res \<noteq> None then res else (None, ptruncate (snd res) (Len p)))"
      using Some False by (simp add: try_param_def Let_def res_def split_beta)
    then show ?thesis using res by simp
  qed (simp add: try_param_def Some)
qed (simp add: try_param_def)

lemma Cap_try_wildcard:
  assumes p: "clean p" and n: "fits k n" "k \<le> room p"
  shows "Cap (snd (try_wildcard n path p)) = Cap p"
proof (cases "n_wildcard n")
  case (Some w)
  then have "0 < k" using n(1) by (subst (asm) fits_iff) simp
  then have q: "Cap (add p (n_name w) path) = Cap p" "clean (add p (n_name w) path)"
      "plen p \<le> plen (add p (n_name w) path)"
    using Cap_add [of p] n(2) clean_add [OF p] by (auto simp: add_def Let_def)
  then show ?thesis using Some by (simp add: try_wildcard_def Let_def Len_def)
qed (simp add: try_wildcard_def)

lemma Cap_node_lookup:
  "clean p \<Longrightarrow> fits k n \<Longrightarrow> k \<le> room p \<Longrightarrow> Cap (snd (node_lookup n path p)) = Cap p"
proof (induction "length path" arbitrary: n path p k rule: less_induct)
  case less
  show ?case
  proof (cases "path = []")
    case True
    then show ?thesis by (simp add: node_lookup.simps)
  next
    case False
    obtain r1 p1 where s: "try_static node_lookup n path p = (r1, p1)" by fastforce
    have "Cap (snd (try_static node_lookup n path p)) = Cap p"
    proof (cases "staticChild n (hd path)")
      case (Some c)
      then have "fits k c" "length (drop (length (n_prefix c)) path) < length path"
        using less.prems(2) False staticChild_SomeD [OF Some] by (auto simp: fits_iff [of k n] list_all_iff)
      then show ?thesis
        using Some less.hyps [of "drop (length (n_prefix c)) path" p k c] less.prems
        by (simp add: try_static_def Let_def)
    qed (simp add: try_static_def)
    moreover have a1: "agrees p (r1, p1) (find_static n path)"
      using agrees_static [OF less.prems(1) node_lookup_agrees [OF less.prems(1)] False, of n] by (simp add: s)
    ultimately have p1: "Cap p1 = Cap p" "clean p1" "r1 = None \<longrightarrow> room p1 = room p"
      using s room_same [OF less.prems(1), of p1] by (auto simp: agrees_def split: option.splits)
    obtain r2 p2 where t: "try_param node_lookup n path p1 = (r2, p2)" by fastforce
    have a2: "agrees p1 (r2, p2) (find_param n path)"
      using agrees_param [OF p1(2) node_lookup_agrees, of n path] by (simp add: t)
    have p2: "Cap p2 = Cap p" "clean p2" "r2 = None \<longrightarrow> room p2 = room p" if "r1 = None"
      using Cap_try_param [OF p1(2) less.prems(2), of path] less p1 that t a2 room_same [OF p1(2), of p2]
      by (auto simp: agrees_def split: option.splits)
    show ?thesis
      using s t p1 p2 Cap_try_wildcard [of p2 k n path] less.prems False
      by (auto simp: node_lookup_step)
  qed
qed

lemma Cap_Lookup: "clean p \<Longrightarrow> fits_Tree k T \<Longrightarrow> k \<le> room p \<Longrightarrow> Cap (snd (Lookup T path p)) = Cap p"
  by (auto simp: Lookup_def tree_lookup_def fits_Tree_def Cap_node_lookup split: option.split)

section \<open>Every built App\<close>

definition inv_room :: "'h App \<Rightarrow> bool" where
  "inv_room a \<longleftrightarrow>
     list_all (\<lambda>r. \<forall>ss. parsePattern (r_path r) = Inr ss \<longrightarrow> captures ss \<le> app_maxParams a) (routes a)
     \<and> (built a \<longrightarrow> (\<forall>m. fits_Tree (app_maxParams a) (treeFor a m)))"

lemma inv_room_fields [simp]:
  "inv_room (a\<lparr>app_mws := x1\<rparr>) = inv_room a" "inv_room (a\<lparr>groups := x2\<rparr>) = inv_room a"
  "inv_room (a\<lparr>statics := x3\<rparr>) = inv_room a" "inv_room (a\<lparr>staticStopped := x4\<rparr>) = inv_room a"
  "inv_room (a\<lparr>buildOnce := x5\<rparr>) = inv_room a"
  by (simp_all add: inv_room_def)

text \<open>A registered route's captures are counted by the tree it went into.\<close>

lemma Insert_MaxParams:
  "Insert T p h = (None, T') \<Longrightarrow> parsePattern p = Inr ss \<Longrightarrow> captures ss \<le> MaxParams T'"
  by (auto simp: Insert_def MaxParams_def captures_def Let_def split: prod.splits option.splits)

lemma inv_room_register: "inv_room a \<Longrightarrow> inv_room (snd (register a m path h g mw))"
  using Insert_MaxParams
  by (fastforce simp: register_def inv_room_def Let_def list_all_iff
      split: option.splits prod.splits intro: le_max_iff_disj [THEN iffD2])

lemma inv_room_register_all: "inv_room a \<Longrightarrow> inv_room (snd (register_all a rs g mw))"
proof (induction rs arbitrary: a)
  case (Cons r rs)
  obtain m path h where r: "r = (m, path, h)" by (cases r)
  show ?case
    using inv_room_register [OF Cons.prems, of m path "Some h" g mw] Cons.IH
    by (auto simp: r split: prod.splits option.splits)
qed simp

lemma inv_room_static: "inv_room a \<Longrightarrow> inv_room (snd (App_static a serve redirect pre fsys g mw))"
  using inv_room_register_all [of a]
  by (auto simp: App_static_def split: option.splits prod.splits) (metis snd_conv)+

lemma fits_build_loop:
  assumes "build_loop a rs = (None, a')" "\<And>m. fits_Tree k (treeFor a m)"
    and "list_all (\<lambda>r. \<forall>ss. parsePattern (r_path r) = Inr ss \<longrightarrow> captures ss \<le> k) rs"
  shows "fits_Tree k (treeFor a' m)"
  using assms
proof (induction rs arbitrary: a)
  case (Cons r rs)
  let ?e = "\<lparr>re_h = Compile (r_h r) (middlewareFor a r), re_pattern = r_path r\<rparr>"
  obtain t where t: "Insert (treeFor a (r_method r)) (r_path r) ?e = (None, t)"
      "build_loop (put_tree a (r_method r) t) rs = (None, a')"
    using Cons.prems(1) by (auto split: prod.splits option.splits)
  have "fits_Tree k t"
    using fits_Tree_Insert [OF Cons.prems(2) [of "r_method r"], of "r_path r" ?e] Cons.prems(3) t(1) by simp
  then show ?case
    using Cons.IH [OF t(2)] Cons.prems(2,3) by simp
qed simp

lemma inv_room_Build:
  assumes "inv_App nf a" "inv_room a"
  shows "inv_room (snd (Build nf a))"
proof (cases "built a")
  case True
  then show ?thesis using assms by (simp add: Build_def inv_App_def)
next
  case False
  let ?a = "a\<lparr>buildOnce := True, trees := (\<lambda>_. empty_Tree), rare := (\<lambda>_. None)\<rparr>"
  obtain r a' where B: "Build nf a = (r, a')" by fastforce
  note ok = Build_ok [OF assms(1) B]
  have "\<not> buildOnce a" using False assms(1) by (simp add: inv_App_def)
  then obtain b where b: "build_loop ?a (routes a) = (None, b)" "treeFor a' = treeFor b"
    using B ok by (auto simp: Build_def build_def fun_eq_iff split: prod.splits option.splits)
  have "fits_Tree (app_maxParams a) (treeFor a' m)" for m
    using fits_build_loop [OF b(1), of "app_maxParams a"] assms(2) b(2) by (simp add: inv_room_def)
  then show ?thesis
    using ok assms(2) B by (simp add: inv_room_def)
qed

lemma inv_room_middleware:
  assumes "inv_room a"
  shows "inv_room (snd (Use a mw))" "inv_room (snd (Group_Use a g mw))" "inv_room (stopStatic a)"
    "inv_room (snd (App_Group a pre mw))" "inv_room (snd (Group_Group a g pre mw))"
  using assms
  by (simp_all add: Use_def Group_Use_def stopStatic_def App_Group_def Group_Group_def split: option.split)

lemma inv_room_routes:
  assumes "inv_room a"
  shows "inv_room (snd (Handle a m path h mw))" "inv_room (snd (App_verb v a path h mw))"
    "inv_room (snd (Group_Handle a g m path h mw))" "inv_room (snd (Group_verb v a g path h mw))"
    "inv_room (snd (App_Static a serve redirect pre fsys mw))"
    "inv_room (snd (Group_Static a serve redirect g pre fsys mw))"
  using assms
  by (simp_all add: Handle_def App_verb_def Group_Handle_def Group_verb_def App_Static_def Group_Static_def
      inv_room_register inv_room_static split: option.split)

lemmas inv_room_calls = inv_room_middleware inv_room_routes

lemma inv_room_reachable: "reachable nf a \<Longrightarrow> inv_room a"
proof (induction rule: reachable.induct)
  case reach_New
  then show ?case by (simp add: inv_room_def)
next
  case (reach_Build a)
  show ?case by (rule inv_room_Build [OF inv_App_reachable [OF reach_Build.hyps] reach_Build.IH])
qed (simp_all add: inv_room_calls)

section \<open>Properties\<close>

text \<open>
  C25: Serving never grows a parameter buffer. In an App reached by any registration calls
  and then built, a buffer made with room for \<open>App.maxParams\<close> captures, or any emptied
  buffer that has this room, keeps its backing array through every lookup: whichever
  branches the lookup tries and abandons, it holds at most that many captures at a time.
\<close>

theorem capture_never_grows:
  assumes "reachable nf a" "built a" "clean ps" "Len ps = 0" "app_maxParams a \<le> Cap ps"
  shows "Cap (snd (lookupEntry a m path ps)) = Cap ps
    \<and> Cap (snd (lookupEntry a m path (MakeParams (app_maxParams a)))) = app_maxParams a"
proof -
  have fits: "fits_Tree (app_maxParams a) (treeFor a m)"
    using inv_room_reachable [OF assms(1)] assms(2) by (simp add: inv_room_def)
  have "Len (MakeParams n) = 0" "Cap (MakeParams n) = n" for n
    by (simp_all add: Len_def Cap_def MakeParams_def)
  then show ?thesis
    using Cap_Lookup [OF assms(3) fits, of path] Cap_Lookup [OF clean_MakeParams fits, of "app_maxParams a" path] assms(4,5)
    by (simp add: lookupEntry_treeFor room_def)
qed

theorem capture_never_grows_witness:
  "let a = snd (Build (0::nat) (snd (Handle (New 0) ''GET'' ''/a/:x/b/:y'' (Some 1) [])))
   in Cap (snd (lookupEntry a ''GET'' ''/a/1/c/2'' (MakeParams 3))) = 3 \<and> app_maxParams a = 2
      \<and> Cap (snd (lookupEntry a ''GET'' ''/a/1/b/2'' (MakeParams 2))) = 2"
proof -
  let ?a = "snd (Build (0::nat) (snd (Handle (New 0) ''GET'' ''/a/:x/b/:y'' (Some 1) [])))"
  have reach: "reachable 0 ?a" by (intro reach_Build reach_Handle reach_New)
  have a: "built ?a" "app_maxParams ?a = 2" by code_simp+
  have "clean (MakeParams n)" "Len (MakeParams n) = 0" "Cap (MakeParams n) = n" for n
    by (rule clean_MakeParams) (simp_all add: Len_def Cap_def MakeParams_def)
  then show ?thesis
    using capture_never_grows [OF reach a(1), of "MakeParams 3" "''GET''" "''/a/1/c/2''"]
      capture_never_grows [OF reach a(1), of "MakeParams 2" "''GET''" "''/a/1/b/2''"] a(2)
    by (simp add: Let_def)
qed

end
