(* ===== verification/Route_Order.thy ===== *)
theory Route_Order
  imports Routes_Build "HOL-Library.Multiset"
begin

text \<open>
  Which sets of routes an App accepts, and that the order of their registration does not
  matter: \<open>docs/02-architecture.md\<close> says so of the single \<open>build\<close>. Two patterns clash when they
  are the same or name a capture at the same place differently. A sequence of registrations
  succeeds exactly when every route is well formed and no two of one method clash, which
  says nothing of their order; and two Apps with the same routes answer alike.
\<close>

section \<open>Registration calls in sequence\<close>

text \<open>Registration calls in sequence; the first panic ends the program.\<close>

fun in_turn :: "'h App \<Rightarrow> ('h App \<Rightarrow> reg_panic option \<times> 'h App) list \<Rightarrow> reg_panic option \<times> 'h App" where
  "in_turn a [] = (None, a)"
| "in_turn a (f # fs) = (case f a of (Some p, a') \<Rightarrow> (Some p, a') | (None, a') \<Rightarrow> in_turn a' fs)"

text \<open>A sequence of registrations that does not panic records every route.\<close>

definition calls_of :: "(string \<times> string \<times> 'h \<times> 'h middleware list) list \<Rightarrow> ('h App \<Rightarrow> reg_panic option \<times> 'h App) list" where
  "calls_of specs = map (\<lambda>(m, path, h, mws) a. Handle a m path (Some h) (map Some mws)) specs"

definition route_of :: "string \<times> string \<times> 'h \<times> 'h middleware list \<Rightarrow> 'h route" where
  "route_of spec = (case spec of (m, path, h, mws) \<Rightarrow>
     \<lparr>r_method = m, r_path = path, r_h = h, r_group = None, r_mws = mws\<rparr>)"

lemma register_None:
  "register a m path (Some h) None (map Some mws) = (None, a') \<Longrightarrow>
     routes a' = routes a @ [route_of (m, path, h, mws)] \<and> app_mws a' = app_mws a"
  by (auto simp: register_def route_of_def comp_def Let_def split: option.splits prod.splits if_splits)

lemma in_turn_routes:
  "in_turn a (calls_of specs) = (None, a') \<Longrightarrow>
     routes a' = routes a @ map route_of specs \<and> app_mws a' = app_mws a"
proof (induction specs arbitrary: a)
  case (Cons spec specs)
  obtain m path h mws where spec: "spec = (m, path, h, mws)" by (cases spec)
  then obtain b where b: "register a m path (Some h) None (map Some mws) = (None, b)" "in_turn b (calls_of specs) = (None, a')"
    using Cons.prems by (auto simp: calls_of_def Handle_def split: prod.splits option.splits)
  then show ?case using Cons.IH [OF b(2)] register_None [OF b(1)] spec by simp
qed (simp add: calls_of_def)

lemma in_turn_reachable: "reachable nf a \<Longrightarrow> reachable nf (snd (in_turn a (calls_of specs)))"
proof (induction specs arbitrary: a)
  case (Cons spec specs)
  obtain m path h mws where spec: "spec = (m, path, h, mws)" by (cases spec)
  have "reachable nf (snd (register a m path (Some h) None (map Some mws)))"
    using reach_Handle [OF Cons.prems, of m path "Some h"] by (simp add: Handle_def)
  then show ?case
    using Cons.IH by (auto simp: calls_of_def Handle_def spec split: prod.splits option.splits)
qed (simp add: calls_of_def)

lemma built_specs:
  assumes b: "in_turn (New nf) (calls_of specs) = (None, b)" and a_def: "a = snd (Build nf b)"
  shows "reachable nf a" "built a" "routes a = map route_of specs" "app_mws a = []" "Build nf b = (None, a)"
proof -
  have r: "reachable nf b" using in_turn_reachable [OF reach_New, of nf specs] b by simp
  show "reachable nf a" unfolding a_def by (rule reach_Build [OF r])
  have "routes b = map route_of specs" "app_mws b = []" using in_turn_routes [OF b] by simp_all
  then show "built a" "routes a = map route_of specs" "app_mws a = []" "Build nf b = (None, a)"
    using Build_ok [OF inv_App_reachable [OF r], of "fst (Build nf b)" a] by (simp_all add: a_def prod_eq_iff)
qed

section \<open>Clashing patterns\<close>

fun clash :: "tok list \<Rightarrow> tok list \<Rightarrow> bool" where
  "clash [] us \<longleftrightarrow> us = []"
| "clash (t # ts) [] \<longleftrightarrow> False"
| "clash (t # ts) (u # us) \<longleftrightarrow>
     (if t = u then clash ts us else tok_kind t = tok_kind u \<and> tok_kind t \<noteq> segStatic)"

lemma clash_Nil [simp]: "clash us [] \<longleftrightarrow> us = []"
  by (cases us) simp_all

lemma clash_sym: "clash ts us \<longleftrightarrow> clash us ts"
  by (induction ts us rule: clash.induct) auto

lemma compatible_empty [simp]: "compatible (\<lambda>q. no_view) ts"
  by (induction "\<lambda>q :: tok list. no_view :: 'h view" ts rule: compatible.induct) simp_all

text \<open>A declared pattern rules out the patterns it clashes with, and no other.\<close>

lemma compatible_declares:
  "compatible V us \<Longrightarrow> compatible (declares V us h) ts \<longleftrightarrow> compatible V ts \<and> \<not> clash us ts"
proof (induction us arbitrary: V ts)
  case Nil
  show ?case by (cases ts rule: tok_list_cases) simp_all
next
  case (Cons u us)
  have step: "compatible (\<lambda>q. V (u # q)) us" using Cons.prems by (cases u) simp_all
  note IH = Cons.IH [OF step]
  show ?case
    using Cons.prems IH by (cases u; cases ts rule: tok_list_cases) auto
qed

section \<open>When a sequence of registrations succeeds\<close>

type_synonym 'h route_spec = "string \<times> string \<times> 'h \<times> 'h middleware list"

definition accepted_route :: "'h route_spec \<Rightarrow> bool" where
  "accepted_route spec = (case spec of (m, path, _, _) \<Rightarrow>
     m \<noteq> [] \<and> \<not> hasLowercaseByte m \<and> (case parsePattern path of Inl _ \<Rightarrow> False | Inr _ \<Rightarrow> True))"

definition conflicting :: "'h route_spec \<Rightarrow> 'h route_spec \<Rightarrow> bool" where
  "conflicting s t = (case (s, t) of ((m, p, _, _), (m', p', _, _)) \<Rightarrow>
     m = m' \<and> (case (parsePattern p, parsePattern p') of
        (Inr ss, Inr ss') \<Rightarrow> clash (toks ss) (toks ss')
      | _ \<Rightarrow> False))"

definition admits :: "'h App \<Rightarrow> 'h route_spec \<Rightarrow> bool" where
  "admits a spec \<longleftrightarrow> accepted_route spec \<and>
     (case spec of (m, path, _, _) \<Rightarrow>
        (case parsePattern path of Inl _ \<Rightarrow> False | Inr ss \<Rightarrow> compatible (table (treeFor a m)) (toks ss)))"

lemma conflicting_sym: "conflicting s t \<longleftrightarrow> conflicting t s"
  by (auto simp: conflicting_def clash_sym split: prod.splits sum.splits)

definition open_App :: "'h App \<Rightarrow> bool" where
  "open_App a \<longleftrightarrow> \<not> built a \<and> (\<forall>m. inv_Tree (treeFor a m))"

lemma checkMiddleware_mws [simp]: "checkMiddleware (map Some mws) = None"
proof -
  have "checkMiddleware_from i (map Some mws) = None" for i by (induction mws arbitrary: i) simp_all
  then show ?thesis by (simp add: checkMiddleware_def)
qed

lemma Handle_step:
  assumes "open_App a"
  shows "case Handle a m path (Some h) (map Some mws) of
      (Some _, _) \<Rightarrow> \<not> admits a (m, path, h, mws)
    | (None, a') \<Rightarrow> admits a (m, path, h, mws) \<and> open_App a'
        \<and> (\<forall>t. admits a' t \<longleftrightarrow> admits a t \<and> \<not> conflicting (m, path, h, mws) t)"
proof (cases "m = [] \<or> hasLowercaseByte m")
  case True
  then show ?thesis using assms by (auto simp: Handle_def register_def open_App_def admits_def accepted_route_def)
next
  case False
  have inv: "inv_Tree (treeFor a m)" using assms by (simp add: open_App_def)
  obtain r t where ins: "Insert (treeFor a m) path \<lparr>re_h = h, re_pattern = path\<rparr> = (r, t)" by fastforce
  from inv ins show ?thesis
  proof (cases rule: Insert_cases)
    case (Inserted ss)
    define a' where "a' = snd (Handle a m path (Some h) (map Some mws))"
    have a': "Handle a m path (Some h) (map Some mws) = (None, a')" "built a' = built a"
        "\<And>m'. treeFor a' m' = (if m' = m then t else treeFor a m')"
      using False assms ins Inserted(2) by (simp_all add: a'_def Handle_def register_def open_App_def Let_def)
    have "open_App a'" using a'(2,3) assms inv_Tree_Insert [OF inv ins] by (simp add: open_App_def)
    moreover have "admits a' u \<longleftrightarrow> admits a u \<and> \<not> conflicting (m, path, h, mws) u" for u
      using compatible_declares [OF Inserted(3)] Inserted(1,4)
      by (auto simp: admits_def conflicting_def a'(3) split: prod.splits sum.splits)
    moreover have "admits a (m, path, h, mws)"
      using False Inserted(1,3) by (simp add: admits_def accepted_route_def)
    ultimately show ?thesis using a'(1) by simp
  qed (use False assms ins in \<open>auto simp: Handle_def register_def open_App_def admits_def\<close>)
qed

lemma in_turn_iff:
  "open_App a \<Longrightarrow> fst (in_turn a (calls_of specs)) = None \<longleftrightarrow>
     (\<forall>s\<in>set specs. admits a s) \<and> sorted_wrt (\<lambda>s t. \<not> conflicting s t) specs"
proof (induction specs arbitrary: a)
  case (Cons s specs)
  obtain m path h mws where s: "s = (m, path, h, mws)" by (cases s)
  obtain r a' where H: "Handle a m path (Some h) (map Some mws) = (r, a')" by fastforce
  show ?case
  proof (cases r)
    case None
    then show ?thesis using Handle_step [OF Cons.prems, of m path h mws] Cons.IH [of a'] H s
      by (auto simp: calls_of_def)
  next
    case (Some p)
    then show ?thesis using Handle_step [OF Cons.prems, of m path h mws] H s by (simp add: calls_of_def)
  qed
qed (simp add: calls_of_def)

lemma New_open [simp]: "open_App (New nf)" "treeFor (New nf) m = empty_Tree"
  by (simp_all add: open_App_def New_def treeFor_def split: option.split)

lemma registers_iff:
  "fst (in_turn (New nf) (calls_of specs)) = None \<longleftrightarrow>
     (\<forall>s\<in>set specs. accepted_route s) \<and> sorted_wrt (\<lambda>s t. \<not> conflicting s t) specs"
proof -
  have "admits (New nf) s = accepted_route s" for s :: "'a route_spec"
    by (auto simp: admits_def accepted_route_def table_def empty_Tree_def split: prod.split sum.split)
  then show ?thesis by (simp add: in_turn_iff)
qed

lemma sorted_wrt_sym_mset:
  assumes "\<And>x y. P x y = P y x" "mset xs = mset ys" "sorted_wrt P xs"
  shows "sorted_wrt P ys"
  using assms(2,3)
proof (induction xs arbitrary: ys)
  case (Cons x xs)
  then have "x \<in> set ys" by (metis list.set_intros(1) mset_eq_setD)
  then obtain us vs where ys: "ys = us @ x # vs" by (metis split_list)
  then have m: "mset xs = mset (us @ vs)" using Cons.prems(1) by simp
  then have "sorted_wrt P (us @ vs)" "\<forall>y\<in>set (us @ vs). P x y"
    using Cons.IH [OF m] Cons.prems(2) mset_eq_setD [OF m] by simp_all
  then show ?case using assms(1) by (auto simp: ys sorted_wrt_append)
qed simp

section \<open>Two Apps with the same routes\<close>

lemma prior_antisym: "prior ts us \<Longrightarrow> prior us ts \<Longrightarrow> ts = us"
  by (induction ts us rule: prior.induct) (auto split: if_splits)

lemma best_unique:
  assumes "best R path ts h cs" "best R path us h' cs'"
  shows "h = h' \<and> cs = cs'"
proof -
  have "ts = us" by (rule prior_antisym) (use assms in \<open>auto simp: best_def\<close>)
  then show ?thesis using assms by (simp add: best_def)
qed

lemma answers_unique:
  assumes "answers R path f" "answers R path g"
  shows "f = g"
proof -
  have none: False if "answers R path None" "answers R path (Some x)" for x
    using that by (cases x) (auto simp: answers_def best_def, metis option.distinct(1))
  have some: "x = y" if "answers R path (Some x)" "answers R path (Some y)" for x y
    using that best_unique [of R path] by (cases x; cases y) (simp add: answers_def, blast)
  show ?thesis using assms none some by (cases f; cases g) (simp, blast+)
qed

lemma Lookup_determined:
  assumes "inv_Tree T" "inv_Tree T'" "clean ps" "\<And>p. registered T p = registered T' p"
  shows "fst (Lookup T path ps) = fst (Lookup T' path ps)"
    "entries (snd (Lookup T path ps)) = entries (snd (Lookup T' path ps))"
proof -
  have "hnd (table T ts) = hnd (table T' ts)" for ts
    using registered_iff_table [OF assms(1), of ts] registered_iff_table [OF assms(2), of ts] assms(4)
    by (metis not_Some_eq)
  then have same: "(\<lambda>ts. hnd (table T ts)) = (\<lambda>ts. hnd (table T' ts))" by (rule ext)
  obtain f where f: "answers (\<lambda>ts. hnd (table T ts)) path f" "agrees ps (Lookup T path ps) f"
    by (rule Lookup_answers [OF assms(1,3)])
  obtain g where g: "answers (\<lambda>ts. hnd (table T' ts)) path g" "agrees ps (Lookup T' path ps) g"
    by (rule Lookup_answers [OF assms(2,3)])
  have "f = g" using answers_unique f(1) g(1) same by metis
  then show "fst (Lookup T path ps) = fst (Lookup T' path ps)"
    "entries (snd (Lookup T path ps)) = entries (snd (Lookup T' path ps))"
    using f(2) g(2) by (auto simp: agrees_def split: option.splits)
qed

lemma compiled_spec:
  "app_mws a = [] \<Longrightarrow> compiled_entry a (route_of (m, p, h, mws)) = \<lparr>re_h = Compile h mws, re_pattern = p\<rparr>"
  by (simp add: compiled_entry_def route_of_def middlewareFor_def groupChain_def)

lemma same_routes_registered:
  assumes "reachable nf a" "built a" "routes a = map route_of specs" "app_mws a = []"
    and "reachable nf a'" "built a'" "routes a' = map route_of specs'" "app_mws a' = []"
    and "set specs = set specs'"
  shows "registered (treeFor a m) p = registered (treeFor a' m) p"
proof -
  have "compiled_entry a r = compiled_entry a' r" if "r \<in> set (routes a)" for r
    using that assms(3,4,8) compiled_spec by (auto simp: compiled_spec)
  moreover have "set (routes a) = set (routes a')" using assms(3,7,9) by simp
  ultimately have "registered (treeFor a m) p = Some e \<longleftrightarrow> registered (treeFor a' m) p = Some e" for e
    using built_routes(2) [OF assms(1,2), of m p e] built_routes(2) [OF assms(5,6), of m p e] by auto
  then show ?thesis by (metis not_Some_eq)
qed

section \<open>Properties\<close>

text \<open>
  C24: Which sets of routes register, and that their order does not matter. Registering
  routes one after another on a new App panics nowhere exactly when every method and
  pattern is accepted and no two routes of one method are the same pattern or name a
  capture at the same place differently. If one order succeeds then so does every other,
  and the two Apps, once built, answer every request with the same handler, the same
  pattern and the same captures.
\<close>

theorem registration_order_irrelevant:
  assumes "mset specs' = mset specs" "clean ps"
  shows "(fst (in_turn (New nf) (calls_of specs)) = None \<longleftrightarrow>
        (\<forall>s\<in>set specs. accepted_route s) \<and> sorted_wrt (\<lambda>s t. \<not> conflicting s t) specs)
    \<and> (fst (in_turn (New nf) (calls_of specs')) = None \<longleftrightarrow> fst (in_turn (New nf) (calls_of specs)) = None)
    \<and> (fst (in_turn (New nf) (calls_of specs)) = None \<longrightarrow>
        (let a = snd (Build nf (snd (in_turn (New nf) (calls_of specs))));
             a' = snd (Build nf (snd (in_turn (New nf) (calls_of specs'))))
         in built a \<and> built a'
            \<and> (\<forall>m path. fst (lookupEntry a' m path ps) = fst (lookupEntry a m path ps)
                 \<and> entries (snd (lookupEntry a' m path ps)) = entries (snd (lookupEntry a m path ps)))))"
proof (intro conjI impI)
  show reg: "fst (in_turn (New nf) (calls_of specs)) = None \<longleftrightarrow>
      (\<forall>s\<in>set specs. accepted_route s) \<and> sorted_wrt (\<lambda>s t. \<not> conflicting s t) specs"
    by (rule registers_iff)
  have sym: "(\<not> conflicting s t) = (\<not> conflicting t s)" for s t :: "'a route_spec"
    by (simp only: conflicting_sym [of s t])
  show reg': "fst (in_turn (New nf) (calls_of specs')) = None \<longleftrightarrow> fst (in_turn (New nf) (calls_of specs)) = None"
    using sorted_wrt_sym_mset [OF sym assms(1)] sorted_wrt_sym_mset [OF sym assms(1) [symmetric]]
      mset_eq_setD [OF assms(1)] by (auto simp only: registers_iff)
  assume ok: "fst (in_turn (New nf) (calls_of specs)) = None"
  obtain b b' where b: "in_turn (New nf) (calls_of specs) = (None, b)" "in_turn (New nf) (calls_of specs') = (None, b')"
    using ok reg' by (metis prod.collapse)
  note A = built_specs(1-4) [OF b(1) refl] and A' = built_specs(1-4) [OF b(2) refl]
  note same = Lookup_determined [OF built_routes(1) [OF A'(1,2)] built_routes(1) [OF A(1,2)] assms(2)
      same_routes_registered [OF A' A mset_eq_setD [OF assms(1)]]]
  show "let a = snd (Build nf (snd (in_turn (New nf) (calls_of specs))));
          a' = snd (Build nf (snd (in_turn (New nf) (calls_of specs'))))
      in built a \<and> built a'
        \<and> (\<forall>m path. fst (lookupEntry a' m path ps) = fst (lookupEntry a m path ps)
            \<and> entries (snd (lookupEntry a' m path ps)) = entries (snd (lookupEntry a m path ps)))"
    using A(2) A'(2) same by (simp add: b Let_def lookupEntry_treeFor)
qed

theorem registration_order_irrelevant_witness:
  "let specs = [(''GET'', ''/u/:id'', 1::nat, []), (''GET'', ''/u/new'', 2, [])];
       a = snd (Build 0 (snd (in_turn (New 0) (calls_of specs))));
       a' = snd (Build 0 (snd (in_turn (New 0) (calls_of (rev specs)))))
   in fst (lookupEntry a' ''GET'' ''/u/new'' (MakeParams 1)) = fst (lookupEntry a ''GET'' ''/u/new'' (MakeParams 1))"
proof -
  let ?specs = "[(''GET'', ''/u/:id'', 1::nat, []), (''GET'', ''/u/new'', 2, [])]"
  have "fst (in_turn (New 0) (calls_of ?specs)) = None" by code_simp
  then show ?thesis
    using registration_order_irrelevant [of "rev ?specs" ?specs "MakeParams 1" 0] by (simp add: clean_MakeParams Let_def)
qed

end
