(* ===== verification/Stream_Run.thy ===== *)
theory Stream_Run
  imports Sse
begin

text \<open>
  The goroutines of one stream: the body writer that \<open>App.startStream\<close> hands to fasthttp,
  the heartbeat beside it, and whoever else the callback gave the Stream to. Each action is
  one critical section, channel operation or end of the callback; a run is any sequence of
  enabled actions.
\<close>

section \<open>The machine\<close>

datatype hb_state = HB_None | HB_Running | HB_Closed

datatype body_pc = W_Callback | W_Cancel | W_Await | W_Retire | W_Ret

datatype stream_log = StreamPanicked pvalue | StreamFailed go_error

record 'b stream_sys =
  stm :: "'b Stream"
  hbDone :: hb_state
  bpc :: body_pc
  slog :: "stream_log list"

definition open_stream :: "bool \<Rightarrow> int \<Rightarrow> 'b \<Rightarrow> 'b stream_sys" where
  "open_stream parentCancelled heartbeat w =
     \<lparr>stm = \<lparr>s_w = w, s_cancelled = parentCancelled, s_done = False\<rparr>,
      hbDone = (if heartbeat > 0 then HB_Running else HB_None), bpc = W_Callback, slog = []\<rparr>"

text \<open>
  A use of the Stream may come from any goroutine, at any time. \<open>HbTick\<close> and \<open>HbStop\<close> are the
  two cases of the heartbeat's select, \<open>Parent\<close> the end of the context above the stream's,
  \<open>FnEnds\<close> the return or panic of the callback, and \<open>Deferred\<close> the next step of the function
  deferred first, which runs last.
\<close>

datatype stream_act =
    UseWrite bytes
  | UseWriteString string
  | UseFlush
  | UseSend Event
  | Parent
  | HbTick
  | HbStop
  | FnEnds "go_error option res"
  | Deferred

definition callback_log :: "go_error option res \<Rightarrow> bool \<Rightarrow> stream_log list" where
  "callback_log r cancelled =
     (case r of
        Panic v \<Rightarrow> [StreamPanicked v]
      | Ret (Some err) \<Rightarrow> if cancelled then [] else [StreamFailed err]
      | Ret None \<Rightarrow> [])"

fun stream_step :: "'b bufio \<Rightarrow> stream_act \<Rightarrow> 'b stream_sys \<Rightarrow> 'b stream_sys option" where
  "stream_step B (UseWrite p) g = Some (g\<lparr>stm := snd (Stream_Write B p (stm g))\<rparr>)"
| "stream_step B (UseWriteString v) g = Some (g\<lparr>stm := snd (Stream_WriteString B v (stm g))\<rparr>)"
| "stream_step B UseFlush g = Some (g\<lparr>stm := snd (Stream_Flush B (stm g))\<rparr>)"
| "stream_step B (UseSend ev) g = Some (g\<lparr>stm := snd (Send B ev (stm g))\<rparr>)"
| "stream_step B Parent g = Some (g\<lparr>stm := (stm g)\<lparr>s_cancelled := True\<rparr>\<rparr>)"
| "stream_step B HbTick g =
     (if hbDone g = HB_Running then
        let (on, s) = heartbeat_tick B (stm g)
        in Some (g\<lparr>stm := s, hbDone := (if on then HB_Running else HB_Closed)\<rparr>)
      else None)"
| "stream_step B HbStop g =
     (if hbDone g = HB_Running \<and> s_cancelled (stm g) then Some (g\<lparr>hbDone := HB_Closed\<rparr>) else None)"
| "stream_step B (FnEnds r) g =
     (if bpc g = W_Callback
      then Some (g\<lparr>bpc := W_Cancel, slog := slog g @ callback_log r (s_cancelled (stm g))\<rparr>) else None)"
| "stream_step B Deferred g =
     (case bpc g of
        W_Cancel \<Rightarrow> Some (g\<lparr>stm := (stm g)\<lparr>s_cancelled := True\<rparr>, bpc := W_Await\<rparr>)
      | W_Await \<Rightarrow> if hbDone g = HB_Running then None else Some (g\<lparr>bpc := W_Retire\<rparr>)
      | W_Retire \<Rightarrow> Some (g\<lparr>stm := retire B (stm g), bpc := W_Ret\<rparr>)
      | _ \<Rightarrow> None)"

fun stream_run :: "'b bufio \<Rightarrow> stream_act list \<Rightarrow> 'b stream_sys \<Rightarrow> 'b stream_sys option" where
  "stream_run B [] g = Some g"
| "stream_run B (a # as) g = (case stream_step B a g of None \<Rightarrow> None | Some g' \<Rightarrow> stream_run B as g')"

section \<open>Invariant\<close>

definition inv_stream :: "'b stream_sys \<Rightarrow> bool" where
  "inv_stream g \<longleftrightarrow>
     (s_done (stm g) \<longleftrightarrow> bpc g = W_Ret)
     \<and> (bpc g \<in> {W_Await, W_Retire, W_Ret} \<longrightarrow> s_cancelled (stm g))
     \<and> (bpc g \<in> {W_Retire, W_Ret} \<longrightarrow> hbDone g \<noteq> HB_Running)
     \<and> (if bpc g = W_Callback then slog g = [] else length (slog g) \<le> 1)"

lemma inv_open_stream: "inv_stream (open_stream pc hb w)"
  by (simp add: inv_stream_def open_stream_def)

lemmas stream_uses = Stream_Write_def Stream_WriteString_def Stream_Flush_def Send_def fail_def

text \<open>A use of the Stream neither retires it nor takes a cancellation back.\<close>

lemma use_keeps:
  "s_done (snd (Stream_Write B p s)) = s_done s" "s_done (snd (Stream_WriteString B p s)) = s_done s"
  "s_done (snd (Stream_Flush B s)) = s_done s" "s_done (snd (Send B ev s)) = s_done s"
  "s_cancelled s \<Longrightarrow> s_cancelled (snd (Stream_Write B p s))"
  "s_cancelled s \<Longrightarrow> s_cancelled (snd (Stream_WriteString B p s))"
  "s_cancelled s \<Longrightarrow> s_cancelled (snd (Stream_Flush B s))"
  "s_cancelled s \<Longrightarrow> s_cancelled (snd (Send B ev s))"
  by (simp_all add: stream_uses Let_def split: prod.split)

lemma tick_keeps:
  "heartbeat_tick B s = (on, s') \<Longrightarrow> s_done s' = s_done s \<and> (s_cancelled s \<longrightarrow> s_cancelled s')"
  by (auto simp: heartbeat_tick_def Let_def split: prod.splits if_splits)

lemma callback_log_short: "length (callback_log r b) \<le> 1"
  by (simp add: callback_log_def split: res.split option.split)

lemma inv_stream_use:
  "inv_stream g \<Longrightarrow> s_done s = s_done (stm g) \<Longrightarrow> (s_cancelled (stm g) \<Longrightarrow> s_cancelled s) \<Longrightarrow> inv_stream (g\<lparr>stm := s\<rparr>)"
  by (auto simp: inv_stream_def split: if_splits)

lemma inv_stream_step:
  assumes inv: "inv_stream g" and step: "stream_step B a g = Some g'"
  shows "inv_stream g'"
proof (cases a)
  case HbTick
  then show ?thesis
    using inv step tick_keeps [of B "stm g"] by (auto simp: inv_stream_def split: if_splits prod.splits)
next
  case HbStop
  then show ?thesis using inv step by (auto simp: inv_stream_def split: if_splits)
next
  case (FnEnds r)
  then show ?thesis
    using inv step callback_log_short by (auto simp: inv_stream_def split: if_splits)
next
  case Deferred
  then show ?thesis
    using inv step by (auto simp: inv_stream_def retire_def split: body_pc.splits if_splits)
qed (use inv step in \<open>auto intro!: inv_stream_use simp: use_keeps\<close>)

lemma inv_stream_run: "stream_run B as g = Some g' \<Longrightarrow> inv_stream g \<Longrightarrow> inv_stream g'"
  by (induction as arbitrary: g) (auto split: option.splits dest: inv_stream_step)

text \<open>After the body writer has returned, nothing reaches the writer or the log.\<close>

lemma closed_step:
  assumes "inv_stream g" "bpc g = W_Ret" "stream_step B a g = Some g'"
  shows "stm g' = stm g \<and> bpc g' = W_Ret \<and> slog g' = slog g"
  using assms by (cases a) (auto simp: inv_stream_def stream_uses split: if_splits)

lemma closed_run:
  "stream_run B as g = Some g' \<Longrightarrow> inv_stream g \<Longrightarrow> bpc g = W_Ret \<Longrightarrow>
     stm g' = stm g \<and> bpc g' = W_Ret \<and> slog g' = slog g"
proof (induction as arbitrary: g)
  case (Cons a as)
  then obtain h where h: "stream_step B a g = Some h" "stream_run B as h = Some g'"
    by (auto split: option.splits)
  show ?case
    using Cons.IH [OF h(2) inv_stream_step [OF Cons.prems(2) h(1)]] closed_step [OF Cons.prems(2,3) h(1)] by simp
qed simp

text \<open>The steps that end a stream once its callback has ended: the heartbeat never holds it up.\<close>

definition closing :: "'b stream_sys \<Rightarrow> stream_act list" where
  "closing g =
     (case bpc g of W_Callback \<Rightarrow> [] | W_Ret \<Rightarrow> [] | W_Retire \<Rightarrow> [Deferred]
      | W_Await \<Rightarrow> (if hbDone g = HB_Running then [HbStop] else []) @ [Deferred, Deferred]
      | W_Cancel \<Rightarrow> [Deferred] @ (if hbDone g = HB_Running then [HbStop] else []) @ [Deferred, Deferred])"

lemma closing_ends:
  assumes "inv_stream g" "bpc g \<noteq> W_Callback"
  shows "\<exists>g'. stream_run B (closing g) g = Some g' \<and> bpc g' = W_Ret \<and> slog g' = slog g"
  using assms by (cases "bpc g") (auto simp: closing_def inv_stream_def)

section \<open>Properties\<close>


definition failing_stream :: "stream_act list" where
  "failing_stream = [UseWrite ''hi'', HbTick, FnEnds (Panic (PVal ''boom'')), UseFlush, Deferred, HbTick, HbStop, Deferred, Deferred]"


end
