(* ===== verification/Run_Ends.thy ===== *)
theory Run_Ends
  imports Shutdown_Ends
begin

text \<open>
  That \<open>RunContext\<close> returns: whatever it waits for is a call that exists and can go on, and
  every step of such a call brings it nearer to its end, whatever the other calls do.
\<close>

section \<open>What a RunContext waits for exists\<close>

fun waits_serve :: "run_pc \<Rightarrow> nat option" where
  "waits_serve (R_Select t) = Some t"
| "waits_serve (R_Within t joined) = (if joined then Some t else None)"
| "waits_serve (R_Shut t u joined) = (if joined then Some t else None)"
| "waits_serve (R_Join e t) = Some t"
| "waits_serve _ = None"

fun waits_shut :: "run_pc \<Rightarrow> nat option" where
  "waits_shut (R_Shut t u joined) = Some u"
| "waits_shut _ = None"

definition inv_runs :: "sys \<Rightarrow> bool" where
  "inv_runs y \<longleftrightarrow>
     (\<forall>r pc. runs y r = Some pc \<longrightarrow>
        (\<forall>t. waits_serve pc = Some t \<longrightarrow> serves y t \<noteq> None) \<and> (\<forall>u. waits_shut pc = Some u \<longrightarrow> shuts y u \<noteq> None))
     \<and> finite (dom (shuts y)) \<and> (hooksStarted (life y) \<longleftrightarrow> shutdownOnce (life y))"

lemma RunContext_step_waits:
  assumes "RunContext_step p sv sh pc s = Some pc'"
  shows "waits_serve pc' = Some t \<Longrightarrow> waits_serve pc = Some t" "waits_shut pc' = None"
  using assms by (cases "(p, sv, sh, pc, s)" rule: RunContext_step.cases; auto split: if_splits option.splits serve_pc.splits shut_pc.splits)+

lemma hooksStarted_step:
  "Serve_step cf p l pc s = (pc', s') \<Longrightarrow> hooksStarted s' = hooksStarted s"
  "Shutdown_step cf p t ln qc s = Some (qc', ln', s') \<Longrightarrow> hooksStarted s = shutdownOnce s \<Longrightarrow> hooksStarted s' = shutdownOnce s'"
  by (cases pc; auto split: if_splits option.splits) (cases qc; auto split: if_splits option.splits nat.splits simp: Let_def)

lemma inv_runs_reach: "lreach cf y \<Longrightarrow> inv_runs y"
proof (induction rule: lreach.induct)
  case l_init
  then show ?case by (simp add: inv_runs_def start_sys_def start_life_def)
next
  case (l_serve_step y t l pc p pc' s')
  then show ?case
    using hooksStarted_step(1) [OF l_serve_step.hyps(3)] Serve_step_frame(4) [OF l_serve_step.hyps(3)] by (auto simp: inv_runs_def)
next
  case (l_shutdown_step y t ln pc p pc' ln' s')
  then show ?case using hooksStarted_step(2) [OF l_shutdown_step.hyps(3)] by (auto simp: inv_runs_def)
next
  case (l_run_step y r pc p pc')
  then show ?case using RunContext_step_waits [OF l_run_step.hyps(3)] by (auto simp: inv_runs_def)
qed (auto simp: inv_runs_def split: if_splits)

section \<open>How far a RunContext is from its end\<close>

fun serve_left :: "nat \<Rightarrow> serve_pc \<Rightarrow> nat" where
  "serve_left n S_Lock = n + 6"
| "serve_left n (S_Hook i) = (n - i) + 5"
| "serve_left n S_Publish = 4"
| "serve_left n S_Serving = 3"
| "serve_left n (S_Defer _) = 2"
| "serve_left n (S_Unserve _) = 1"
| "serve_left n (S_Ret _) = 0"

lemma Serve_step_decreases:
  assumes "Serve_step cf p l pc s = (pc', s')"
  shows "serve_left (nOnStart cf) pc' \<le> serve_left (nOnStart cf) pc"
    "(\<forall>r. pc \<noteq> S_Ret r) \<Longrightarrow> serve_left (nOnStart cf) pc' < serve_left (nOnStart cf) pc"
  using assms by (cases pc; auto split: if_splits option.splits)+

text \<open>The hooks that are still to run, one more for their end and one for their start.\<close>

definition hooks_left :: "lconf \<Rightarrow> life \<Rightarrow> nat" where
  "hooks_left cf s =
     (if shutdownDone s then 0
      else (nOnShutdown cf - length (hookLog s)) + (if shutdownOnce s then 1 else 2))"

lemma hooks_left_Serve: "Serve_step cf p l pc s = (pc', s') \<Longrightarrow> hooks_left cf s' = hooks_left cf s"
  using Serve_step_frame(4-6) by (simp add: hooks_left_def)

lemma hooks_left_Shutdown:
  assumes inv: "inv_hooks (nOnShutdown cf) y" and t: "shuts y t = Some (ln, pc)"
    and step: "Shutdown_step cf p t ln pc (life y) = Some (pc', ln', s')"
  shows "hooks_left cf s' \<le> hooks_left cf (life y)" "at_hook pc \<noteq> None \<Longrightarrow> hooks_left cf s' < hooks_left cf (life y)"
proof -
  have at: "i \<le> nOnShutdown cf \<and> hookLog (life y) = rev [i..<nOnShutdown cf] \<and> \<not> shutdownDone (life y) \<and> shutdownOnce (life y)"
    if "at_hook pc = Some i" for i
  proof -
    have "hook_of y t = Some i" using that t by (simp add: hook_of_def)
    then show ?thesis using inv unfolding inv_hooks_def by (metis option.distinct(1))
  qed
  from step have "hooks_left cf s' \<le> hooks_left cf (life y) \<and> (at_hook pc \<noteq> None \<longrightarrow> hooks_left cf s' < hooks_left cf (life y))"
    by (cases rule: Shutdown_step_hooks) (auto simp: hooks_left_def dest!: at)
  then show "hooks_left cf s' \<le> hooks_left cf (life y)" "at_hook pc \<noteq> None \<Longrightarrow> hooks_left cf s' < hooks_left cf (life y)"
    by simp_all
qed

fun run_rank :: "nat \<Rightarrow> nat \<Rightarrow> run_pc \<Rightarrow> nat" where
  "run_rank m n R_Listen = 7 + (m + 6) + (n + 13)"
| "run_rank m n (R_Select _) = 6 + (n + 13)"
| "run_rank m n (R_Nil _) = 5 + (n + 13)"
| "run_rank m n (R_Within _ _) = 4 + (n + 13)"
| "run_rank m n (R_Shut _ _ _) = 3"
| "run_rank m n (R_Join _ _) = 2"
| "run_rank m n (R_Await _) = 1"
| "run_rank m n (R_Ret _) = 0"

definition serve_wait :: "lconf \<Rightarrow> (nat \<Rightarrow> (nat \<times> serve_pc) option) \<Rightarrow> run_pc \<Rightarrow> nat" where
  "serve_wait cf sv pc =
     (case waits_serve pc of
        None \<Rightarrow> 0
      | Some t \<Rightarrow> (case sv t of None \<Rightarrow> 0 | Some (_, q) \<Rightarrow> serve_left (nOnStart cf) q))"

definition shut_wait :: "lconf \<Rightarrow> (nat \<Rightarrow> (nat option \<times> shut_pc) option) \<Rightarrow> run_pc \<Rightarrow> nat" where
  "shut_wait cf sh pc =
     (case waits_shut pc of
        None \<Rightarrow> 0
      | Some u \<Rightarrow> (case sh u of None \<Rightarrow> 0 | Some (_, q) \<Rightarrow> steps_left (nOnShutdown cf) q))"

fun run_returned :: "run_pc \<Rightarrow> bool" where
  "run_returned (R_Ret _) = True"
| "run_returned _ = False"

definition to_go :: "lconf \<Rightarrow> sys \<Rightarrow> run_pc \<Rightarrow> nat" where
  "to_go cf y pc =
     run_rank (nOnStart cf) (nOnShutdown cf) pc + serve_wait cf (serves y) pc + shut_wait cf (shuts y) pc
       + (if run_returned pc then 0 else hooks_left cf (life y))"

text \<open>A step of the call itself, or of one it waits for.\<close>

definition brings_on :: "sys \<Rightarrow> nat \<Rightarrow> act \<Rightarrow> bool" where
  "brings_on y r a =
     (case runs y r of
        None \<Rightarrow> False
      | Some pc \<Rightarrow>
          (case a of
             A_StepRun r' p \<Rightarrow> r' = r
           | A_RunServe r' t l \<Rightarrow> r' = r
           | A_RunFail r' err \<Rightarrow> r' = r
           | A_RunShutdown r' u \<Rightarrow> r' = r
           | A_StepShut u p \<Rightarrow> waits_shut pc = Some u \<or> (case pc of R_Await e \<Rightarrow> hook_of y u \<noteq> None | _ \<Rightarrow> False)
           | A_StepServe t p \<Rightarrow>
               (case pc of R_Join e t' \<Rightarrow> t' = t \<and> (case serves y t of Some (_, S_Ret _) \<Rightarrow> False | _ \<Rightarrow> True) | _ \<Rightarrow> False)
           | _ \<Rightarrow> False))"

lemma RunContext_step_to_go:
  assumes "RunContext_step p (serves y) (shuts y) pc (life y) = Some pc'"
  shows "to_go cf (y\<lparr>runs := z\<rparr>) pc' < to_go cf y pc"
  using assms
  by (cases "(p, serves y, shuts y, pc, life y)" rule: RunContext_step.cases)
    (auto simp: to_go_def serve_wait_def shut_wait_def split: if_splits option.splits serve_pc.splits shut_pc.splits)

text \<open>The steps of the other calls bring it no further from its end.\<close>

lemma to_go_serve_step:
  assumes t: "serves y t = Some (l, q)" and step: "Serve_step cf p l q (life y) = (q', s')"
  shows "to_go cf (y\<lparr>life := s', serves := (serves y)(t \<mapsto> (l, q'))\<rparr>) pc \<le> to_go cf y pc"
    "waits_serve pc = Some t \<Longrightarrow> (\<forall>r. q \<noteq> S_Ret r) \<Longrightarrow>
       to_go cf (y\<lparr>life := s', serves := (serves y)(t \<mapsto> (l, q'))\<rparr>) pc < to_go cf y pc"
  using t Serve_step_decreases [OF step] hooks_left_Serve [OF step]
  by (auto simp: to_go_def serve_wait_def shut_wait_def split: option.split run_pc.split)

lemma to_go_shutdown_step:
  assumes inv: "inv_hooks (nOnShutdown cf) y" and u: "shuts y u = Some (ln, q)"
    and step: "Shutdown_step cf p u ln q (life y) = Some (q', ln', s')"
  shows "to_go cf (y\<lparr>life := s', shuts := (shuts y)(u \<mapsto> (ln', q'))\<rparr>) pc \<le> to_go cf y pc"
    "waits_shut pc = Some u \<or> (\<exists>e. pc = R_Await e) \<and> at_hook q \<noteq> None \<Longrightarrow>
       to_go cf (y\<lparr>life := s', shuts := (shuts y)(u \<mapsto> (ln', q'))\<rparr>) pc < to_go cf y pc"
  using u Shutdown_step_decreases [OF step] hooks_left_Shutdown [OF inv u step]
  by (auto simp: to_go_def serve_wait_def shut_wait_def split: option.split run_pc.split)

lemma to_go_spawn:
  assumes "inv_runs y" "runs y r = Some pc"
  shows "serves y t = None \<Longrightarrow> to_go cf (y\<lparr>serves := (serves y)(t \<mapsto> z)\<rparr>) pc = to_go cf y pc"
    "shuts y u = None \<Longrightarrow> to_go cf (y\<lparr>shuts := (shuts y)(u \<mapsto> w)\<rparr>) pc = to_go cf y pc"
proof -
  have w: "serves y t = None \<Longrightarrow> waits_serve pc \<noteq> Some t" "shuts y u = None \<Longrightarrow> waits_shut pc \<noteq> Some u"
    using assms unfolding inv_runs_def by blast+
  show "serves y t = None \<Longrightarrow> to_go cf (y\<lparr>serves := (serves y)(t \<mapsto> z)\<rparr>) pc = to_go cf y pc"
    using w(1) by (cases "waits_serve pc") (auto simp: to_go_def serve_wait_def shut_wait_def)
  show "shuts y u = None \<Longrightarrow> to_go cf (y\<lparr>shuts := (shuts y)(u \<mapsto> w)\<rparr>) pc = to_go cf y pc"
    using w(2) by (cases "waits_shut pc") (auto simp: to_go_def serve_wait_def shut_wait_def)
qed

lemma to_go_cong: "life y = life z \<Longrightarrow> serves y = serves z \<Longrightarrow> shuts y = shuts z \<Longrightarrow> to_go cf y pc = to_go cf z pc"
  by (simp add: to_go_def serve_wait_def shut_wait_def)

lemma to_go_runs [simp]: "to_go cf (y\<lparr>runs := z\<rparr>) pc = to_go cf y pc"
  by (cases pc) (simp_all add: to_go_def serve_wait_def shut_wait_def)

lemma exec1_to_go:
  assumes y: "lreach cf y" "runs y r = Some pc" and ex: "exec1 cf a y = Some y'"
  obtains pc' where "runs y' r = Some pc'" "to_go cf y' pc' \<le> to_go cf y pc" "brings_on y r a \<Longrightarrow> to_go cf y' pc' < to_go cf y pc"
proof (cases a)
  case (A_StepServe t p)
  then obtain l q q' s' where q: "serves y t = Some (l, q)" "Serve_step cf p l q (life y) = (q', s')"
      "y' = y\<lparr>life := s', serves := (serves y)(t \<mapsto> (l, q'))\<rparr>"
    using ex by (auto split: option.splits prod.splits)
  have "waits_serve pc = Some t \<and> (\<forall>r. q \<noteq> S_Ret r)" if "brings_on y r a"
    using that y(2) q(1) A_StepServe by (auto simp: brings_on_def split: run_pc.splits)
  then show ?thesis
    using that [of pc] y(2) q(3) to_go_serve_step [OF q(1,2), of pc] by auto
next
  case (A_StepShut u p)
  then obtain ln q q' ln' s' where q: "shuts y u = Some (ln, q)" "Shutdown_step cf p u ln q (life y) = Some (q', ln', s')"
      "y' = y\<lparr>life := s', shuts := (shuts y)(u \<mapsto> (ln', q'))\<rparr>"
    using ex by (auto split: option.splits prod.splits)
  have "waits_shut pc = Some u \<or> (\<exists>e. pc = R_Await e) \<and> at_hook q \<noteq> None" if "brings_on y r a"
    using that y(2) q(1) A_StepShut by (auto simp: brings_on_def hook_of_def split: run_pc.splits)
  then show ?thesis
    using that [of pc] y(2) q(3) to_go_shutdown_step [OF inv_hooks_reach [OF y(1)] q(1,2), of pc] by auto
next
  case (A_StepRun r' p)
  then obtain q q' where q: "runs y r' = Some q" "RunContext_step p (serves y) (shuts y) q (life y) = Some q'"
      "y' = y\<lparr>runs := (runs y)(r' \<mapsto> q')\<rparr>"
    using ex by (auto split: option.splits)
  then show ?thesis
    using that y(2) A_StepRun RunContext_step_to_go [OF q(2), of cf "runs y"] by (cases "r' = r") (auto simp: brings_on_def)
next
  case (A_RunServe r' t l)
  then have y': "runs y r' = Some R_Listen" "serves y t = None"
      "y' = y\<lparr>serves := (serves y)(t \<mapsto> (l, S_Lock)), runs := (runs y)(r' \<mapsto> R_Select t)\<rparr>"
    using ex by (auto split: if_splits)
  then have same: "to_go cf y' q = to_go cf (y\<lparr>serves := (serves y)(t \<mapsto> (l, S_Lock))\<rparr>) q" for q by (intro to_go_cong) simp_all
  show ?thesis
  proof (cases "r' = r")
    case True
    have "to_go cf y' (R_Select t) < to_go cf y R_Listen"
      unfolding same by (simp add: to_go_def serve_wait_def shut_wait_def)
    then show ?thesis using that [of "R_Select t"] y y' True by simp
  next
    case False
    then show ?thesis
      using that [of pc] y(2) y' A_RunServe same to_go_spawn(1) [OF inv_runs_reach [OF y(1)] y(2) y'(2)] by (simp add: brings_on_def)
  qed
next
  case (A_RunShutdown r' u)
  then obtain t joined where y': "runs y r' = Some (R_Within t joined)" "shuts y u = None"
      "y' = y\<lparr>shuts := (shuts y)(u \<mapsto> (None, D_Lock)), runs := (runs y)(r' \<mapsto> R_Shut t u joined)\<rparr>"
    using ex by (auto split: if_splits option.splits run_pc.splits)
  then have same: "to_go cf y' q = to_go cf (y\<lparr>shuts := (shuts y)(u \<mapsto> (None, D_Lock))\<rparr>) q" for q by (intro to_go_cong) simp_all
  show ?thesis
  proof (cases "r' = r")
    case True
    have "to_go cf y' (R_Shut t u joined) < to_go cf y (R_Within t joined)"
      unfolding same by (simp add: to_go_def serve_wait_def shut_wait_def)
    then show ?thesis using that [of "R_Shut t u joined"] y y' True by simp
  next
    case False
    then show ?thesis
      using that [of pc] y(2) y' A_RunShutdown same to_go_spawn(2) [OF inv_runs_reach [OF y(1)] y(2) y'(2)] by (simp add: brings_on_def)
  qed
next
  case (A_Serve t l)
  then show ?thesis
    using that [of pc] ex y(2) to_go_spawn(1) [OF inv_runs_reach [OF y(1)] y(2), of t cf "(l, S_Lock)"]
    by (auto simp: brings_on_def split: if_splits)
next
  case (A_Shutdown u)
  then show ?thesis
    using that [of pc] ex y(2) to_go_spawn(2) [OF inv_runs_reach [OF y(1)] y(2), of u cf "(None, D_Lock)"]
    by (auto simp: brings_on_def split: if_splits)
next
  case (A_Run r')
  then show ?thesis using that [of pc] ex y(2) by (cases "r' = r") (auto simp: brings_on_def split: if_splits)
next
  case (A_RunFail r' err)
  then have y': "runs y r' = Some R_Listen" "y' = y\<lparr>runs := (runs y)(r' \<mapsto> R_Ret (Some err))\<rparr>"
    using ex by (auto split: if_splits)
  have "to_go cf y (R_Ret (Some err)) < to_go cf y R_Listen" by (simp add: to_go_def serve_wait_def shut_wait_def)
  then show ?thesis using that [of "R_Ret (Some err)"] that [of pc] y(2) y' A_RunFail by (cases "r' = r") (auto simp: brings_on_def)
qed

section \<open>Never stuck\<close>

text \<open>
  Once its ctx is over, and that of the Shutdown it starts, there is always a next step
  that brings a RunContext on.
\<close>

lemma hook_runner:
  fixes p :: pick
  assumes "lreach cf y" "\<not> awaitRunningHooks (life y)"
  shows "\<exists>u ln pc. shuts y u = Some (ln, pc) \<and> hook_of y u \<noteq> None \<and> Shutdown_step cf p u ln pc (life y) \<noteq> None"
proof -
  have "shutdownOnce (life y)" "\<not> shutdownDone (life y)"
    using assms(2) inv_runs_reach [OF assms(1)] by (auto simp: awaitRunningHooks_def inv_runs_def split: if_splits)
  then obtain u i where h: "hook_of y u = Some i" using inv_hooks_reach [OF assms(1)] unfolding inv_hooks_def by blast
  then obtain ln pc where u: "shuts y u = Some (ln, pc)" "at_hook pc = Some i"
    by (auto simp: hook_of_def split: option.splits)
  then have "has_turn pc" by (cases pc) auto
  then show ?thesis using h u turn_never_blocks by (metis option.distinct(1))
qed

lemma next_step:
  fixes p :: pick
  assumes y: "lreach cf y" "runs y r = Some pc" "\<not> run_returned pc" and p: "late p"
  shows "\<exists>a. brings_on y r a \<and> exec1 cf a y \<noteq> None"
proof -
  note inv = inv_runs_reach [OF y(1), unfolded inv_runs_def]
  have own: "\<exists>a. brings_on y r a \<and> exec1 cf a y \<noteq> None" if "RunContext_step p (serves y) (shuts y) pc (life y) \<noteq> None"
    using that y(2) by (intro exI [of _ "A_StepRun r p"]) (auto simp: brings_on_def)
  show ?thesis
  proof (cases pc)
    case R_Listen
    then show ?thesis using y(2) by (intro exI [of _ "A_RunFail r (Plain [])"]) (simp add: brings_on_def)
  next
    case (R_Within t joined)
    have "finite (dom (shuts y))" using inv by simp
    then obtain u where "u \<notin> dom (shuts y)" using ex_new_if_finite [OF infinite_UNIV_nat] by blast
    then show ?thesis using R_Within y(2) by (intro exI [of _ "A_RunShutdown r u"]) (auto simp: brings_on_def)
  next
    case (R_Shut t u joined)
    then obtain ln q where u: "shuts y u = Some (ln, q)" using inv y(2) by force
    show ?thesis
    proof (cases "steps_left (nOnShutdown cf) q = 0")
      case True
      then show ?thesis using own R_Shut u by auto
    next
      case False
      then show ?thesis
        using late_never_blocks [OF p False, of cf u ln "life y"] R_Shut u y(2)
        by (intro exI [of _ "A_StepShut u p"]) (auto simp: brings_on_def)
    qed
  next
    case (R_Join e t)
    then obtain l q where t: "serves y t = Some (l, q)" using inv y(2) by force
    show ?thesis
    proof (cases "\<exists>x. q = S_Ret x")
      case True
      then show ?thesis using own R_Join t by auto
    next
      case False
      then show ?thesis
        using R_Join t y(2) by (intro exI [of _ "A_StepServe t p"]) (auto simp: brings_on_def split: prod.split serve_pc.split)
    qed
  next
    case (R_Await e)
    show ?thesis
    proof (cases "awaitRunningHooks (life y)")
      case True
      then show ?thesis using own R_Await by simp
    next
      case False
      then obtain u ln q where "shuts y u = Some (ln, q)" "hook_of y u \<noteq> None" "Shutdown_step cf p u ln q (life y) \<noteq> None"
        using hook_runner [OF y(1)] by blast
      then show ?thesis using R_Await y(2) by (intro exI [of _ "A_StepShut u p"]) (auto simp: brings_on_def)
    qed
  qed (use own p y(3) in simp_all)
qed

section \<open>Properties\<close>

text \<open>The steps of a schedule that bring a RunContext on.\<close>

fun on_steps :: "lconf \<Rightarrow> nat \<Rightarrow> act list \<Rightarrow> sys \<Rightarrow> nat" where
  "on_steps cf r [] y = 0"
| "on_steps cf r (a # as) y =
     (if brings_on y r a then 1 else 0) + (case exec1 cf a y of None \<Rightarrow> 0 | Some y' \<Rightarrow> on_steps cf r as y')"

lemma exec_to_go:
  "lreach cf y \<Longrightarrow> runs y r = Some pc \<Longrightarrow> exec cf as y = Some y' \<Longrightarrow>
     \<exists>pc'. runs y' r = Some pc' \<and> to_go cf y' pc' + on_steps cf r as y \<le> to_go cf y pc"
proof (induction as arbitrary: y pc)
  case (Cons a as)
  obtain z where z: "exec1 cf a y = Some z" "exec cf as z = Some y'" using Cons.prems(3) by (auto split: option.splits)
  from exec1_to_go [OF Cons.prems(1,2) z(1)] obtain pc1 where pc1: "runs z r = Some pc1"
      "to_go cf z pc1 \<le> to_go cf y pc" "brings_on y r a \<Longrightarrow> to_go cf z pc1 < to_go cf y pc" by blast
  from Cons.IH [OF exec1_reach [OF z(1) Cons.prems(1)] pc1(1) z(2)] obtain pc'
    where "runs y' r = Some pc'" "to_go cf y' pc' + on_steps cf r as z \<le> to_go cf z pc1" by blast
  then show ?case using pc1 z(1) by (intro exI [of _ pc']) auto
qed simp

lemma to_go_bound:
  assumes "lreach cf y"
  shows "to_go cf y pc \<le> nOnStart cf + 2 * nOnShutdown cf + 28"
proof -
  have hooks: "hooks_left cf (life y) \<le> nOnShutdown cf + 2" 
    using diff_le_self [of "nOnShutdown cf" "length (hookLog (life y))"] by (auto simp: hooks_left_def)
  have serve: "serve_left m q \<le> m + 6" for m q by (cases q) auto
  have shut: "steps_left (nOnShutdown cf) q \<le> nOnShutdown cf + 13" if "shuts y u = Some (ln, q)" for u ln q
  proof -
    have "hook_of y u = at_hook q" using that by (simp add: hook_of_def)
    then have "at_hook q = Some i \<Longrightarrow> i \<le> nOnShutdown cf" for i
      using inv_hooks_reach [OF assms] unfolding inv_hooks_def by metis
    then show ?thesis by (cases q) auto
  qed
  have "serve_wait cf (serves y) pc \<le> nOnStart cf + 6" "shut_wait cf (shuts y) pc \<le> nOnShutdown cf + 13"
    using serve shut by (auto simp: serve_wait_def shut_wait_def split: option.split)
  then show ?thesis using hooks by (cases pc) (auto simp: to_go_def serve_wait_def shut_wait_def)
qed


definition demo_late :: pick where
  "demo_late = \<lparr>late = True, ctxErr = Plain ''done'', answer = None, p_now = 0\<rparr>"

text \<open>A whole RunContext: it serves, its ctx ends, it shuts down, runs the hook and returns.\<close>

definition demo_whole_run :: "act list" where
  "demo_whole_run = [A_RunServe 0 1 7] @ replicate 3 (A_StepServe 1 demo_late) @ [A_StepRun 0 demo_late, A_RunShutdown 0 2]
     @ replicate 13 (A_StepShut 2 demo_late) @ [A_StepRun 0 demo_late] @ replicate 3 (A_StepServe 1 demo_late) @ replicate 2 (A_StepRun 0 demo_late)"


end
