(* ===== verification/Histogram.thy ===== *)
theory Histogram
  imports Rice_Prelude "HOL-Library.Word" "HOL-Library.Log_Nat" "HOL-Library.Multiset"
begin

text \<open>
  The latency histogram of the benchmark's load generator, \<open>bench/compare/histogram.go\<close>, over
  64-bit words. The target rank of a quantile, \<open>uint64(math.Ceil(q * float64(n)))\<close>, is a
  parameter: a function of the count.
\<close>

unbundle bit_operations_syntax

section \<open>Buckets\<close>

text \<open>\<open>bits.Len64\<close>.\<close>

definition Len64 :: "64 word \<Rightarrow> nat" where
  "Len64 w = floorlog 2 (unat w)"

definition bucketOf :: "64 word \<Rightarrow> nat" where
  "bucketOf ns =
     (if ns < 16 then unat ns
      else let e = Len64 ns - 1; sub = drop_bit (e - 4) ns AND 15 in (e - 3) * 16 + unat sub)"

definition lowerBound :: "nat \<Rightarrow> 64 word" where
  "lowerBound i =
     (if i < 16 then of_nat i
      else let e = i div 16 + 3; sub = of_nat (i mod 16) in push_bit (e - 4) (16 + sub))"

section \<open>The histogram\<close>

definition nbuckets :: nat where
  "nbuckets = 1024"

record Histogram =
  counts :: "64 word list"
  h_n :: "64 word"

definition zero_Histogram :: Histogram where
  "zero_Histogram = \<lparr>counts = replicate nbuckets 0, h_n = 0\<rparr>"

text \<open>An index out of range would panic, \<open>None\<close>.\<close>

definition Record :: "int \<Rightarrow> Histogram \<Rightarrow> Histogram option" where
  "Record d h =
     (let i = bucketOf (word_of_int (if d < 0 then 0 else d))
      in if i < length (counts h)
         then Some (h\<lparr>counts := (counts h)[i := counts h ! i + 1], h_n := h_n h + 1\<rparr>) else None)"

definition Merge :: "Histogram \<Rightarrow> Histogram \<Rightarrow> Histogram" where
  "Merge h x = h\<lparr>counts := map2 (+) (counts h) (counts x), h_n := h_n h + h_n x\<rparr>"

definition Count :: "Histogram \<Rightarrow> 64 word" where
  "Count h = h_n h"

fun quantile_loop :: "64 word \<Rightarrow> nat \<Rightarrow> 64 word \<Rightarrow> 64 word list \<Rightarrow> nat option" where
  "quantile_loop target i seen [] = None"
| "quantile_loop target i seen (c # cs) =
     (if seen + c \<ge> target then Some i else quantile_loop target (Suc i) (seen + c) cs)"

definition Quantile :: "(64 word \<Rightarrow> 64 word) \<Rightarrow> Histogram \<Rightarrow> int" where
  "Quantile ceilq h =
     (if h_n h = 0 then 0
      else
        let target = (if ceilq (h_n h) = 0 then 1 else ceilq (h_n h))
        in case quantile_loop target 0 0 (counts h) of
             Some i \<Rightarrow> sint (lowerBound i)
           | None \<Rightarrow> sint (lowerBound (length (counts h) - 1)))"

section \<open>Buckets over the natural numbers\<close>

definition scale :: "nat \<Rightarrow> nat" where
  "scale x = (if x < 16 then 0 else floorlog 2 x - 5)"

definition bucket :: "nat \<Rightarrow> nat" where
  "bucket x = scale x * 16 + x div 2 ^ scale x"

lemma scale_bounds:
  assumes "16 \<le> x"
  shows "16 * 2 ^ scale x \<le> x" "x < 32 * 2 ^ scale x"
proof -
  have "(2::nat) ^ (floorlog 2 x - 1) \<le> x" "x < 2 ^ floorlog 2 x"
    using floorlog_bounds [of x 2] assms by auto
  moreover have "5 \<le> floorlog 2 x"
  proof (rule ccontr)
    assume "\<not> 5 \<le> floorlog 2 x"
    then have "(2::nat) ^ floorlog 2 x \<le> 2 ^ 4" by (intro power_increasing) auto
    then show False using calculation(2) assms by simp
  qed
  then have "floorlog 2 x - 1 = scale x + 4" "floorlog 2 x = scale x + 5"
    using assms by (simp_all add: scale_def)
  ultimately show "16 * 2 ^ scale x \<le> x" "x < 32 * 2 ^ scale x"
    by (simp_all add: power_add)
qed

text \<open>The quotient of a value by its scale: four significant bits after the leading one.\<close>

lemma quot_bounds: "16 \<le> x \<Longrightarrow> 16 \<le> x div 2 ^ scale x \<and> x div 2 ^ scale x < 32"
  using scale_bounds [of x] by (simp add: less_mult_imp_div_less le_div_geq div_greater_zero_iff
      less_eq_div_iff_mult_less_eq)

lemma mod_16: "16 \<le> (q::nat) \<Longrightarrow> q < 32 \<Longrightarrow> q mod 16 = q - 16"
  by (simp add: le_mod_geq)

lemma scale_mono: "x \<le> y \<Longrightarrow> scale x \<le> scale y"
  using floorlog_mono [of x y 2] by (simp add: scale_def diff_le_mono)

lemma bucket_small: "x < 16 \<Longrightarrow> bucket x = x"
  by (simp add: bucket_def scale_def)

lemma bucket_large: "16 \<le> x \<Longrightarrow> 16 * (scale x + 1) \<le> bucket x \<and> bucket x < 16 * (scale x + 2)"
  using quot_bounds [of x] by (simp add: bucket_def)

lemma bucket_mono:
  assumes "x \<le> y"
  shows "bucket x \<le> bucket y"
proof (cases "16 \<le> x")
  case True
  show ?thesis
  proof (cases "scale x = scale y")
    case True
    then show ?thesis using assms by (simp add: bucket_def div_le_mono)
  next
    case False
    then have "scale x + 1 \<le> scale y" using scale_mono [OF assms] by simp
    then have "16 * (scale x + 2) \<le> 16 * (scale y + 1)" by simp
    then show ?thesis using bucket_large [of x] bucket_large [of y] True assms by linarith
  qed
next
  case False
  then show ?thesis
    using assms bucket_large [of y] by (cases "16 \<le> y") (auto simp: bucket_small)
qed

definition lower :: "nat \<Rightarrow> nat" where
  "lower i = (if i < 16 then i else (16 + i mod 16) * 2 ^ (i div 16 - 1))"

lemma lower_bucket: "lower (bucket x) = x div 2 ^ scale x * 2 ^ scale x"
proof (cases "16 \<le> x")
  case True
  define q where "q = x div 2 ^ scale x"
  have q: "16 \<le> q" "q < 32" using quot_bounds [OF True] by (simp_all add: q_def)
  have b: "bucket x = 16 * (scale x + 1) + (q - 16)"
    using q by (simp add: bucket_def q_def)
  have "bucket x div 16 = scale x + 1" "bucket x mod 16 = q - 16"
    unfolding b using q by (simp_all add: mod_16)
  then show ?thesis
    using q b by (simp add: lower_def q_def [symmetric])
next
  case False
  then show ?thesis by (simp add: bucket_small lower_def scale_def)
qed

text \<open>A value is reported at most a sixteenth below itself.\<close>

lemma lower_bucket_error: "lower (bucket x) \<le> x" "16 * (x - lower (bucket x)) \<le> x"
proof -
  have eq: "x - lower (bucket x) = x mod 2 ^ scale x"
    unfolding lower_bucket by (metis minus_div_mult_eq_mod)
  show "lower (bucket x) \<le> x" unfolding lower_bucket by simp
  show "16 * (x - lower (bucket x)) \<le> x"
  proof (cases "16 \<le> x")
    case True
    have "x mod 2 ^ scale x \<le> 2 ^ scale x" by (simp add: less_imp_le)
    then have "16 * (x mod 2 ^ scale x) \<le> 16 * 2 ^ scale x" by simp
    then show ?thesis unfolding eq using scale_bounds(1) [OF True] by linarith
  next
    case False
    then show ?thesis by (simp add: lower_bucket scale_def)
  qed
qed

section \<open>The words hold the numbers\<close>

lemma unat_nat64: "n < 2 ^ 64 \<Longrightarrow> unat (of_nat n :: 64 word) = n"
  by (simp add: unat_of_nat take_bit_nat_eq_self)

lemma of_nat64_0: "n < 2 ^ 64 \<Longrightarrow> (of_nat n :: 64 word) = 0 \<longleftrightarrow> n = 0"
  using unat_nat64 [of n] by auto

lemma bucketOf_nat: "bucketOf w = bucket (unat w)"
proof (cases "w < 16")
  case True
  then have "unat w < 16" by (simp add: word_less_nat_alt)
  then show ?thesis using True by (simp add: bucketOf_def bucket_small)
next
  case False
  then have x: "16 \<le> unat w" by (simp add: word_less_nat_alt)
  let ?s = "scale (unat w)"
  have "5 \<le> floorlog 2 (unat w)" using floorlog_ge_SucI [of 2 4 "unat w"] x by simp
  then have e: "Len64 w - 5 = ?s" "Len64 w - 4 = ?s + 1"
    using x by (simp_all add: Len64_def scale_def)
  have "drop_bit ?s w AND 15 = take_bit 4 (drop_bit ?s w)"
    by (simp add: take_bit_eq_mask mask_numeral)
  then have "unat (drop_bit ?s w AND 15) = take_bit 4 (drop_bit ?s (unat w))"
    by (simp only: unsigned_take_bit_eq unat_drop_bit_eq)
  then have "unat (drop_bit ?s w AND 15) = unat w div 2 ^ ?s mod 16"
    by (simp only: take_bit_eq_mod drop_bit_eq_div) simp
  moreover have "unat w div 2 ^ ?s mod 16 = unat w div 2 ^ ?s - 16"
    using quot_bounds [OF x] by (simp add: mod_16)
  ultimately show ?thesis
    using False quot_bounds [OF x] by (simp add: bucketOf_def Let_def e bucket_def)
qed

lemma bucket_bound: "x < 2 ^ 63 \<Longrightarrow> bucket x < 960"
proof (cases "16 \<le> x")
  case True
  assume "x < 2 ^ 63"
  then have "floorlog 2 x \<le> 63" by (intro floorlog_leI) auto
  then have "scale x \<le> 58" using True diff_le_mono [of "floorlog 2 x" 63 5] by (simp add: scale_def)
  then show ?thesis using bucket_large [OF True, THEN conjunct2] by simp
qed (simp add: bucket_small)

lemma lowerBound_nat:
  assumes "lower i < 2 ^ 63"
  shows "sint (lowerBound i) = int (lower i)"
proof -
  have "lowerBound i = of_nat (lower i)"
  proof (cases "i < 16")
    case False
    have "i div 16 + 3 - 4 = i div 16 - 1" by simp
    then show ?thesis
      using False by (simp add: lowerBound_def lower_def Let_def push_bit_eq_mult)
  qed (simp add: lowerBound_def lower_def)
  then show ?thesis
    using assms by (simp add: signed_of_nat signed_take_bit_int_eq_self)
qed

section \<open>What a histogram holds\<close>

text \<open>The histogram of a list of durations, clamped at zero.\<close>

definition holds :: "Histogram \<Rightarrow> nat list \<Rightarrow> bool" where
  "holds h xs \<longleftrightarrow>
     counts h = map (\<lambda>i. of_nat (length (filter (\<lambda>x. bucket x = i) xs))) [0..<nbuckets]
     \<and> h_n h = of_nat (length xs)"

lemma holds_zero: "holds zero_Histogram []"
  by (simp add: holds_def zero_Histogram_def map_replicate_const)

lemma holds_Record:
  assumes "holds h xs" "d < 2 ^ 63"
  shows "\<exists>h'. Record d h = Some h' \<and> holds h' (xs @ [nat d])"
proof -
  have "(if d < 0 then 0 else d) = int (nat d)" by simp
  then have b: "bucketOf (word_of_int (if d < 0 then 0 else d)) = bucket (nat d)"
    using assms(2) by (simp only: bucketOf_nat of_int_of_nat_eq) (simp add: unat_nat64)
  have "bucket (nat d) < nbuckets" 
    using bucket_bound [of "nat d"] assms(2) nat_less_iff [of d "2 ^ 63"]
    by (cases "0 \<le> d") (simp_all add: nbuckets_def bucket_small)
  then show ?thesis
    using assms(1) by (auto simp: Record_def b holds_def Let_def intro!: nth_equalityI simp: nth_list_update)
qed

lemma holds_Merge: "holds h xs \<Longrightarrow> holds g ys \<Longrightarrow> holds (Merge h g) (xs @ ys)"
  by (simp add: holds_def Merge_def map2_map_map)

section \<open>Quantiles\<close>

text \<open>In a sorted list a downward closed predicate holds of a prefix.\<close>

lemma sorted_filter_prefix:
  fixes xs :: "nat list"
  assumes "sorted xs" "\<And>x y. P y \<Longrightarrow> x \<le> y \<Longrightarrow> P x" "k < length xs"
  shows "P (xs ! k) \<longleftrightarrow> k < length (filter P xs)"
  using assms(1,3)
proof (induction xs arbitrary: k)
  case (Cons x xs)
  show ?case
  proof (cases "P x")
    case True
    then show ?thesis using Cons by (cases k) auto
  next
    case False
    then have "\<not> P y" if "y \<in> set (x # xs)" for y
      using that assms(2) [of y x] Cons.prems(1) by auto
    moreover from this have "filter P (x # xs) = []" by (simp add: filter_empty_conv)
    ultimately show ?thesis using Cons.prems(2) nth_mem by (metis list.size(3) not_less0)
  qed
qed simp

lemma length_filter_sort: "length (filter P (sort xs)) = length (filter P xs)"
  by (metis mset_filter mset_sort size_mset)

text \<open>The loop finds the first bucket by which the target has been seen.\<close>

lemma quantile_loop_nat:
  assumes "S + sum_list ns < 2 ^ 64" "t < 2 ^ 64" "t \<le> S + sum_list ns" "S < t"
  shows "\<exists>j < length ns. quantile_loop (of_nat t) i (of_nat S) (map of_nat ns) = Some (i + j)
    \<and> t \<le> S + sum_list (take (Suc j) ns) \<and> S + sum_list (take j ns) < t"
  using assms
proof (induction ns arbitrary: i S)
  case (Cons c ns)
  have le: "(of_nat t :: 64 word) \<le> of_nat S + of_nat c \<longleftrightarrow> t \<le> S + c"
    using Cons.prems(1,2) by (simp add: word_le_nat_alt unat_nat64 flip: of_nat_add)
  show ?case
  proof (cases "t \<le> S + c")
    case True
    then show ?thesis using le Cons.prems by (intro exI [of _ 0]) simp
  next
    case False
    then obtain j where "j < length ns"
      "quantile_loop (of_nat t) (Suc i) (of_nat (S + c)) (map of_nat ns) = Some (Suc i + j)"
      "t \<le> S + c + sum_list (take (Suc j) ns)" "S + c + sum_list (take j ns) < t"
      using Cons.IH [of "S + c" "Suc i"] Cons.prems by auto
    then show ?thesis
      using False le by (intro exI [of _ "Suc j"]) (simp add: add.assoc)
  qed
qed simp

lemma sum_buckets:
  "sum_list (map (\<lambda>i. length (filter (\<lambda>x. bucket x = i) xs)) [0..<n]) = length (filter (\<lambda>x. bucket x < n) xs)"
proof (induction n)
  case (Suc n)
  have "length (filter (\<lambda>x. bucket x < Suc n) xs) =
      length (filter (\<lambda>x. bucket x < n) xs) + length (filter (\<lambda>x. bucket x = n) xs)"
    by (induction xs) auto
  then show ?case using Suc by simp
qed simp

text \<open>
  A quantile against the sorted durations: the reported value lies at most a sixteenth
  below the one of the target rank.
\<close>

lemma Quantile_rank:
  assumes h: "holds h xs" and xs: "list_all (\<lambda>x. x < 2 ^ 63) xs" "xs \<noteq> []" "length xs < 2 ^ 64"
    and t: "t = max 1 (unat (ceilq (of_nat (length xs))))" "t \<le> length xs"
  shows "Quantile ceilq h = int (lower (bucket (sort xs ! (t - 1))))"
proof -
  let ?ns = "map (\<lambda>i. length (filter (\<lambda>x. bucket x = i) xs)) [0..<nbuckets]"
  let ?x = "sort xs ! (t - 1)"
  have all: "list_all (\<lambda>x. bucket x < nbuckets) xs"
    using xs(1) bucket_bound by (fastforce simp: list_all_iff nbuckets_def)
  then have "filter (\<lambda>x. bucket x < nbuckets) xs = xs" by (simp add: filter_id_conv list_all_iff)
  then have sum: "sum_list ?ns = length xs" by (simp only: sum_buckets)
  have n: "h_n h \<noteq> 0" "h_n h = of_nat (length xs)"
    using h xs(2) unat_nat64 [OF xs(3)] by (auto simp: holds_def)
  have target: "(if ceilq (h_n h) = 0 then 1 else ceilq (h_n h)) = of_nat t"
    using t(1) n(2) by (auto simp: max_def not_le unat_eq_zero)
  have cs: "counts h = map of_nat ?ns" using h by (simp add: holds_def)
  have t1: "0 < t" using t(1) by simp
  obtain j where j: "j < nbuckets" "quantile_loop (of_nat t) 0 0 (counts h) = Some j"
      "t \<le> sum_list (take (Suc j) ?ns)" "sum_list (take j ?ns) < t"
    using quantile_loop_nat [of 0 ?ns t 0] sum xs(3) t(2) t1 unfolding cs by auto
  have take: "sum_list (take k ?ns) = length (filter (\<lambda>x. bucket x < k) (sort xs))" if "k \<le> nbuckets" for k
    using that by (simp add: take_map sum_buckets length_filter_sort)
  have lt: "bucket ?x < k \<longleftrightarrow> t - 1 < length (filter (\<lambda>x. bucket x < k) (sort xs))" for k
    using t(2) t1 by (intro sorted_filter_prefix) (auto intro: le_less_trans [OF bucket_mono])
  have "bucket ?x < Suc j" "\<not> bucket ?x < j"
    using j(1,3,4) t1 unfolding lt by (auto simp: take)
  then have b: "bucket ?x = j" by simp
  have "?x \<in> set (sort xs)" using t(2) t1 by (intro nth_mem) simp
  then have "?x < 2 ^ 63" using xs(1) by (auto simp: list_all_iff)
  then have "lower (bucket ?x) < 2 ^ 63" using lower_bucket_error(1) le_less_trans by blast
  then have "sint (lowerBound j) = int (lower (bucket ?x))"
    using lowerBound_nat [of j] by (simp only: b)
  then show ?thesis
    using n(1) j(2) by (simp add: Quantile_def target Let_def)
qed

end
