(* ===== verification/Load_Gen.thy ===== *)
theory Load_Gen
  imports Histogram Go_Errors
begin

text \<open>
  The load generator, \<open>bench/compare/loadgen.go\<close>. What the connections and the clock do is the
  input of the model: for every connection the exchanges it would make, each with the time
  before it, what \<open>HostClient.Do\<close> answered and the time after it. The quotient of requests
  and seconds is a parameter.
\<close>

section \<open>One connection\<close>

datatype bench_app = Small | GitHub

record Scenario =
  sc_Name :: string
  sc_App :: bench_app
  sc_Method :: string
  sc_Path :: string
  sc_Body :: "bytes option"
  sc_Status :: int
  sc_Want :: string
  sc_StatusOnly :: bool

record worker =
  w_hist :: Histogram
  w_requests :: "64 word"
  w_mismatches :: "64 word"
  w_errors :: "64 word"

definition zero_worker :: worker where
  "zero_worker = \<lparr>w_hist = zero_Histogram, w_requests = 0, w_mismatches = 0, w_errors = 0\<rparr>"

record exchange =
  x_t0 :: int
  x_answer :: "go_error + int"
  x_t1 :: int

text \<open>The loop of one worker, \<open>None\<close> for a panic of \<open>Record\<close>.\<close>

fun work :: "int \<Rightarrow> int \<Rightarrow> int \<Rightarrow> exchange list \<Rightarrow> worker \<Rightarrow> worker option" where
  "work status measureFrom fin [] w = Some w"
| "work status measureFrom fin (x # xs) w =
     (if \<not> x_t0 x < fin then Some w
      else case x_answer x of
        Inl err \<Rightarrow> Some (w\<lparr>w_errors := w_errors w + 1\<rparr>)
      | Inr code \<Rightarrow>
          (let w1 = (if code \<noteq> status then w\<lparr>w_mismatches := w_mismatches w + 1\<rparr> else w)
           in if \<not> x_t0 x < measureFrom
              then (case Record (x_t1 x - x_t0 x) (w_hist w1) of
                      None \<Rightarrow> None
                    | Some h \<Rightarrow> work status measureFrom fin xs (w1\<lparr>w_hist := h, w_requests := w_requests w1 + 1\<rparr>))
              else work status measureFrom fin xs w1))"

section \<open>A run\<close>

record LoadConfig =
  lc_Scenario :: Scenario
  lc_Conns :: int
  lc_Warmup :: int
  lc_Duration :: int
  lc_Timeout :: int

record 'f LoadResult =
  Requests :: "64 word"
  Mismatches :: "64 word"
  Errors :: "64 word"
  RPS :: "'f option"
  P50 :: int
  P99 :: int

definition load_timeout :: "LoadConfig \<Rightarrow> int" where
  "load_timeout cfg = (if lc_Timeout cfg \<le> 0 then 10 * 10 ^ 9 else lc_Timeout cfg)"

text \<open>The loop after the workers have finished.\<close>

definition collect :: "worker list \<Rightarrow> Histogram \<times> 64 word \<times> 64 word \<times> 64 word" where
  "collect ws = foldl (\<lambda>(all, r, m, e) w.
       (Merge all (w_hist w), r + w_requests w, m + w_mismatches w, e + w_errors w))
     (zero_Histogram, 0, 0, 0) ws"

datatype load_error = BadConns int | BadRun string "64 word" "64 word"

text \<open>
  \<open>conns ! i\<close> are the exchanges of connection \<open>i\<close>; \<open>start\<close> is the time the run begins;
  \<open>rank50\<close> and \<open>rank99\<close> are the target ranks of the two quantiles.
\<close>

definition Load ::
  "(64 word \<Rightarrow> int \<Rightarrow> 'f) \<Rightarrow> (64 word \<Rightarrow> 64 word) \<Rightarrow> (64 word \<Rightarrow> 64 word) \<Rightarrow> LoadConfig \<Rightarrow> int \<Rightarrow>
   exchange list list \<Rightarrow> ('f LoadResult option \<times> load_error option) option"
where
  "Load rate rank50 rank99 cfg start conns =
     (if lc_Conns cfg < 1 then Some (None, Some (BadConns (lc_Conns cfg)))
      else
        let measureFrom = start + lc_Warmup cfg; fin = measureFrom + lc_Duration cfg
        in case those (map (\<lambda>xs. work (sc_Status (lc_Scenario cfg)) measureFrom fin xs zero_worker) conns) of
             None \<Rightarrow> None
           | Some ws \<Rightarrow>
               (case collect ws of (all, r, m, e) \<Rightarrow>
                  let res = \<lparr>Requests = r, Mismatches = m, Errors = e,
                             RPS = (if lc_Duration cfg > 0 then Some (rate r (lc_Duration cfg)) else None),
                             P50 = Quantile rank50 all, P99 = Quantile rank99 all\<rparr>
                  in if m > 0 \<or> e > 0 then Some (Some res, Some (BadRun (sc_Name (lc_Scenario cfg)) m e))
                     else Some (Some res, None)))"

section \<open>Waiting for the server\<close>

text \<open>
  What \<open>net.DialTimeout\<close> and the clock answer, turn by turn: the error of a dial, or the
  result of closing the connection it made, and the time after it. \<open>None\<close> is a loop that
  still dials when the answers end.
\<close>

datatype wait_error = NotReady string int go_error | CloseFailed go_error

fun wait_loop :: "string \<Rightarrow> int \<Rightarrow> int \<Rightarrow> ((go_error + go_error option) \<times> int) list \<Rightarrow> wait_error option option" where
  "wait_loop addr timeout deadline [] = None"
| "wait_loop addr timeout deadline ((dial, now) # rest) =
     (case dial of
        Inr cerr \<Rightarrow> Some (map_option CloseFailed cerr)
      | Inl err \<Rightarrow> if now > deadline then Some (Some (NotReady addr timeout err)) else wait_loop addr timeout deadline rest)"

definition WaitReady :: "string \<Rightarrow> int \<Rightarrow> int \<Rightarrow> ((go_error + go_error option) \<times> int) list \<Rightarrow> wait_error option option" where
  "WaitReady addr timeout start answers = wait_loop addr timeout (start + timeout) answers"

text \<open>Every turn sleeps 20 ms, so the loop makes a bounded number of them.\<close>

lemma wait_loop_ends:
  assumes "successively (\<lambda>a b. snd a + 20 * 10 ^ 6 \<le> snd b) answers" "answers \<noteq> []"
    and "deadline < snd (hd answers) + 20 * 10 ^ 6 * int (length answers - 1)"
  shows "wait_loop addr timeout deadline answers \<noteq> None"
  using assms
proof (induction answers)
  case (Cons a rest)
  obtain dial now where a: "a = (dial, now)" by (cases a)
  show ?case
  proof (cases "rest = []")
    case False
    then obtain b rest' where rest: "rest = b # rest'" by (cases rest) auto
    have step: "now + 20 * 10 ^ 6 \<le> snd (hd rest)" "successively (\<lambda>a b. snd a + 20 * 10 ^ 6 \<le> snd b) rest"
      using Cons.prems(1) by (simp_all add: a rest)
    have "deadline < snd (hd rest) + 20 * 10 ^ 6 * int (length rest - 1)"
      using Cons.prems(3) step(1) by (simp add: a rest algebra_simps)
    then show ?thesis using Cons.IH [OF step(2) False] a by (simp split: sum.split)
  qed (use Cons.prems a in \<open>simp split: sum.split\<close>)
qed simp

section \<open>What the workers counted\<close>

text \<open>The exchanges a connection makes, and those of them that are measured.\<close>

fun made_by :: "int \<Rightarrow> exchange list \<Rightarrow> exchange list" where
  "made_by fin [] = []"
| "made_by fin (x # xs) =
     (if x_t0 x < fin then x # (case x_answer x of Inl _ \<Rightarrow> [] | Inr _ \<Rightarrow> made_by fin xs) else [])"

definition measured :: "int \<Rightarrow> int \<Rightarrow> exchange list \<Rightarrow> nat list" where
  "measured mf fin xs =
     map (\<lambda>x. nat (x_t1 x - x_t0 x)) (filter (\<lambda>x. mf \<le> x_t0 x \<and> \<not> isl (x_answer x)) (made_by fin xs))"

definition wrong_of :: "int \<Rightarrow> exchange list \<Rightarrow> nat" where
  "wrong_of status xs = length (filter (\<lambda>x. \<not> isl (x_answer x) \<and> x_answer x \<noteq> Inr status) xs)"

definition failed_of :: "exchange list \<Rightarrow> nat" where
  "failed_of xs = length (filter (\<lambda>x. isl (x_answer x)) xs)"

lemmas tally_defs = measured_def wrong_of_def failed_of_def

lemma work_tallies:
  assumes "holds (w_hist w) L" "list_all (\<lambda>x. x_t1 x - x_t0 x < 2 ^ 63) xs"
  shows "\<exists>w'. work status mf fin xs w = Some w' \<and> holds (w_hist w') (L @ measured mf fin xs)
    \<and> w_requests w' = w_requests w + of_nat (length (measured mf fin xs))
    \<and> w_mismatches w' = w_mismatches w + of_nat (wrong_of status (made_by fin xs))
    \<and> w_errors w' = w_errors w + of_nat (failed_of (made_by fin xs))"
  using assms
proof (induction xs arbitrary: w L)
  case (Cons x xs)
  show ?case
  proof (cases "x_answer x")
    case (Inl err)
    then show ?thesis using Cons.prems by (simp add: tally_defs)
  next
    case (Inr code)
    define w1 where "w1 = (if code \<noteq> status then w\<lparr>w_mismatches := w_mismatches w + 1\<rparr> else w)"
    have w1: "w_hist w1 = w_hist w" "w_requests w1 = w_requests w" "w_errors w1 = w_errors w"
        "w_mismatches w1 = w_mismatches w + (if code \<noteq> status then 1 else 0)"
      by (simp_all add: w1_def)
    obtain h where h: "Record (x_t1 x - x_t0 x) (w_hist w1) = Some h" "holds h (L @ [nat (x_t1 x - x_t0 x)])"
      using holds_Record [of "w_hist w1" L "x_t1 x - x_t0 x"] Cons.prems w1(1) by auto
    show ?thesis
      using Cons.IH [of "w1\<lparr>w_hist := h, w_requests := w_requests w1 + 1\<rparr>" "L @ [nat (x_t1 x - x_t0 x)]"]
        Cons.IH [of w1 L] h Cons.prems w1 Inr
      by (auto simp: tally_defs w1_def [symmetric] ac_simps)
  qed
qed (simp add: tally_defs)

lemma works_tally:
  assumes "list_all (list_all (\<lambda>x. x_t1 x - x_t0 x < 2 ^ 63)) conns" "holds h0 L"
  shows "\<exists>ws. those (map (\<lambda>xs. work status mf fin xs zero_worker) conns) = Some ws
    \<and> (\<exists>h. foldl (\<lambda>(all, r, m, e) w.
          (Merge all (w_hist w), r + w_requests w, m + w_mismatches w, e + w_errors w)) (h0, r, m, e) ws =
        (h, r + of_nat (length (concat (map (measured mf fin) conns))),
            m + of_nat (wrong_of status (concat (map (made_by fin) conns))),
            e + of_nat (failed_of (concat (map (made_by fin) conns))))
        \<and> holds h (L @ concat (map (measured mf fin) conns)))"
  using assms
proof (induction conns arbitrary: h0 L r m e)
  case (Cons xs conns)
  obtain w where w: "work status mf fin xs zero_worker = Some w" "holds (w_hist w) (measured mf fin xs)"
      "w_requests w = of_nat (length (measured mf fin xs))"
      "w_mismatches w = of_nat (wrong_of status (made_by fin xs))"
      "w_errors w = of_nat (failed_of (made_by fin xs))"
    using work_tallies [of zero_worker "[]" xs status mf fin] Cons.prems(1) holds_zero
    by (auto simp: zero_worker_def)
  show ?case
    using Cons.IH [OF _ holds_Merge [OF Cons.prems(2) w(2)], of "r + w_requests w" "m + w_mismatches w" "e + w_errors w"]
      Cons.prems(1) w
    by (auto simp: wrong_of_def failed_of_def ac_simps)
qed (simp add: tally_defs)

section \<open>Properties\<close>

text \<open>
  C38: A benchmark never reports a number for other work, and its percentiles are right. For
  every run of at least one connection with fewer than \<open>2^64\<close> exchanges, of latencies below
  \<open>2^63\<close> nanoseconds, \<open>Load\<close> does not panic and returns no error exactly when every exchange
  made before the end was answered with the scenario's status. The request count is the
  number of measured exchanges, and each percentile lies at most a sixteenth below the
  latency of its rank among them, over all connections together.
\<close>

theorem Load_honest:
  assumes "1 \<le> lc_Conns cfg" "list_all (list_all (\<lambda>x. x_t1 x - x_t0 x < 2 ^ 63)) conns"
    and "length (concat conns) < 2 ^ 64"
    and "mf = start + lc_Warmup cfg" "fin = mf + lc_Duration cfg"
    and "L = concat (map (measured mf fin) conns)"
    and "unat (rank50 (of_nat (length L))) \<le> length L" "unat (rank99 (of_nat (length L))) \<le> length L"
  shows "\<exists>res err. Load rate rank50 rank99 cfg start conns = Some (Some res, err)
    \<and> (err = None \<longleftrightarrow> (\<forall>xs\<in>set conns. \<forall>x\<in>set (made_by fin xs). x_answer x = Inr (sc_Status (lc_Scenario cfg))))
    \<and> unat (Requests res) = length L
    \<and> (L \<noteq> [] \<longrightarrow> (\<forall>(rank, q)\<in>{(rank50, P50 res), (rank99, P99 res)}.
          let v = int (sort L ! (max 1 (unat (rank (of_nat (length L)))) - 1))
          in q \<le> v \<and> 16 * (v - q) \<le> v))"
proof -
  let ?st = "sc_Status (lc_Scenario cfg)" and ?made = "concat (map (made_by fin) conns)"
  obtain ws h where ws: "those (map (\<lambda>xs. work ?st mf fin xs zero_worker) conns) = Some ws"
      "collect ws = (h, of_nat (length L), of_nat (wrong_of ?st ?made), of_nat (failed_of ?made))" "holds h L"
    using works_tally [OF assms(2) holds_zero, of ?st mf fin 0 0 0] assms(6) by (auto simp: collect_def)
  have made: "length (made_by fin xs) \<le> length xs" "set (made_by fin xs) \<subseteq> set xs" for xs
    by (induction xs) (auto split: sum.splits)
  then have "length ?made \<le> length (concat conns)" by (induction conns) (auto intro: add_mono)
  then have m64: "length ?made < 2 ^ 64" using assms(3) by simp
  have len: "length L \<le> length ?made"
    unfolding assms(6) by (induction conns) (auto simp: measured_def intro: add_mono)
  have lt: "wrong_of ?st ?made < 2 ^ 64" "failed_of ?made < 2 ^ 64" "length L < 2 ^ 64"
    using m64 len le_less_trans [OF length_filter_le m64] le_less_trans [OF len m64]
    unfolding wrong_of_def failed_of_def by blast+
  then have counts: "unat (of_nat (wrong_of ?st ?made) :: 64 word) = wrong_of ?st ?made"
      "unat (of_nat (failed_of ?made) :: 64 word) = failed_of ?made" "unat (of_nat (length L) :: 64 word) = length L"
    by (simp_all only: unat_nat64)
  have "(of_nat (wrong_of ?st ?made) :: 64 word) = 0 \<and> (of_nat (failed_of ?made) :: 64 word) = 0 \<longleftrightarrow>
      wrong_of ?st ?made = 0 \<and> failed_of ?made = 0"
    by (simp only: of_nat64_0 [OF lt(1)] of_nat64_0 [OF lt(2)])
  also have "\<dots> \<longleftrightarrow> (\<forall>x\<in>set ?made. x_answer x = Inr ?st)"
    by (auto simp: wrong_of_def failed_of_def filter_empty_conv split: sum.splits)
  finally have clean: "(of_nat (wrong_of ?st ?made) :: 64 word) = 0 \<and> (of_nat (failed_of ?made) :: 64 word) = 0 \<longleftrightarrow>
      (\<forall>xs\<in>set conns. \<forall>x\<in>set (made_by fin xs). x_answer x = Inr ?st)"
    by auto
  have "list_all (\<lambda>x. x < 2 ^ 63) L"
    using assms(2) made(2) unfolding assms(6) by (fastforce simp: list_all_iff measured_def nat_less_iff)
  then have q: "Quantile rank h = int (lower (bucket (sort L ! (max 1 (unat (rank (of_nat (length L)))) - 1))))"
    if "rank \<in> {rank50, rank99}" "L \<noteq> []" for rank
    using Quantile_rank [OF ws(3) _ that(2), of "max 1 (unat (rank (of_nat (length L))))" rank]
      assms(7,8) that m64 len by (auto simp: Suc_le_eq)
  have "int (lower (bucket x)) \<le> int x \<and> 16 * (int x - int (lower (bucket x))) \<le> int x" for x
    using lower_bucket_error [of x] by arith
  then show ?thesis
    using assms(1,4,5) ws(1,2) clean counts(3) q by (auto simp: Load_def Let_def word_gt_0)
qed

text \<open>Two connections; the target rank of every quantile is half the count, rounded up.\<close>

definition demo_cfg :: LoadConfig where
  "demo_cfg = \<lparr>lc_Scenario = \<lparr>sc_Name = ''static'', sc_App = Small, sc_Method = ''GET'', sc_Path = ''/hello'',
     sc_Body = None, sc_Status = 200, sc_Want = ''hello'', sc_StatusOnly = False\<rparr>,
     lc_Conns = 2, lc_Warmup = 10, lc_Duration = 100, lc_Timeout = 0\<rparr>"

definition demo_conns :: "exchange list list" where
  "demo_conns = [[\<lparr>x_t0 = 0, x_answer = Inr 200, x_t1 = 20\<rparr>, \<lparr>x_t0 = 20, x_answer = Inr 200, x_t1 = 53\<rparr>],
     [\<lparr>x_t0 = 12, x_answer = Inr 200, x_t1 = 13\<rparr>, \<lparr>x_t0 = 111, x_answer = Inr 404, x_t1 = 112\<rparr>]]"

theorem Load_honest_witness:
  "\<exists>res. Load (\<lambda>r d. ()) (\<lambda>n. n) (\<lambda>n. n) demo_cfg 0 demo_conns = Some (Some res, None)
     \<and> unat (Requests res) = 2 \<and> P50 res \<le> 33 \<and> 16 * (33 - P50 res) \<le> 33"
proof -
  have L: "[33, 1] = concat (map (measured 10 110) demo_conns)"
    by (simp add: demo_conns_def measured_def)
  have ok: "1 \<le> lc_Conns demo_cfg" "10 = 0 + lc_Warmup demo_cfg" "110 = 10 + lc_Duration demo_cfg"
      "list_all (list_all (\<lambda>x. x_t1 x - x_t0 x < 2 ^ 63)) demo_conns" "length (concat demo_conns) < 2 ^ 64"
    by (simp_all add: demo_cfg_def demo_conns_def)
  have rank: "unat (of_nat (length [33, 1::nat]) :: 64 word) \<le> length [33, 1::nat]" by simp
  have s: "sort [33, 1] = [1, 33::nat]" by simp
  show ?thesis
    using Load_honest [OF ok(1,4,5,2,3) L, of "\<lambda>n. n" "\<lambda>n. n" "\<lambda>r d. ()", OF rank rank]
    by (auto simp: demo_cfg_def demo_conns_def s Let_def)
qed

end
