(* ===== verification/Bench_Scenarios.thy ===== *)
theory Bench_Scenarios
  imports Load_Gen
begin

text \<open>
  The scenarios every framework of the comparison answers and the names of the frameworks:
  \<open>bench/compare\<close>'s \<open>scenarios.go\<close> and the tables of \<open>targets.go\<close>.
\<close>

definition body64k :: bytes where
  "body64k = replicate (64 * 1024) (CHR ''r'')"

definition githubTarget :: string where
  "githubTarget = ''/repos/julienschmidt/httprouter/pulls/42/comments''"

definition json_want :: string where
  "json_want = ''{\"id\":42,\"name\":\"rice\",\"tags\":[\"a\",\"b\"]}''"

definition scenario :: "string \<Rightarrow> bench_app \<Rightarrow> string \<Rightarrow> string \<Rightarrow> bytes option \<Rightarrow> int \<Rightarrow> string \<Rightarrow> bool \<Rightarrow> Scenario" where
  "scenario name app m path body status want statusOnly =
     \<lparr>sc_Name = name, sc_App = app, sc_Method = m, sc_Path = path, sc_Body = body, sc_Status = status,
      sc_Want = want, sc_StatusOnly = statusOnly\<rparr>"

definition Scenarios :: "Scenario list" where
  "Scenarios =
     [scenario ''static'' Small ''GET'' ''/hello'' None 200 ''hello'' False,
      scenario ''param'' Small ''GET'' ''/users/42'' None 200 ''42'' False,
      scenario ''middleware5'' Small ''GET'' ''/mw'' None 200 ''ok'' False,
      scenario ''notfound'' Small ''GET'' ''/nope'' None 404 [] True,
      scenario ''githubapi'' GitHub ''GET'' githubTarget None 200 ''ok'' False,
      scenario ''json'' Small ''GET'' ''/json'' None 200 json_want False,
      scenario ''body64k'' Small ''POST'' ''/echo-len'' (Some body64k) 200 ''65536'' False]"

definition ScenarioByName :: "string \<Rightarrow> Scenario option" where
  "ScenarioByName name = find (\<lambda>s. sc_Name s = name) Scenarios"

text \<open>The frameworks by name, in the order results are reported; their adapters are not modelled.\<close>

definition Targets :: "string list" where
  "Targets = [''rice'', ''gin'', ''echo'', ''fiber'']"

definition TargetByName :: "string \<Rightarrow> string option" where
  "TargetByName name = find (\<lambda>t. t = name) Targets"

end
