(* ===== verification/Bench_App.thy ===== *)
theory Bench_App
  imports Options Gates Bench_Scenarios Github_Api Route_Order
begin

text \<open>
  The benchmark's scenarios and rice's own entry in the comparison: \<open>bench/compare\<close>'s
  \<open>scenarios.go\<close>, \<open>rice.go\<close> and \<open>check.go\<close>. The table of
  \<open>githubapi.go\<close> is in \<open>Github_Api\<close>; what \<open>json.Marshal\<close> makes of the payload is a parameter. The App is made, built and served by the model of
  the library, so that a scenario is a whole request.
\<close>

section \<open>The comparison\<close>

datatype check_error = WrongStatus string string int int | WrongBody string string string string

definition trim_newline :: "string \<Rightarrow> string" where
  "trim_newline s = (if s \<noteq> [] \<and> last s = CHR 0x0A then butlast s else s)"

text \<open>
  A Server is a net/http handler, whose recorder's status and body are all that is read, or
  a fasthttp handler, run on a fresh RequestCtx; \<open>mk\<close> is that RequestCtx after SetMethod,
  SetRequestURI and, for a body that is not nil, SetBody. A panic of the handler goes through.
\<close>

datatype 'w Server = HTTP "string \<Rightarrow> string \<Rightarrow> bytes \<Rightarrow> (int \<times> string) res" | Fasthttp "'w \<Rightarrow> unit res \<times> 'w"

type_synonym 'w new_request = "string \<Rightarrow> string \<Rightarrow> bytes option \<Rightarrow> 'w"

definition Do :: "('w, 's) fasthttp \<Rightarrow> 'w new_request \<Rightarrow> 'w Server \<Rightarrow> string \<Rightarrow> string \<Rightarrow> bytes option \<Rightarrow> (int \<times> string) res" where
  "Do F mk srv m path body =
     (case srv of
        HTTP serve \<Rightarrow> serve m path (case body of None \<Rightarrow> [] | Some b \<Rightarrow> b)
      | Fasthttp serve \<Rightarrow>
          (case serve (mk m path body) of
             (Ret _, w) \<Rightarrow> Ret (f_StatusCode F w, f_Body F w)
           | (Panic p, _) \<Rightarrow> Panic p))"

definition CheckServer :: "('w, 's) fasthttp \<Rightarrow> 'w new_request \<Rightarrow> string \<Rightarrow> 'w Server \<Rightarrow> Scenario \<Rightarrow> check_error option res" where
  "CheckServer F mk name srv s =
     (case Do F mk srv (sc_Method s) (sc_Path s) (sc_Body s) of
        Panic p \<Rightarrow> Panic p
      | Ret (status, body) \<Rightarrow> Ret (
        if status \<noteq> sc_Status s then Some (WrongStatus name (sc_Name s) status (sc_Status s))
        else if sc_StatusOnly s then None
        else if trim_newline body \<noteq> sc_Want s then Some (WrongBody name (sc_Name s) (trim_newline body) (sc_Want s))
        else None))"

section \<open>rice's apps\<close>

definition riceNoop :: "('w, 'x, 'v, 's) Handler middleware" where
  "riceNoop next = (\<lambda>c. next c)"

definition hello_h :: "bool \<Rightarrow> ('w, 's) fasthttp \<Rightarrow> ('w, 'x, 'v, 's) Handler" where
  "hello_h dbg F = Ctx_String dbg F 200 ''hello''"

definition user_h :: "bool \<Rightarrow> ('w, 's) fasthttp \<Rightarrow> ('w, 'x, 'v, 's) Handler" where
  "user_h dbg F = then_do (Ctx_Param dbg ''id'') (Bytes dbg F 200)"

definition ok_h :: "bool \<Rightarrow> ('w, 's) fasthttp \<Rightarrow> ('w, 'x, 'v, 's) Handler" where
  "ok_h dbg F = Ctx_String dbg F 200 ''ok''"

definition json_h :: "bool \<Rightarrow> ('w, 's) fasthttp \<Rightarrow> go_error + bytes \<Rightarrow> ('w, 'x, 'v, 's) Handler" where
  "json_h dbg F marshalled =
     (case marshalled of
        Inl err \<Rightarrow> (\<lambda>c. (Ret (Some err), c))
      | Inr b \<Rightarrow> then_do (SetContentType dbg F ''application/json'') (\<lambda>_. Bytes dbg F 200 b))"

definition echo_h :: "bool \<Rightarrow> ('w, 's) fasthttp \<Rightarrow> ('w, 'x, 'v, 's) Handler" where
  "echo_h dbg F =
     then_do (RequestCtx dbg) (\<lambda>_. then_do (ask (\<lambda>w. length (f_PostBody F w)))
       (\<lambda>n. Ctx_String dbg F 200 (itoa (int n))))"

definition small_routes :: "'h \<Rightarrow> 'h \<Rightarrow> 'h \<Rightarrow> 'h \<Rightarrow> 'h \<Rightarrow> 'h middleware \<Rightarrow> 'h App \<Rightarrow> reg_panic option \<times> 'h App" where
  "small_routes hello user ok json echo noop a = in_turn a
     [\<lambda>a. App_verb mGET a ''/hello'' (Some hello) [],
      \<lambda>a. App_verb mGET a ''/users/:id'' (Some user) [],
      \<lambda>a. App_verb mGET a ''/mw'' (Some ok) [Some noop, Some noop, Some noop, Some noop, Some noop],
      \<lambda>a. App_verb mGET a ''/json'' (Some json) [],
      \<lambda>a. App_verb mPOST a ''/echo-len'' (Some echo) []]"

definition github_routes :: "'h \<Rightarrow> 'h App \<Rightarrow> reg_panic option \<times> 'h App" where
  "github_routes ok a = in_turn a (map (\<lambda>(m, path) a. Handle a m path (Some ok) []) githubAPI)"

text \<open>\<open>pool\<close> is what the App's pool holds when the request comes in, \<open>i\<close> what it hands out.\<close>

definition buildRice ::
  "bool \<Rightarrow> ('w, 's) fasthttp \<Rightarrow> go_error + bytes \<Rightarrow> bytes \<Rightarrow> nat \<Rightarrow> ('w, 'x, 'v, 's) Ctx list \<Rightarrow> bench_app \<Rightarrow> reg_panic + 'w Server"
where
  "buildRice dbg F marshalled stack i pool app =
     (case (case app of
              Small \<Rightarrow> small_routes (hello_h dbg F) (user_h dbg F) (ok_h dbg F) (json_h dbg F marshalled)
                         (echo_h dbg F) riceNoop (New notFound)
            | GitHub \<Rightarrow> github_routes (ok_h dbg F) (New notFound)) of
        (Some p, _) \<Rightarrow> Inl p
      | (None, a) \<Rightarrow>
          (case FasthttpHandler dbg F stack False (New_conf (DefaultErrorHandler F) []) a of
             Inl p \<Rightarrow> Inl p
           | Inr serve \<Rightarrow> Inr (Fasthttp (\<lambda>w. case serve i pool w of (r, _, w') \<Rightarrow> (r, w')))))"

section \<open>Registration\<close>

definition small_specs :: "'h \<Rightarrow> 'h \<Rightarrow> 'h \<Rightarrow> 'h \<Rightarrow> 'h \<Rightarrow> 'h middleware \<Rightarrow> (string \<times> string \<times> 'h \<times> 'h middleware list) list" where
  "small_specs h1 h2 h3 h4 h5 mw =
     [(''GET'', ''/hello'', h1, []), (''GET'', ''/users/:id'', h2, []), (''GET'', ''/mw'', h3, [mw, mw, mw, mw, mw]),
      (''GET'', ''/json'', h4, []), (''POST'', ''/echo-len'', h5, [])]"

lemma small_routes_specs: "small_routes h1 h2 h3 h4 h5 mw a = in_turn a (calls_of (small_specs h1 h2 h3 h4 h5 mw))"
  by (simp add: small_routes_def calls_of_def small_specs_def App_verb_def Handle_def)

lemma small_routes_ok: "fst (small_routes h1 h2 h3 h4 h5 mw (New nf)) = None"
  by code_simp

section \<open>From a route to the response\<close>

lemma only_match:
  assumes "reachable nf a" "built a" "clean ps" "r \<in> set (routes a)" "r_method r = m" "matches (r_path r) path = Some cs"
    and "\<And>r'. r' \<in> set (routes a) \<Longrightarrow> r_method r' = m \<Longrightarrow> matches (r_path r') path \<noteq> None \<Longrightarrow> r_path r' = r_path r"
  shows "\<exists>ps'. lookupEntry a m path ps = (Some (compiled_entry a r), ps') \<and> clean ps' \<and> entries ps' = entries ps @ cs"
proof -
  note tab = built_routes [OF assms(1,2)]
  obtain e ps' where look: "lookupEntry a m path ps = (Some e, ps')"
    using dispatch_miss [OF assms(1-3), of m path] assms(4-6) by (cases "lookupEntry a m path ps") force
  then obtain p cs' where p: "registered (treeFor a m) p = Some e" "matches p path = Some cs'" "clean ps'"
      "entries ps' = entries ps @ cs'"
    using Lookup_hit [OF tab(1) assms(3)] by (force simp: lookupEntry_treeFor)
  then obtain r' where r': "r' \<in> set (routes a)" "r_method r' = m" "r_path r' = p" "compiled_entry a r' = e"
    using tab(2) by auto
  then have "p = r_path r" using assms(7) [OF r'(1,2)] p(2) by simp
  moreover have "registered (treeFor a m) (r_path r) = Some (compiled_entry a r)"
    using tab(2) assms(4,5) by blast
  ultimately show ?thesis using look p assms(6) by simp
qed

text \<open>
  A handler that returns after some writes: the client reads those writes, or what the
  default funnel makes of a plain HTTPError on top of them.
\<close>

lemma handle_returned:
  assumes "reachable notFound a" "built a" "\<forall>d\<in>set pool. blank d"
    and look: "\<And>ps. clean ps \<Longrightarrow> entries ps = [] \<Longrightarrow>
      \<exists>e ps'. lookupEntry a (f_Method F w) (f_Path F w) ps = (e, ps') \<and> clean ps' \<and> K (entries ps')
        \<and> (case e of None \<Rightarrow> miss a | Some en \<Rightarrow> re_h en) = h"
    and h: "\<And>c. bound c \<Longrightarrow> req c = w \<Longrightarrow> K (entries (params c)) \<Longrightarrow> h c = (Ret err, on_req g c)"
    and err: "err = None \<or> err = Some (HTTPError code msg None) \<and> validStatus code = code"
  shows "fst (handle dbg F (DefaultErrorHandler F) stack False a pick pool w) = Ret ()
    \<and> snd (snd (handle dbg F (DefaultErrorHandler F) stack False a pick pool w)) =
        (if err = None then g w else refusal F code msg (g w))"
proof -
  obtain c0 pool1 where acq: "acquire (app_maxParams a) pick pool w = (c0, pool1)" by fastforce
  obtain n k where c0: "c0 = (newCtx n)\<lparr>store_arr := replicate k zero_entry, has_app := True, fctx := Some w\<rparr>"
    using acquire_blank(1) [OF assms(3) acq] by blast
  have b0: "bound c0" by (rule acquired_bound [OF assms(3) acq])
  have "clean (params c0)" "entries (params c0) = []"
    by (simp_all add: c0 newCtx_def clean_MakeParams)
  from look [OF this] obtain e ps where l: "lookupEntry a (f_Method F w) (f_Path F w) (params c0) = (e, ps)"
      "clean ps" "K (entries ps)" "(case e of None \<Rightarrow> miss a | Some en \<Rightarrow> re_h en) = h"
    by blast
  define c1 where "c1 = c0\<lparr>params := ps, route := (case e of None \<Rightarrow> [] | Some en \<Rightarrow> re_pattern en)\<rparr>"
  have c1: "bound c1" "req c1 = w" "K (entries (params c1))" "\<not> handled c1" "streamFn c1 = None"
    using b0 l(2,3) by (simp_all add: c1_def c0 newCtx_def bound_def clean_Ctx_def clean_store_def req_def)
  let ?d = "on_req g c1"
  have body: "handle_body F (DefaultErrorHandler F) a w c0 =
      (case err of None \<Rightarrow> (Ret (), ?d)
       | Some e \<Rightarrow> callErrorHandler F (DefaultErrorHandler F) e (?d\<lparr>handled := True\<rparr>))"
    using l(1,4) h [OF c1(1-3)] c1(4) by (simp add: handle_body_def Let_def c1_def [symmetric] split: option.split)
  have d: "fctx ?d = Some (g w)" "streamFn ?d = None" using c1(2,5) by (simp_all add: on_req_def)
  show ?thesis
  proof (cases err)
    case None
    then show ?thesis using acq body d by (simp add: handle_def Let_def handle_recover_def)
  next
    case (Some e)
    then have "callErrorHandler F (DefaultErrorHandler F) e (?d\<lparr>handled := True\<rparr>) =
        (Ret (), ?d\<lparr>handled := True, fctx := Some (refusal F code msg (g w))\<rparr>)"
      using err funnel_refusal [of code "?d\<lparr>handled := True\<rparr>" "g w" F msg] d by simp
    then show ?thesis using Some acq body d by (simp add: handle_def Let_def handle_recover_def)
  qed
qed

lemma hit_handler:
  assumes a: "reachable nf a" "built a" "routes a = map route_of specs" "app_mws a = []"
    and spec: "(m, p, h, mws) \<in> set specs" "matches p path = Some cs"
    and only: "list_all (\<lambda>(m', p', _, _). m' = m \<longrightarrow> p' \<noteq> p \<longrightarrow> matches p' path = None) specs"
    and ps: "clean ps" "entries ps = []"
  shows "\<exists>e ps'. lookupEntry a m path ps = (e, ps') \<and> clean ps' \<and> entries ps' = cs
    \<and> (case e of None \<Rightarrow> miss a | Some en \<Rightarrow> re_h en) = Compile h mws"
proof -
  have same: "r_path r' = r_path (route_of (m, p, h, mws))"
    if "r' \<in> set (routes a)" "r_method r' = m" "matches (r_path r') path \<noteq> None" for r'
    using that only a(3) by (auto simp: route_of_def list_all_iff split: prod.splits)
  have r: "route_of (m, p, h, mws) \<in> set (routes a)" "r_method (route_of (m, p, h, mws)) = m"
      "matches (r_path (route_of (m, p, h, mws))) path = Some cs"
    using a(3) spec by (simp, simp_all add: route_of_def)
  from only_match [OF a(1,2) ps(1) r same] have "\<exists>ps'. lookupEntry a m path ps = (Some (compiled_entry a (route_of (m, p, h, mws))), ps')
      \<and> clean ps' \<and> entries ps' = entries ps @ cs" .
  moreover have "re_h (compiled_entry a (route_of (m, p, h, mws))) = Compile h mws"
    using a(4) by (simp add: compiled_entry_def route_of_def middlewareFor_def groupChain_def)
  ultimately show ?thesis using ps(2) by auto
qed

lemma miss_handler:
  assumes a: "reachable nf a" "built a" "routes a = map route_of specs" "app_mws a = []"
    and none: "list_all (\<lambda>(m', p', _, _). m' = m \<longrightarrow> matches p' path = None) specs"
    and ps: "clean ps" "entries ps = []"
  shows "\<exists>e ps'. lookupEntry a m path ps = (e, ps') \<and> clean ps' \<and> entries ps' = []
    \<and> (case e of None \<Rightarrow> miss a | Some en \<Rightarrow> re_h en) = nf"
proof -
  obtain e ps' where l: "lookupEntry a m path ps = (e, ps')" by fastforce
  have "\<forall>r\<in>set (routes a). r_method r = m \<longrightarrow> matches (r_path r) path = None"
    using none a(3) by (auto simp: route_of_def list_all_iff split: prod.splits)
  then have e: "e = None" using dispatch_miss [OF a(1,2) ps(1), of m path] l by simp
  have "miss a = nf"
    using inv_App_reachable [OF a(1)] a(2,4) by (simp add: inv_App_def)
  moreover have "clean ps'" "entries ps' = []"
    using Lookup_miss [OF built_routes(1) [OF a(1,2)] ps(1), of m path ps'] l e ps(2)
    by (simp_all add: lookupEntry_treeFor)
  ultimately show ?thesis using l e by simp
qed

text \<open>Which routes the paths of the scenarios match.\<close>

lemma matches_hello:
  "matches ''/hello'' ''/hello'' = Some []" "matches ''/users/:id'' ''/hello'' = None"
  "matches ''/mw'' ''/hello'' = None" "matches ''/json'' ''/hello'' = None"
  by code_simp+

lemma matches_users:
  "matches ''/hello'' ''/users/42'' = None" "matches ''/users/:id'' ''/users/42'' = Some [\<lparr>Key = ''id'', Value = ''42''\<rparr>]"
  "matches ''/mw'' ''/users/42'' = None" "matches ''/json'' ''/users/42'' = None"
  by code_simp+

lemma matches_mw:
  "matches ''/hello'' ''/mw'' = None" "matches ''/users/:id'' ''/mw'' = None"
  "matches ''/mw'' ''/mw'' = Some []" "matches ''/json'' ''/mw'' = None"
  by code_simp+

lemma matches_nope:
  "matches ''/hello'' ''/nope'' = None" "matches ''/users/:id'' ''/nope'' = None"
  "matches ''/mw'' ''/nope'' = None" "matches ''/json'' ''/nope'' = None"
  by code_simp+

lemma matches_json:
  "matches ''/hello'' ''/json'' = None" "matches ''/users/:id'' ''/json'' = None"
  "matches ''/mw'' ''/json'' = None" "matches ''/json'' ''/json'' = Some []" "matches ''/echo-len'' ''/echo-len'' = Some []"
  by code_simp+

lemmas matches_small = matches_hello matches_users matches_mw matches_nope matches_json

section \<open>What the handlers write\<close>

lemma Bytes_bound [bound_calls]:
  "bound c \<Longrightarrow> Bytes dbg F code b c = (Ret None, on_req (\<lambda>w. f_SetBody F b (f_SetStatusCode F code w)) c)"
  by (simp add: Bytes_def bound_calls)

lemma handlers_write:
  assumes "bound c"
  shows "hello_h dbg F c = (Ret None, on_req (\<lambda>w. f_SetBody F ''hello'' (f_SetContentType F MIMETextPlainUTF8 (f_SetStatusCode F 200 w))) c)"
    "ok_h dbg F c = (Ret None, on_req (\<lambda>w. f_SetBody F ''ok'' (f_SetContentType F MIMETextPlainUTF8 (f_SetStatusCode F 200 w))) c)"
    "json_h dbg F (Inr b) c = (Ret None, on_req (\<lambda>w. f_SetBody F b (f_SetStatusCode F 200 (f_SetContentType F ''application/json'' w))) c)"
    "echo_h dbg F c = (Ret None, on_req (\<lambda>w. f_SetBody F (itoa (int (length (f_PostBody F (req c)))))
       (f_SetContentType F MIMETextPlainUTF8 (f_SetStatusCode F 200 w))) c)"
    "entries (params c) = [\<lparr>Key = ''id'', Value = v\<rparr>] \<Longrightarrow>
       user_h dbg F c = (Ret None, on_req (\<lambda>w. f_SetBody F v (f_SetStatusCode F 200 w)) c)"
  using assms
  by (simp_all add: hello_h_def ok_h_def json_h_def echo_h_def user_h_def Ctx_Param_def SetContentType_def Get_def bound_calls)

lemma itoa_65536: "itoa 65536 = ''65536''"
proof -
  have "char_of (51::nat) = CHR ''3''" "char_of (53::nat) = CHR ''5''" "char_of (54::nat) = CHR ''6''"
    by code_simp+
  then show ?thesis by (simp add: itoa_def digits.simps)
qed

section \<open>The equivalence gate\<close>

text \<open>What \<open>Do\<close> relies on of fasthttp: the request of a scenario is the one that was set.\<close>

definition request_law :: "('w, 's) fasthttp \<Rightarrow> 'w new_request \<Rightarrow> Scenario \<Rightarrow> bool" where
  "request_law F mk s \<longleftrightarrow>
     (let w = mk (sc_Method s) (sc_Path s) (sc_Body s) in
        f_Method F w = sc_Method s \<and> f_Path F w = sc_Path s
        \<and> f_PostBody F w = (case sc_Body s of None \<Rightarrow> [] | Some b \<Rightarrow> b))"

lemma built_server:
  assumes "in_turn (New notFound) (calls_of specs) = (None, b)"
    and "(case app of
            Small \<Rightarrow> small_routes (hello_h dbg F) (user_h dbg F) (ok_h dbg F) (json_h dbg F j) (echo_h dbg F) riceNoop (New notFound)
          | GitHub \<Rightarrow> github_routes (ok_h dbg F) (New notFound)) = in_turn (New notFound) (calls_of specs)"
  shows "buildRice dbg F j stack i pool app =
    Inr (Fasthttp (\<lambda>w. case handle dbg F (DefaultErrorHandler F) stack False (snd (Build notFound b)) i pool w of
                            (r, _, w') \<Rightarrow> (r, w')))"
proof -
  obtain a where "Build notFound b = (None, a)" using built_specs(5) [OF assms(1) refl] by blast
  then show ?thesis using assms by (simp add: buildRice_def FasthttpHandler_def New_conf_def)
qed

lemma check_passes:
  assumes "snd (snd (serve i pool w)) = w1" "fst (serve i pool w) = Ret ()" "w = mk (sc_Method s) (sc_Path s) (sc_Body s)"
    and "f_StatusCode F w1 = sc_Status s" "sc_StatusOnly s \<or> trim_newline (f_Body F w1) = sc_Want s"
  shows "CheckServer F mk name (Fasthttp (\<lambda>w. case serve i pool w of (r, _, w') \<Rightarrow> (r, w'))) s = Ret None"
proof -
  obtain q where "serve i pool w = (Ret (), q, w1)" using assms(1,2) by (metis prod.collapse)
  then show ?thesis using assms(3-5) by (auto simp: CheckServer_def Do_def)
qed

text \<open>A scenario whose route's handler writes the answer, with \<open>g\<close>.\<close>

lemma scenario_hit:
  assumes a: "reachable notFound a" "built a" "\<forall>d\<in>set pool. blank d"
    and req: "request_law F mk s"
    and look: "\<And>ps. clean ps \<Longrightarrow> entries ps = [] \<Longrightarrow>
      \<exists>e ps'. lookupEntry a (sc_Method s) (sc_Path s) ps = (e, ps') \<and> clean ps' \<and> K (entries ps')
        \<and> (case e of None \<Rightarrow> miss a | Some en \<Rightarrow> re_h en) = h"
    and h: "\<And>c. bound c \<Longrightarrow> f_PostBody F (req c) = (case sc_Body s of None \<Rightarrow> [] | Some b \<Rightarrow> b) \<Longrightarrow>
      K (entries (params c)) \<Longrightarrow> h c = (Ret None, on_req g c)"
    and read: "\<And>w. f_StatusCode F (g w) = sc_Status s" "\<And>w. trim_newline (f_Body F (g w)) = sc_Want s"
  shows "CheckServer F mk name
     (Fasthttp (\<lambda>w. case handle dbg F (DefaultErrorHandler F) stack False a i pool w of (r, _, w') \<Rightarrow> (r, w'))) s = Ret None"
proof -
  let ?w = "mk (sc_Method s) (sc_Path s) (sc_Body s)"
  have w: "f_Method F ?w = sc_Method s" "f_Path F ?w = sc_Path s"
      "f_PostBody F ?w = (case sc_Body s of None \<Rightarrow> [] | Some b \<Rightarrow> b)"
    using req by (simp_all add: request_law_def Let_def)
  have h': "h c = (Ret None, on_req g c)" if "bound c" "req c = ?w" "K (entries (params c))" for c
    using h [of c] that w(3) by simp
  have out: "fst (handle dbg F (DefaultErrorHandler F) stack False a i pool ?w) = Ret ()
      \<and> snd (snd (handle dbg F (DefaultErrorHandler F) stack False a i pool ?w)) = (if None = (None :: go_error option) then g ?w else refusal F 0 [] (g ?w))"
    by (rule handle_returned [where K = K and h = h, OF a]) (use look h' w(1,2) in simp_all)
  show ?thesis by (rule check_passes [where w = ?w and ?w1.0 = "g ?w"]) (use out read in simp_all)
qed

lemma notFound_bound: "bound c \<Longrightarrow> notFound c = (Ret (Some ErrNotFound), on_req (\<lambda>w. w) c)"
  by (auto simp: notFound_def on_req_def req_def bound_def)

lemma scenario_miss:
  assumes a: "reachable notFound a" "built a" "\<forall>d\<in>set pool. blank d" "response_laws F"
    and req: "request_law F mk s" "sc_Status s = 404" "sc_StatusOnly s"
    and look: "\<And>ps. clean ps \<Longrightarrow> entries ps = [] \<Longrightarrow>
      \<exists>e ps'. lookupEntry a (sc_Method s) (sc_Path s) ps = (e, ps') \<and> clean ps' \<and> entries ps' = []
        \<and> (case e of None \<Rightarrow> miss a | Some en \<Rightarrow> re_h en) = notFound"
  shows "CheckServer F mk name
     (Fasthttp (\<lambda>w. case handle dbg F (DefaultErrorHandler F) stack False a i pool w of (r, _, w') \<Rightarrow> (r, w'))) s = Ret None"
proof -
  let ?w = "mk (sc_Method s) (sc_Path s) (sc_Body s)"
  have w: "f_Method F ?w = sc_Method s" "f_Path F ?w = sc_Path s"
    using req(1) by (simp_all add: request_law_def Let_def)
  have out: "fst (handle dbg F (DefaultErrorHandler F) stack False a i pool ?w) = Ret ()
      \<and> snd (snd (handle dbg F (DefaultErrorHandler F) stack False a i pool ?w)) =
          (if Some ErrNotFound = None then ?w else refusal F 404 ''Not Found'' ?w)"
    by (rule handle_returned [where K = "\<lambda>es. es = []" and h = notFound and g = "\<lambda>w. w", OF a(1-3)])
      (use look notFound_bound w(1,2) in \<open>simp_all add: ErrNotFound_def validStatus_def\<close>)
  show ?thesis
    by (rule check_passes [where w = ?w and ?w1.0 = "refusal F 404 ''Not Found'' ?w"])
      (use out req(2,3) refusal_read(1) [OF a(4)] in simp_all)
qed

text \<open>The handlers' writes, read back.\<close>

lemma answers_read:
  assumes "response_laws F"
  shows "f_StatusCode F (f_SetBody F b (f_SetContentType F t (f_SetStatusCode F 200 w))) = 200"
    "f_StatusCode F (f_SetBody F b (f_SetStatusCode F 200 w)) = 200"
    "f_Body F (f_SetBody F b w) = b"
  using assms by (simp_all add: response_laws_def)

lemmas json_read = answers_read(2,3)

lemma trimmed:
  "trim_newline ''hello'' = ''hello''" "trim_newline ''42'' = ''42''" "trim_newline ''ok'' = ''ok''"
  "trim_newline json_want = json_want" "trim_newline ''65536'' = ''65536''"
  by (simp_all add: trim_newline_def json_want_def)

text \<open>The routes that the paths of the scenarios reach.\<close>

definition small_targets :: "(string \<times> string \<times> string \<times> Param list) list" where
  "small_targets =
     [(''GET'', ''/hello'', ''/hello'', []), (''GET'', ''/mw'', ''/mw'', []), (''GET'', ''/json'', ''/json'', []),
      (''POST'', ''/echo-len'', ''/echo-len'', []), (''GET'', ''/users/:id'', ''/users/42'', [\<lparr>Key = ''id'', Value = ''42''\<rparr>])]"

lemma small_hits:
  assumes "(m, p, path, cs) \<in> set small_targets"
  shows "matches p path = Some cs"
    "list_all (\<lambda>(m', p', _, _). m' = m \<longrightarrow> p' \<noteq> p \<longrightarrow> matches p' path = None) (small_specs h1 h2 h3 h4 h5 mw)"
  using assms by (auto simp: small_specs_def small_targets_def matches_small)

lemma scenario_App: "sc_App (scenario n GitHub m path body status want b) \<noteq> Small"
  by (simp add: scenario_def)

lemma small_cases [consumes 2]:
  assumes "s \<in> set Scenarios" "sc_App s = Small"
  obtains "s = scenario ''static'' Small ''GET'' ''/hello'' None 200 ''hello'' False"
    | "s = scenario ''param'' Small ''GET'' ''/users/42'' None 200 ''42'' False"
    | "s = scenario ''middleware5'' Small ''GET'' ''/mw'' None 200 ''ok'' False"
    | "s = scenario ''notfound'' Small ''GET'' ''/nope'' None 404 [] True"
    | "s = scenario ''json'' Small ''GET'' ''/json'' None 200 json_want False"
    | "s = scenario ''body64k'' Small ''POST'' ''/echo-len'' (Some body64k) 200 ''65536'' False"
  using assms scenario_App unfolding Scenarios_def set_simps insert_iff empty_iff by blast

lemma small_none:
  "list_all (\<lambda>(m', p', _, _). m' = ''GET'' \<longrightarrow> matches p' ''/nope'' = None) (small_specs h1 h2 h3 h4 h5 mw)"
  by (simp add: small_specs_def matches_small)

lemma github_routes_specs:
  "github_routes ok a = in_turn a (calls_of (map (\<lambda>(m, path). (m, path, ok, [])) githubAPI))"
  by (simp add: github_routes_def calls_of_def comp_def case_prod_unfold Handle_def)

lemma github_target:
  "(''GET'', ''/repos/:owner/:repo/pulls/:number/comments'') \<in> set githubAPI"
  "matches ''/repos/:owner/:repo/pulls/:number/comments'' githubTarget \<noteq> None"
  by (simp add: githubAPI_def, code_simp)

lemma github_lookup:
  assumes a: "reachable nf a" "built a" "routes a = map route_of (map (\<lambda>(m, path). (m, path, ok, [])) githubAPI)" "app_mws a = []"
    and ps: "clean ps"
  shows "\<exists>e ps'. lookupEntry a ''GET'' githubTarget ps = (e, ps') \<and> clean ps'
    \<and> (case e of None \<Rightarrow> miss a | Some en \<Rightarrow> re_h en) = ok"
proof -
  note tab = built_routes [OF a(1,2)]
  let ?p = "''/repos/:owner/:repo/pulls/:number/comments''"
  have "route_of (''GET'', ?p, ok, []) \<in> set (routes a)" unfolding a(3) using github_target(1) by force
  then obtain e ps' where look: "lookupEntry a ''GET'' githubTarget ps = (Some e, ps')"
    using dispatch_miss [OF a(1,2) ps, of "''GET''" githubTarget] github_target(2)
    by (cases "lookupEntry a ''GET'' githubTarget ps") (force simp: route_of_def)
  then obtain p where p: "registered (treeFor a ''GET'') p = Some e" "clean ps'"
    using Lookup_hit [OF tab(1) ps] by (force simp: lookupEntry_treeFor)
  then obtain r where "r \<in> set (routes a)" "compiled_entry a r = e" using tab(2) by blast
  then have "re_h e = ok"
    unfolding a(3) using a(4) by (auto simp: compiled_entry_def route_of_def middlewareFor_def groupChain_def)
  then show ?thesis using look p(2) by simp
qed

text \<open>A scenario of the small App whose route answers it.\<close>

lemma small_hit:
  assumes App: "reachable notFound a" "built a" "routes a = map route_of (small_specs h1 h2 h3 h4 h5 mw)" "app_mws a = []"
    and pool: "\<forall>d\<in>set pool. blank d" and req: "request_law F mk s"
    and spec: "(sc_Method s, p, h, mws) \<in> set (small_specs h1 h2 h3 h4 h5 mw)" "(sc_Method s, p, sc_Path s, cs) \<in> set small_targets"
    and h: "\<And>c. bound c \<Longrightarrow> f_PostBody F (req c) = (case sc_Body s of None \<Rightarrow> [] | Some b \<Rightarrow> b) \<Longrightarrow>
      entries (params c) = cs \<Longrightarrow> Compile h mws c = (Ret None, on_req g c)"
    and read: "\<And>w. f_StatusCode F (g w) = sc_Status s" "\<And>w. trim_newline (f_Body F (g w)) = sc_Want s"
  shows "CheckServer F mk name
     (Fasthttp (\<lambda>w. case handle dbg F (DefaultErrorHandler F) stack False a i pool w of (r, _, w') \<Rightarrow> (r, w'))) s = Ret None"
  by (rule scenario_hit [where K = "\<lambda>es. es = cs" and h = "Compile h mws", OF App(1,2) pool req
      hit_handler [OF App spec(1) small_hits [OF spec(2)]] h read])

lemma small_answers:
  assumes F: "response_laws F" and req: "request_law F mk s" and pool: "\<forall>d\<in>set pool. blank d"
    and s: "s \<in> set Scenarios" "sc_App s = Small"
    and App: "reachable notFound a" "built a" "app_mws a = []"
      "routes a = map route_of (small_specs (hello_h dbg F) (user_h dbg F) (ok_h dbg F) (json_h dbg F (Inr json_want)) (echo_h dbg F) riceNoop)"
  shows "CheckServer F mk name
     (Fasthttp (\<lambda>w. case handle dbg F (DefaultErrorHandler F) stack False a i pool w of (r, _, w') \<Rightarrow> (r, w'))) s = Ret None"
  using s
proof (cases rule: small_cases)
  note hit = small_hit [OF App(1,2,4,3) pool req]
  note scenario = scenario_def small_specs_def small_targets_def handlers_write answers_read [OF F] trimmed
  {
    case 1
    show ?thesis by (rule hit [of "''/hello''" "hello_h dbg F" "[]" "[]"]) (simp_all add: 1 scenario)+
  next
    case 2
    show ?thesis by (rule hit [of "''/users/:id''" "user_h dbg F" "[]" "[\<lparr>Key = ''id'', Value = ''42''\<rparr>]"]) (simp_all add: 2 scenario)+
  next
    case 3
    show ?thesis
      by (rule hit [of "''/mw''" "ok_h dbg F" "[riceNoop, riceNoop, riceNoop, riceNoop, riceNoop]" "[]"])
        (simp_all add: 3 scenario riceNoop_def)+
  next
    case 4
    then show ?thesis
      using miss_handler [OF App(1,2,4,3) small_none] by (intro scenario_miss [OF App(1,2) pool F req]) (simp_all add: scenario_def)
  next
    case 5
    show ?thesis by (rule hit [of "''/json''" "json_h dbg F (Inr json_want)" "[]" "[]"]) (simp_all add: 5 scenario)+
  next
    case 6
    show ?thesis by (rule hit [of "''/echo-len''" "echo_h dbg F" "[]" "[]"]) (simp_all add: 6 scenario body64k_def itoa_65536)+
  }
qed

lemma small_passes:
  fixes pool :: "('w, 'x, 'v, 's) Ctx list"
  assumes F: "response_laws F" and req: "request_law F mk s" and pool: "\<forall>d\<in>set pool. blank d"
    and s: "s \<in> set Scenarios" "sc_App s = Small"
  shows "\<exists>srv. buildRice dbg F (Inr json_want) stack i pool Small = Inr srv \<and> CheckServer F mk name srv s = Ret None"
proof -
  let ?H = "small_specs (hello_h dbg F) (user_h dbg F) (ok_h dbg F) (json_h dbg F (Inr json_want)) (echo_h dbg F) riceNoop
    :: (string \<times> string \<times> ('w, 'x, 'v, 's) Handler \<times> ('w, 'x, 'v, 's) Handler middleware list) list"
  obtain b where b: "in_turn (New notFound) (calls_of ?H) = (None, b)"
    using small_routes_ok unfolding small_routes_specs by (metis prod.collapse)
  define a where "a = snd (Build notFound b)"
  note App = built_specs(1-4) [OF b a_def]
  show ?thesis
    using small_answers [OF F req pool s App(1,2,4,3)] built_server [OF b, where app = Small and j = "Inr json_want"]
    by (simp add: small_routes_specs a_def)
qed

lemma github_passes:
  fixes pool :: "('w, 'x, 'v, 's) Ctx list"
  assumes F: "response_laws F" and req: "request_law F mk s" and pool: "\<forall>d\<in>set pool. blank d"
    and s: "s \<in> set Scenarios" "sc_App s = GitHub"
    and srv: "buildRice dbg F j stack i pool GitHub = Inr srv"
  shows "CheckServer F mk name srv s = Ret None"
proof -
  let ?H = "map (\<lambda>(m, path). (m, path, ok_h dbg F, [])) githubAPI
    :: (string \<times> string \<times> ('w, 'x, 'v, 's) Handler \<times> ('w, 'x, 'v, 's) Handler middleware list) list"
  obtain b where b: "in_turn (New notFound) (calls_of ?H) = (None, b)"
    using srv by (auto simp: buildRice_def github_routes_specs split: prod.splits option.splits)
  define a where "a = snd (Build notFound b)"
  note App = built_specs(1-4) [OF b a_def]
  have s_def: "s = scenario ''githubapi'' GitHub ''GET'' githubTarget None 200 ''ok'' False"
    using s(1) unfolding Scenarios_def set_simps insert_iff empty_iff by (elim disjE) (use s(2) in \<open>simp_all add: scenario_def\<close>)
  have "CheckServer F mk name
      (Fasthttp (\<lambda>w. case handle dbg F (DefaultErrorHandler F) stack False a i pool w of (r, _, w') \<Rightarrow> (r, w'))) s = Ret None"
    by (rule scenario_hit [where K = "\<lambda>_. True" and h = "ok_h dbg F", OF App(1,2) pool req])
      (use github_lookup [OF App] in \<open>simp_all add: s_def scenario_def handlers_write(2) answers_read [OF F] trimmed\<close>)+
  then show ?thesis
    using built_server [OF b, where app = GitHub] srv by (simp add: github_routes_specs a_def)
qed



end
