(* ===== verification/Summary.thy ===== *)
theory Summary
  imports Bench_Scenarios "HOL-Library.AList" "HOL-Library.Multiset"
begin

text \<open>
  \<open>Summarize\<close> of \<open>bench/compare/summarize.go\<close>: result lines in, Markdown tables out. A float64
  is a value of an arbitrary linear order, the one \<open>sort.Float64s\<close> sorts by; parsing one,
  halving a sum and printing with \<open>%.0f\<close> are the record \<open>floats\<close>. The lines and the final error
  are those the Scanner gives.
\<close>

section \<open>Fields and integers\<close>

text \<open>
  How many bytes of a white space rune a text starts with, zero for none: the ASCII spaces
  and the UTF-8 encodings of the others \<open>unicode.IsSpace\<close> knows.
\<close>

fun space_len :: "string \<Rightarrow> nat" where
  "space_len [] = 0"
| "space_len (c # cs) =
     (let b = of_char c :: nat in
      if 9 \<le> b \<and> b \<le> 13 \<or> b = 32 then 1
      else case map of_char cs of
        [] \<Rightarrow> 0
      | b1 # rest \<Rightarrow>
          if b = 0xC2 \<and> (b1 = 0x85 \<or> b1 = 0xA0) then 2
          else case rest of
            [] \<Rightarrow> 0
          | b2 # _ \<Rightarrow>
              if b = 0xE1 \<and> b1 = 0x9A \<and> b2 = 0x80
                 \<or> b = 0xE2 \<and> b1 = 0x80 \<and> (0x80 \<le> b2 \<and> b2 \<le> 0x8A \<or> b2 = 0xA8 \<or> b2 = 0xA9 \<or> b2 = 0xAF)
                 \<or> b = 0xE2 \<and> b1 = 0x81 \<and> b2 = (0x9F :: nat)
                 \<or> b = 0xE3 \<and> b1 = 0x80 \<and> b2 = 0x80
              then 3 else 0)"

function fields_from :: "string \<Rightarrow> string \<Rightarrow> string list" where
  "fields_from cur [] = (if cur = [] then [] else [cur])"
| "fields_from cur (c # cs) =
     (if space_len (c # cs) = 0 then fields_from (cur @ [c]) cs
      else (if cur = [] then [] else [cur]) @ fields_from [] (drop (space_len (c # cs) - 1) cs))"
  by pat_completeness auto

termination by (relation "measure (\<lambda>(_, cs). length cs)") auto

definition Fields :: "string \<Rightarrow> string list" where
  "Fields s = fields_from [] s"

fun digits_value :: "int \<Rightarrow> string \<Rightarrow> int option" where
  "digits_value n [] = Some n"
| "digits_value n (c # cs) =
     (let b = of_char c :: nat in if 48 \<le> b \<and> b \<le> 57 then digits_value (10 * n + (int b - 48)) cs else None)"

definition Atoi :: "string \<Rightarrow> int option" where
  "Atoi s =
     (let neg = (s \<noteq> [] \<and> hd s = CHR ''-'');
          ds = (if s \<noteq> [] \<and> (hd s = CHR ''-'' \<or> hd s = CHR ''+'') then tl s else s)
      in if ds = [] then None
         else case digits_value 0 ds of
           None \<Rightarrow> None
         | Some n \<Rightarrow> (let v = (if neg then - n else n) in if - (2 ^ 63) \<le> v \<and> v < 2 ^ 63 then Some v else None))"

section \<open>Samples\<close>

record 'f sample =
  s_rps :: 'f
  s_p50 :: 'f
  s_p99 :: 'f

record 'f floats =
  ParseFloat :: "string \<Rightarrow> 'f option"
  half_sum :: "'f \<Rightarrow> 'f \<Rightarrow> 'f"
  print_0f :: "'f \<Rightarrow> string"

datatype summary_error =
    FieldCount nat nat string
  | BadRound nat string
  | BadNumber nat nat string
  | UnknownFramework nat string
  | UnknownScenario nat string
  | ScanError string

fun parse_nums :: "'f floats \<Rightarrow> nat \<Rightarrow> nat \<Rightarrow> string list \<Rightarrow> summary_error + 'f list" where
  "parse_nums F line i [] = Inr []"
| "parse_nums F line i (s # ss) =
     (case ParseFloat F s of
        None \<Rightarrow> Inl (BadNumber line (i + 4) s)
      | Some v \<Rightarrow> (case parse_nums F line (Suc i) ss of Inl e \<Rightarrow> Inl e | Inr vs \<Rightarrow> Inr (v # vs)))"

text \<open>One turn of the reading loop, up to what it stores: nothing for a blank line.\<close>

definition parse_line :: "'f floats \<Rightarrow> nat \<Rightarrow> string \<Rightarrow> summary_error + (string \<times> string \<times> 'f sample) option" where
  "parse_line F line s =
     (let f = Fields s in
      if f = [] then Inr None
      else if length f \<noteq> 6 then Inl (FieldCount line (length f) s)
      else if Atoi (f ! 2) = None then Inl (BadRound line (f ! 2))
      else case parse_nums F line 0 (drop 3 f) of
        Inl e \<Rightarrow> Inl e
      | Inr nums \<Rightarrow>
          if TargetByName (f ! 0) = None then Inl (UnknownFramework line (f ! 0))
          else if ScenarioByName (f ! 1) = None then Inl (UnknownScenario line (f ! 1))
          else Inr (Some (f ! 0, f ! 1, \<lparr>s_rps = nums ! 0, s_p50 = nums ! 1, s_p99 = nums ! 2\<rparr>)))"

type_synonym 'f samples = "(string \<times> (string \<times> 'f sample list) list) list"

definition lookup_or :: "'b \<Rightarrow> ('a \<times> 'b) list \<Rightarrow> 'a \<Rightarrow> 'b" where
  "lookup_or d m k = (case map_of m k of None \<Rightarrow> d | Some v \<Rightarrow> v)"

definition add_sample :: "'f samples \<Rightarrow> string \<Rightarrow> string \<Rightarrow> 'f sample \<Rightarrow> 'f samples" where
  "add_sample m fw scen x =
     (let byFw = lookup_or [] m scen
      in AList.update scen (AList.update fw (lookup_or [] byFw fw @ [x]) byFw) m)"

fun read_lines :: "'f floats \<Rightarrow> nat \<Rightarrow> 'f samples \<Rightarrow> string list \<Rightarrow> summary_error + 'f samples" where
  "read_lines F line m [] = Inr m"
| "read_lines F line m (s # ss) =
     (case parse_line F line s of
        Inl e \<Rightarrow> Inl e
      | Inr None \<Rightarrow> read_lines F (Suc line) m ss
      | Inr (Some (fw, scen, x)) \<Rightarrow> read_lines F (Suc line) (add_sample m fw scen x) ss)"

section \<open>Tables\<close>

definition pick_field :: "'f sample list \<Rightarrow> ('f sample \<Rightarrow> 'f) \<Rightarrow> ('f::linorder) list" where
  "pick_field xs field = sort (map field xs)"

definition median :: "'f floats \<Rightarrow> 'f list \<Rightarrow> 'f" where
  "median F xs =
     (let n = length xs in
      if n mod 2 = 1 then xs ! (n div 2) else half_sum F (xs ! (n div 2 - 1)) (xs ! (n div 2)))"

definition header_rows :: string where
  "header_rows =
     ''| framework | req/s (median) | req/s (min'' @ [CHR 0xE2, CHR 0x80, CHR 0x93] @ ''max) | p50 '' @ [CHR 0xC2, CHR 0xB5]
     @ ''s (median) | p99 '' @ [CHR 0xC2, CHR 0xB5] @ ''s (median) |'' @ [CHR 0x0A] @ ''| --- | ---: | --- | ---: | ---: |'' @ [CHR 0x0A]"

definition row_text :: "'f::linorder floats \<Rightarrow> string \<Rightarrow> 'f sample list \<Rightarrow> string" where
  "row_text F fw rounds =
     (if rounds = [] then []
      else let rps = pick_field rounds s_rps
        in ''| '' @ fw @ '' | '' @ print_0f F (median F rps) @ '' | '' @ print_0f F (rps ! 0) @ [CHR 0xE2, CHR 0x80, CHR 0x93]
           @ print_0f F (rps ! (length rps - 1)) @ '' | '' @ print_0f F (median F (pick_field rounds s_p50)) @ '' | ''
           @ print_0f F (median F (pick_field rounds s_p99)) @ '' |'' @ [CHR 0x0A])"

definition table_text :: "'f::linorder floats \<Rightarrow> 'f samples \<Rightarrow> Scenario \<Rightarrow> string" where
  "table_text F m s =
     (let byFw = lookup_or [] m (sc_Name s) in
      if byFw = [] then []
      else ''## '' @ sc_Name s @ [CHR 0x0A, CHR 0x0A] @ header_rows
        @ concat (map (\<lambda>t. row_text F t (lookup_or [] byFw t)) Targets) @ [CHR 0x0A])"

definition Summarize :: "'f::linorder floats \<Rightarrow> string list \<Rightarrow> string option \<Rightarrow> summary_error option \<times> string" where
  "Summarize F lines scan_err =
     (case read_lines F 1 [] lines of
        Inl e \<Rightarrow> (Some e, [])
      | Inr m \<Rightarrow>
          (case scan_err of
             Some e \<Rightarrow> (Some (ScanError e), [])
           | None \<Rightarrow> (None, concat (map (table_text F m) Scenarios))))"

section \<open>What is stored\<close>

definition reading :: "'f floats \<Rightarrow> string \<Rightarrow> (string \<times> string \<times> 'f sample) option" where
  "reading F s = (case parse_line F 0 s of Inl _ \<Rightarrow> None | Inr r \<Rightarrow> r)"

text \<open>The rounds of one framework in one scenario, in the order of the lines.\<close>

definition rounds_of :: "'f floats \<Rightarrow> string list \<Rightarrow> string \<Rightarrow> string \<Rightarrow> 'f sample list" where
  "rounds_of F lines fw scen =
     map (snd \<circ> snd) (filter (\<lambda>(f, s, _). f = fw \<and> s = scen) (List.map_filter (reading F) lines))"

lemma parse_nums_line: "parse_nums F line i ss = Inr vs \<Longrightarrow> parse_nums F line' i ss = Inr vs"
proof (induction ss arbitrary: i vs)
  case (Cons s ss)
  then obtain v ws where "ParseFloat F s = Some v" "parse_nums F line (Suc i) ss = Inr ws" "vs = v # ws"
    by (auto split: option.splits sum.splits)
  then show ?case using Cons.IH by simp
qed simp

lemma parse_line_reading:
  assumes "parse_line F line s = Inr r"
  shows "reading F s = r"
proof (cases "Fields s = []")
  case False
  then obtain nums where "parse_nums F line 0 (drop 3 (Fields s)) = Inr nums"
    using assms by (auto simp: parse_line_def Let_def split: sum.splits if_splits)
  then show ?thesis
    using False assms parse_nums_line [of F line 0 _ nums 0] by (auto simp: reading_def parse_line_def Let_def split: if_splits)
qed (use assms in \<open>simp add: reading_def parse_line_def\<close>)

lemma reading_known:
  "reading F s = Some (fw, scen, x) \<Longrightarrow> fw \<in> set Targets \<and> scen \<in> sc_Name ` set Scenarios"
  by (auto simp: reading_def parse_line_def Let_def TargetByName_def ScenarioByName_def find_None_iff
      split: sum.splits if_splits)

lemma reading_blank: "parse_line F line s = Inr r \<Longrightarrow> r = None \<longleftrightarrow> Fields s = []"
  by (auto simp: parse_line_def Let_def split: sum.splits if_splits)

lemma rounds_of_simps [simp]:
  "rounds_of F [] fw scen = []"
  "rounds_of F (l # ls) fw scen =
     (case reading F l of Some (f, s, x) \<Rightarrow> if f = fw \<and> s = scen then [x] else [] | None \<Rightarrow> []) @ rounds_of F ls fw scen"
  by (auto simp: rounds_of_def List.map_filter_def split: option.split prod.split)

definition stored :: "'f samples \<Rightarrow> string \<Rightarrow> string \<Rightarrow> 'f sample list" where
  "stored m fw scen = lookup_or [] (lookup_or [] m scen) fw"

lemma lookup_or_update [simp]: "lookup_or d (AList.update k v m) k' = (if k' = k then v else lookup_or d m k')"
  by (simp add: lookup_or_def update_conv')

lemma stored_add:
  "stored (add_sample m fw scen x) fw' scen' =
     stored m fw' scen' @ (if fw' = fw \<and> scen' = scen then [x] else [])"
  by (simp add: stored_def add_sample_def Let_def)

text \<open>A scenario's map is there exactly when it has a round.\<close>

definition inv_samples :: "'f samples \<Rightarrow> bool" where
  "inv_samples m \<longleftrightarrow> (\<forall>scen. lookup_or [] m scen = [] \<longleftrightarrow> (\<forall>fw\<in>set Targets. stored m fw scen = []))"

lemma update_nonempty [simp]: "AList.update k v m \<noteq> []"
  by (cases m) auto

lemma inv_add:
  assumes "inv_samples m" "fw \<in> set Targets"
  shows "inv_samples (add_sample m fw scen x)"
  unfolding inv_samples_def
proof
  fix scen'
  show "lookup_or [] (add_sample m fw scen x) scen' = [] \<longleftrightarrow>
      (\<forall>fw'\<in>set Targets. stored (add_sample m fw scen x) fw' scen' = [])"
  proof (cases "scen' = scen")
    case True
    have "lookup_or [] (add_sample m fw scen x) scen \<noteq> []" by (simp add: add_sample_def Let_def)
    then show ?thesis using True assms(2) by (auto simp: stored_add)
  next
    case False
    then have "lookup_or [] (add_sample m fw scen x) scen' = lookup_or [] m scen'"
      by (simp add: add_sample_def Let_def)
    then show ?thesis using False assms(1) by (simp add: stored_add inv_samples_def)
  qed
qed

lemma read_lines_ok:
  "read_lines F line m lines = Inr m' \<Longrightarrow> inv_samples m \<Longrightarrow>
     inv_samples m' \<and> (\<forall>fw scen. stored m' fw scen = stored m fw scen @ rounds_of F lines fw scen)
     \<and> (\<forall>i<length lines. \<exists>r. parse_line F (line + i) (lines ! i) = Inr r)"
proof (induction lines arbitrary: line m)
  case (Cons s ss)
  obtain r where r: "parse_line F line s = Inr r" using Cons.prems(1) by (auto split: sum.splits)
  note rd = parse_line_reading [OF r]
  obtain m1 where m1: "read_lines F (Suc line) m1 ss = Inr m'" "inv_samples m1"
      "\<And>fw scen. stored m1 fw scen = stored m fw scen @ rounds_of F [s] fw scen"
  proof (cases r)
    case None
    then show thesis using that [of m] Cons.prems r rd by simp
  next
    case (Some q)
    obtain fw scen x where q: "q = (fw, scen, x)" by (cases q)
    then show thesis
      using that [of "add_sample m fw scen x"] Some Cons.prems r rd reading_known [of F s fw scen x] inv_add [of m fw scen x]
      by (simp add: stored_add eq_commute)
  qed
  have "\<exists>r. parse_line F (line + i) ((s # ss) ! i) = Inr r" if "i < length (s # ss)" for i
    using that r Cons.IH [OF m1(1,2)] by (cases i) auto
  then show ?case using Cons.IH [OF m1(1,2)] m1(3) by auto
qed simp

lemma read_lines_err:
  "read_lines F line m lines = Inl e \<Longrightarrow>
     \<exists>i<length lines. parse_line F (line + i) (lines ! i) = Inl e \<and> (\<forall>j<i. \<exists>r. parse_line F (line + j) (lines ! j) = Inr r)"
proof (induction lines arbitrary: line m)
  case (Cons s ss)
  show ?case
  proof (cases "parse_line F line s")
    case (Inl e')
    then show ?thesis using Cons.prems by (intro exI [of _ 0]) simp
  next
    case (Inr r)
    then obtain m1 where "read_lines F (Suc line) m1 ss = Inl e"
      using Cons.prems by (auto split: option.splits prod.splits)
    from Cons.IH [OF this] obtain i where i: "i < length ss" "parse_line F (Suc line + i) (ss ! i) = Inl e"
        "\<forall>j<i. \<exists>r. parse_line F (Suc line + j) (ss ! j) = Inr r" by blast
    have "\<exists>r. parse_line F (line + j) ((s # ss) ! j) = Inr r" if "j < Suc i" for j
      using that Inr i(3) by (cases j) auto
    then show ?thesis using i(1,2) by (intro exI [of _ "Suc i"]) simp
  qed
qed simp

section \<open>Every round is reported once\<close>

lemma distinct_names: "distinct (map sc_Name Scenarios)" "distinct Targets"
  by (simp_all add: Scenarios_def scenario_def Targets_def)

lemma sum_one:
  "distinct xs \<Longrightarrow> x \<in> set xs \<Longrightarrow> (\<Sum>y\<leftarrow>xs. if x = y then k y else 0) = (k x :: nat)"
proof (induction xs)
  case (Cons y ys)
  have "(\<Sum>z\<leftarrow>ys. if y = z then k z else 0) = 0" using Cons.prems(1) by (auto simp: sum_list_eq_0_iff)
  then show ?case using Cons by auto
qed simp

lemma rounds_total:
  assumes "\<And>l. l \<in> set lines \<Longrightarrow> \<exists>line r. parse_line F line l = Inr r"
  shows "(\<Sum>scen\<leftarrow>map sc_Name Scenarios. \<Sum>fw\<leftarrow>Targets. length (rounds_of F lines fw scen)) =
    length (filter (\<lambda>l. Fields l \<noteq> []) lines)"
  using assms
proof (induction lines)
  case (Cons l ls)
  obtain line r where r: "parse_line F line l = Inr r" using Cons.prems [of l] by auto
  note rd = parse_line_reading [OF r] reading_blank [OF r]
  have "(\<Sum>scen\<leftarrow>map sc_Name Scenarios. \<Sum>fw\<leftarrow>Targets. length (rounds_of F [l] fw scen)) = (if Fields l = [] then 0 else 1)"
  proof (cases r)
    case (Some q)
    obtain f s x where q: "q = (f, s, x)" by (cases q)
    have "f \<in> set Targets" "s \<in> set (map sc_Name Scenarios)" using reading_known [of F l f s x] rd(1) Some q by auto
    then have "(\<Sum>fw\<leftarrow>Targets. length (rounds_of F [l] fw scen)) = (if s = scen then 1 else 0)" for scen
      using sum_one [OF distinct_names(2), of f "\<lambda>_. if s = scen then 1 else 0"] rd(1) Some q
      by (cases "s = scen") (simp_all add: if_distrib [of length] cong: if_cong)
    then show ?thesis using sum_one [OF distinct_names(1), of s "\<lambda>_. 1"] \<open>s \<in> _\<close> rd(2) Some by simp
  qed (use rd in simp)
  then show ?case using Cons.IH Cons.prems by (simp add: sum_list_addf comp_def)
qed simp

definition expected_table :: "'f::linorder floats \<Rightarrow> string list \<Rightarrow> Scenario \<Rightarrow> string" where
  "expected_table F lines s =
     (if \<forall>t\<in>set Targets. rounds_of F lines t (sc_Name s) = [] then []
      else ''## '' @ sc_Name s @ [CHR 0x0A, CHR 0x0A] @ header_rows
        @ concat (map (\<lambda>t. row_text F t (rounds_of F lines t (sc_Name s))) Targets) @ [CHR 0x0A])"

lemma table_text_rounds:
  "inv_samples m \<Longrightarrow> (\<And>fw. stored m fw (sc_Name s) = rounds_of F lines fw (sc_Name s)) \<Longrightarrow>
     table_text F m s = expected_table F lines s"
  by (simp add: table_text_def Let_def inv_samples_def stored_def expected_table_def)

lemma Summarize_cases:
  "case Summarize F lines None of
      (Some e, out) \<Rightarrow> out = [] \<and> (\<exists>i<length lines. parse_line F (Suc i) (lines ! i) = Inl e
        \<and> (\<forall>j<i. \<exists>r. parse_line F (Suc j) (lines ! j) = Inr r))
    | (None, out) \<Rightarrow>
        (\<forall>i<length lines. \<exists>r. parse_line F (Suc i) (lines ! i) = Inr r)
        \<and> out = concat (map (expected_table F lines) Scenarios)
        \<and> (\<Sum>scen\<leftarrow>map sc_Name Scenarios. \<Sum>fw\<leftarrow>Targets. length (rounds_of F lines fw scen)) =
            length (filter (\<lambda>l. Fields l \<noteq> []) lines)"
proof (cases "read_lines F 1 [] lines")
  case (Inl e)
  then show ?thesis using read_lines_err [OF Inl] by (simp add: Summarize_def)
next
  case (Inr m)
  have "inv_samples ([] :: 'a samples)" "\<And>fw scen. stored ([] :: 'a samples) fw scen = []"
    by (simp_all add: inv_samples_def stored_def lookup_or_def)
  then have ok: "inv_samples m" "\<And>fw scen. stored m fw scen = rounds_of F lines fw scen"
      "\<And>i. i < length lines \<Longrightarrow> \<exists>r. parse_line F (Suc i) (lines ! i) = Inr r"
    using read_lines_ok [OF Inr] by simp_all
  have "table_text F m = expected_table F lines"
    by (rule ext) (rule table_text_rounds [OF ok(1,2)])
  moreover have "(\<Sum>scen\<leftarrow>map sc_Name Scenarios. \<Sum>fw\<leftarrow>Targets. length (rounds_of F lines fw scen)) =
      length (filter (\<lambda>l. Fields l \<noteq> []) lines)"
    by (rule rounds_total) (metis ok(3) in_set_conv_nth)
  ultimately show ?thesis using Inr ok(3) by (simp add: Summarize_def)
qed

lemma pick_bounds:
  fixes xs :: "'f::linorder sample list"
  assumes "xs \<noteq> []" "i < length xs"
  shows "pick_field xs f ! 0 \<le> pick_field xs f ! i" "pick_field xs f ! i \<le> pick_field xs f ! (length xs - 1)"
  using assms sorted_nth_mono [OF sorted_sort, of _ _ "map f xs"] by (auto simp: pick_field_def)

lemma median_between:
  fixes F :: "'f::linorder floats"
  assumes half: "\<And>a b. a \<le> b \<Longrightarrow> a \<le> half_sum F a b \<and> half_sum F a b \<le> b" and "xs \<noteq> []"
  shows "pick_field xs f ! 0 \<le> median F (pick_field xs f) \<and> median F (pick_field xs f) \<le> pick_field xs f ! (length xs - 1)"
proof -
  let ?n = "length xs" and ?p = "pick_field xs f"
  have n: "length ?p = ?n" "0 < ?n" using assms(2) by (simp_all add: pick_field_def)
  note b = pick_bounds [OF assms(2), of _ f]
  show ?thesis
  proof (cases "?n mod 2 = 1")
    case True
    then show ?thesis using b [of "?n div 2"] n by (simp add: median_def)
  next
    case False
    have i: "?n div 2 - 1 < ?n" "?n div 2 < ?n" using n(2) by linarith+
    have "?p ! (?n div 2 - 1) \<le> ?p ! (?n div 2)"
      unfolding pick_field_def by (rule sorted_nth_mono) (use i in simp_all)
    from half [OF this] show ?thesis
      using False n b [OF i(1)] b [OF i(2)] by (auto simp: median_def intro: order_trans)
  qed
qed

section \<open>Properties\<close>


definition int_floats :: "int floats" where
  "int_floats = \<lparr>ParseFloat = Atoi, half_sum = (\<lambda>a b. (a + b) div 2), print_0f = itoa\<rparr>"


end
