(* ===== verification/Bench_Cmd.thy ===== *)
theory Bench_Cmd
  imports Summary "HOL-Library.Signed_Division"
begin

text \<open>
  The commands of the comparison, \<open>bench/compare/cmd\<close>: \<open>loadgen\<close>, \<open>server\<close> and \<open>summarize\<close>, after
  \<open>flag.Parse\<close>. A command ends with an exit code, the lines it printed and, where it
  failed, what it wrote to the standard error. What it calls over the network is its input.
\<close>

section \<open>The commands\<close>

datatype cmd_failure =
    FrameworkRequired
  | BadDuration int
  | BadWarmup int
  | NoSuchFramework string
  | NoSuchScenario string
  | ServerNotReady wait_error
  | RunFailed string string load_error
  | ServerFailed string
  | SummaryFailed summary_error

record cmd_end =
  code :: int
  stdout :: "string list"
  stderr :: "cmd_failure option"

definition failed_with :: "int \<Rightarrow> cmd_failure \<Rightarrow> cmd_end" where
  "failed_with n msg = \<lparr>code = n, stdout = [], stderr = Some msg\<rparr>"

record loadgen_flags =
  fl_addr :: string
  fl_scenario :: string
  fl_framework :: string
  fl_round :: int
  fl_conns :: int
  fl_warmup :: int
  fl_duration :: int
  fl_list :: bool

text \<open>What a run of the load generator meets: the answers to its dials, and to \<open>Load\<close>.\<close>

record 'f surroundings =
  su_rate :: "64 word \<Rightarrow> int \<Rightarrow> 'f"
  su_rank50 :: "64 word \<Rightarrow> 64 word"
  su_rank99 :: "64 word \<Rightarrow> 64 word"
  su_dialled :: int
  su_dials :: "((go_error + go_error option) \<times> int) list"
  su_start :: int
  su_conns :: "exchange list list"

definition Microseconds :: "int \<Rightarrow> int" where
  "Microseconds d = d sdiv 1000"

definition run_load :: "'f surroundings \<Rightarrow> loadgen_flags \<Rightarrow> Scenario \<Rightarrow> ('f LoadResult option \<times> load_error option) option" where
  "run_load e fl s =
     Load (su_rate e) (su_rank50 e) (su_rank99 e)
       \<lparr>lc_Scenario = s, lc_Conns = fl_conns fl, lc_Warmup = fl_warmup fl, lc_Duration = fl_duration fl, lc_Timeout = 0\<rparr>
       (su_start e) (su_conns e)"

definition result_line :: "'f floats \<Rightarrow> loadgen_flags \<Rightarrow> Scenario \<Rightarrow> 'f LoadResult \<Rightarrow> 'f \<Rightarrow> string" where
  "result_line F fl s res rps =
     fl_framework fl @ '' '' @ sc_Name s @ '' '' @ itoa (fl_round fl) @ '' '' @ print_0f F rps @ '' ''
       @ itoa (Microseconds (P50 res)) @ '' '' @ itoa (Microseconds (P99 res))"

text \<open>
  \<open>main\<close> of \<open>loadgen\<close>. \<open>None\<close>: it still waits for the server, or \<open>Load\<close> panicked. A zero rate
  stands for the result's zero value, which a positive duration excludes.
\<close>

definition loadgen_main :: "'f floats \<Rightarrow> 'f \<Rightarrow> loadgen_flags \<Rightarrow> 'f surroundings \<Rightarrow> cmd_end option" where
  "loadgen_main F zero fl e =
     (if fl_list fl then Some \<lparr>code = 0, stdout = map sc_Name Scenarios, stderr = None\<rparr>
      else if fl_framework fl = [] then Some (failed_with 2 FrameworkRequired)
      else if fl_duration fl \<le> 0 then Some (failed_with 2 (BadDuration (fl_duration fl)))
      else if fl_warmup fl < 0 then Some (failed_with 2 (BadWarmup (fl_warmup fl)))
      else case ScenarioByName (fl_scenario fl) of
        None \<Rightarrow> Some (failed_with 2 (NoSuchScenario (fl_scenario fl)))
      | Some s \<Rightarrow>
          (case WaitReady (fl_addr fl) (10 * 10 ^ 9) (su_dialled e) (su_dials e) of
             None \<Rightarrow> None
           | Some (Some err) \<Rightarrow> Some (failed_with 1 (ServerNotReady err))
           | Some None \<Rightarrow>
               (case run_load e fl s of
                  None \<Rightarrow> None
                | Some (_, Some err) \<Rightarrow> Some (failed_with 1 (RunFailed (fl_framework fl) (fl_scenario fl) err))
                | Some (None, None) \<Rightarrow> None
                | Some (Some res, None) \<Rightarrow>
                    Some \<lparr>code = 0,
                          stdout = [result_line F fl s res (case RPS res of None \<Rightarrow> zero | Some r \<Rightarrow> r)],
                          stderr = None\<rparr>)))"

text \<open>\<open>main\<close> of \<open>server\<close>; \<open>listen\<close> and \<open>serve\<close> are what \<open>net.Listen\<close> and the App's Serve return.\<close>

definition server_main :: "(string \<Rightarrow> string + 'l) \<Rightarrow> (string \<Rightarrow> bench_app \<Rightarrow> 'l \<Rightarrow> string option) \<Rightarrow> string \<Rightarrow> string \<Rightarrow> string \<Rightarrow> cmd_end" where
  "server_main listen serve framework scen addr =
     (case TargetByName framework of
        None \<Rightarrow> failed_with 2 (NoSuchFramework framework)
      | Some t \<Rightarrow>
          (case ScenarioByName scen of
             None \<Rightarrow> failed_with 2 (NoSuchScenario scen)
           | Some s \<Rightarrow>
               (case listen addr of
                  Inl err \<Rightarrow> failed_with 1 (ServerFailed err)
                | Inr lsn \<Rightarrow>
                    (case serve t (sc_App s) lsn of
                       Some err \<Rightarrow> failed_with 1 (ServerFailed err)
                     | None \<Rightarrow> \<lparr>code = 0, stdout = [], stderr = None\<rparr>))))"

definition summarize_main :: "'f::linorder floats \<Rightarrow> string list \<Rightarrow> string option \<Rightarrow> cmd_end" where
  "summarize_main F lines scan_err =
     (case Summarize F lines scan_err of
        (Some err, out) \<Rightarrow> \<lparr>code = 1, stdout = [out], stderr = Some (SummaryFailed err)\<rparr>
      | (None, out) \<Rightarrow> \<lparr>code = 0, stdout = [out], stderr = None\<rparr>)"

section \<open>Words\<close>

text \<open>A plain byte is printable ASCII and no space.\<close>

definition plain :: "char \<Rightarrow> bool" where
  "plain c \<longleftrightarrow> 32 < (of_char c :: nat) \<and> (of_char c :: nat) < 127"

definition word_text :: "string \<Rightarrow> bool" where
  "word_text w \<longleftrightarrow> w \<noteq> [] \<and> list_all plain w"

lemma space_len_plain: "plain c \<Longrightarrow> space_len (c # cs) = 0"
  by (auto simp: plain_def Let_def split: list.split)

lemma space_len_space: "space_len (CHR '' '' # cs) = 1"
  by (simp add: Let_def)

lemma fields_from_word: "list_all plain w \<Longrightarrow> fields_from cur (w @ rest) = fields_from (cur @ w) rest"
  by (induction w arbitrary: cur) (simp_all add: space_len_plain del: space_len.simps)

lemma Fields_words:
  "ws \<noteq> [] \<Longrightarrow> list_all word_text ws \<Longrightarrow> Fields (concat (map (\<lambda>w. w @ '' '') (butlast ws)) @ last ws) = ws"
proof (induction ws)
  case (Cons w ws)
  have w: "list_all plain w" "w \<noteq> []" using Cons.prems(2) by (simp_all add: word_text_def)
  show ?case
  proof (cases "ws = []")
    case True
    then show ?thesis using fields_from_word [OF w(1), of "[]" "[]"] w(2) by (simp add: Fields_def)
  next
    case False
    have "fields_from [] (w @ CHR '' '' # rest) = w # fields_from [] rest" for rest
      using fields_from_word [OF w(1), of "[]" "CHR '' '' # rest"] w(2) by (simp add: space_len_space del: space_len.simps)
    then show ?thesis using Cons False by (simp add: Fields_def)
  qed
qed simp

section \<open>Numbers\<close>

definition digit_char :: "char \<Rightarrow> bool" where
  "digit_char c \<longleftrightarrow> 48 \<le> (of_char c :: nat) \<and> (of_char c :: nat) \<le> 57"

lemma digit_char_of: "k < 10 \<Longrightarrow> digit_char (char_of (48 + k :: nat)) \<and> of_char (char_of (48 + k)) = 48 + k"
  by (simp add: digit_char_def)

lemma digits_chars: "list_all digit_char (digits n) \<and> digits n \<noteq> []"
proof (induction n rule: digits.induct)
  case (1 n)
  then show ?case by (subst (1 2) digits.simps) (simp add: digit_char_of)
qed

lemma digits_value_snoc:
  "digits_value n (xs @ [c]) =
     (case digits_value n xs of
        None \<Rightarrow> None
      | Some v \<Rightarrow> if digit_char c then Some (10 * v + (int (of_char c) - 48)) else None)"
  by (induction n xs rule: digits_value.induct) (simp_all add: Let_def digit_char_def)

lemma digits_value_digits: "digits_value 0 (digits n) = Some (int n)"
proof (induction n rule: digits.induct)
  case (1 n)
  show ?case
  proof (cases "n < 10")
    case True
    then show ?thesis by (subst digits.simps) simp
  next
    case False
    then have "digits_value 0 (digits (n div 10)) = Some (int (n div 10))" using 1 by simp
    moreover have "10 * int (n div 10) + int (n mod 10) = int n" by presburger
    ultimately show ?thesis
      using False digit_char_of [of "n mod 10"] by (subst digits.simps) (simp add: digits_value_snoc)
  qed
qed

text \<open>\<open>Atoi\<close> reads back what \<open>%d\<close> prints.\<close>

lemma Atoi_itoa:
  assumes "- (2 ^ 63) \<le> i" "i < 2 ^ 63"
  shows "Atoi (itoa i) = Some i"
proof (cases "i < 0")
  case True
  then show ?thesis
    using assms digits_chars [of "nat (- i)"] by (simp add: itoa_def Atoi_def digits_value_digits)
next
  case False
  obtain c cs where d: "digits (nat i) = c # cs" "digit_char c"
    using digits_chars [of "nat i"] by (cases "digits (nat i)") auto
  then have "c \<noteq> CHR ''-''" "c \<noteq> CHR ''+''" by (auto simp: digit_char_def)
  then show ?thesis
    using False assms d(1) digits_value_digits [of "nat i"] by (simp add: itoa_def Atoi_def)
qed

lemma word_itoa: "word_text (itoa i)"
proof -
  have "list_all plain (digits n)" for n
    using digits_chars [of n] by (auto simp: list_all_iff digit_char_def plain_def)
  then show ?thesis using digits_chars by (simp add: word_text_def itoa_def plain_def)
qed

lemma word_names:
  "fw \<in> set Targets \<Longrightarrow> word_text fw" "s \<in> set Scenarios \<Longrightarrow> word_text (sc_Name s)"
  by (auto simp: Targets_def Scenarios_def scenario_def word_text_def plain_def)

section \<open>From runs to the summary\<close>

text \<open>
  What the commands rely on of the formatting of numbers: \<open>%.0f\<close> prints a word that parses, to
  the rounded number, and an integer parses to itself.
\<close>

definition float_text :: "'f floats \<Rightarrow> ('f \<Rightarrow> 'f) \<Rightarrow> (int \<Rightarrow> 'f) \<Rightarrow> bool" where
  "float_text F rnd of_n \<longleftrightarrow>
     (\<forall>x. word_text (print_0f F x) \<and> ParseFloat F (print_0f F x) = Some (rnd x))
     \<and> (\<forall>n. ParseFloat F (itoa n) = Some (of_n n))"

text \<open>The sample that a run which ends well stands for.\<close>

definition run_sample :: "('f \<Rightarrow> 'f) \<Rightarrow> (int \<Rightarrow> 'f) \<Rightarrow> loadgen_flags \<Rightarrow> 'f surroundings \<Rightarrow> 'f sample option" where
  "run_sample rnd of_n fl e =
     (case ScenarioByName (fl_scenario fl) of
        None \<Rightarrow> None
      | Some s \<Rightarrow>
          (case run_load e fl s of
             Some (Some res, None) \<Rightarrow>
               map_option (\<lambda>r. \<lparr>s_rps = rnd r, s_p50 = of_n (Microseconds (P50 res)), s_p99 = of_n (Microseconds (P99 res))\<rparr>) (RPS res)
           | _ \<Rightarrow> None))"

lemma ScenarioByName_name: "ScenarioByName name = Some s \<Longrightarrow> s \<in> set Scenarios \<and> sc_Name s = name"
  by (auto simp: ScenarioByName_def find_Some_iff)

lemma known_name: "fw \<in> set Targets \<Longrightarrow> TargetByName fw \<noteq> None"
  by (auto simp: TargetByName_def find_None_iff)

lemma RPS_measured:
  "run_load e fl s = Some (Some res, err) \<Longrightarrow> 0 < fl_duration fl \<Longrightarrow> \<exists>r. RPS res = Some r"
  by (auto simp: run_load_def Load_def Let_def split: option.splits prod.splits if_splits)

lemma result_line_parsed:
  assumes F: "float_text F rnd of_n" and fw: "fl_framework fl \<in> set Targets"
    and s: "ScenarioByName (fl_scenario fl) = Some s" and n: "- (2 ^ 63) \<le> fl_round fl" "fl_round fl < 2 ^ 63"
  shows "parse_line F line (result_line F fl s res r) =
    Inr (Some (fl_framework fl, fl_scenario fl,
      \<lparr>s_rps = rnd r, s_p50 = of_n (Microseconds (P50 res)), s_p99 = of_n (Microseconds (P99 res))\<rparr>))"
proof -
  let ?ws = "[fl_framework fl, sc_Name s, itoa (fl_round fl), print_0f F r, itoa (Microseconds (P50 res)), itoa (Microseconds (P99 res))]"
  note nm = ScenarioByName_name [OF s]
  have "list_all word_text ?ws" using F fw nm word_names(1) word_names(2) [of s] word_itoa by (simp add: float_text_def)
  from Fields_words [OF _ this] have "Fields (result_line F fl s res r) = ?ws" by (simp add: result_line_def)
  then show ?thesis
    using F s nm known_name [OF fw] Atoi_itoa [OF n] by (auto simp: parse_line_def float_text_def Let_def)
qed

lemma run_line_parsed:
  assumes F: "float_text F rnd of_n" and fw: "fl_framework fl \<in> set Targets" "\<not> fl_list fl"
    and n: "- (2 ^ 63) \<le> fl_round fl" "fl_round fl < 2 ^ 63"
    and run: "loadgen_main F zero fl e = Some en" "code en = 0"
  shows "\<exists>l x. stdout en = [l] \<and> run_sample rnd of_n fl e = Some x
    \<and> (\<forall>line. parse_line F line l = Inr (Some (fl_framework fl, fl_scenario fl, x)))"
proof -
  obtain s res where s: "ScenarioByName (fl_scenario fl) = Some s" "run_load e fl s = Some (Some res, None)" "0 < fl_duration fl"
      "stdout en = [result_line F fl s res (case RPS res of None \<Rightarrow> zero | Some r \<Rightarrow> r)]"
    using run fw(2) by (auto simp: loadgen_main_def failed_with_def split: if_splits option.splits prod.splits)
  obtain r where r: "RPS res = Some r" using RPS_measured [OF s(2,3)] by blast
  then show ?thesis
    using s result_line_parsed [OF F fw(1) s(1) n, of _ res r] by (simp add: run_sample_def)
qed

section \<open>Properties\<close>


definition demo_flags :: loadgen_flags where
  "demo_flags = \<lparr>fl_addr = ''127.0.0.1:18080'', fl_scenario = ''static'', fl_framework = ''rice'', fl_round = 1, fl_conns = 1,
     fl_warmup = 0, fl_duration = 10 ^ 9, fl_list = False\<rparr>"

definition demo_surroundings :: "int surroundings" where
  "demo_surroundings = \<lparr>su_rate = (\<lambda>r d. 7), su_rank50 = id, su_rank99 = id, su_dialled = 0, su_dials = [(Inr None, 1)],
     su_start = 0, su_conns = [[]]\<rparr>"

lemma demo_load:
  "run_load demo_surroundings demo_flags (scenario ''static'' Small ''GET'' ''/hello'' None 200 ''hello'' False) =
     Some (Some \<lparr>Requests = 0, Mismatches = 0, Errors = 0, RPS = Some 7, P50 = 0, P99 = 0\<rparr>, None)"
  by code_simp

definition demo_floats :: "int floats" where
  "demo_floats =
     \<lparr>ParseFloat = (\<lambda>s. if s \<noteq> [] \<and> hd s = CHR ''-'' then map_option uminus (digits_value 0 (tl s)) else digits_value 0 s),
      half_sum = (\<lambda>a b. (a + b) div 2), print_0f = itoa\<rparr>"

lemma demo_float_text: "float_text demo_floats id id"
proof -
  have "ParseFloat demo_floats (itoa i) = Some i" for i
  proof (cases "i < 0")
    case False
    obtain c cs where "digits (nat i) = c # cs" "digit_char c"
      using digits_chars [of "nat i"] by (cases "digits (nat i)") auto
    then show ?thesis
      using False digits_value_digits [of "nat i"] by (auto simp: demo_floats_def itoa_def digit_char_def)
  qed (simp add: demo_floats_def itoa_def digits_value_digits)
  then show ?thesis using word_itoa by (simp add: float_text_def) (simp add: demo_floats_def)
qed


end
