(* ===== verification/Spec2Isabelle.thy ===== *)
theory Spec2Isabelle
  imports Rate_Limit Real_IP Cors Sse Shutdown_Ends Gates Observe Deadline Static Binding Otel Options
    Capture_Bound Route_Order Stream_Run Run_Ends Bench_App Bench_Cmd
begin

text \<open>
  A verification development for rice-http, an HTTP framework over fasthttp.

  \<^bold>\<open>The program.\<close> A program makes an \<open>App\<close> with options, registers routes, groups, static
  directories and middleware on it, and serves. \<open>Build\<close> compiles every route's middleware
  into one handler and puts it into a radix tree per method. A request takes a \<open>Ctx\<close> from a
  pool, is looked up in the tree of its method, runs the compiled handler, and whatever
  fails, by error or by panic, ends in one error funnel; then the Ctx goes back to the pool
  and a recorded stream starts. \<open>Serve\<close>, \<open>Shutdown\<close> and \<open>RunContext\<close> run concurrently and meet
  in the App's mutex, channels and flags.

  \<^bold>\<open>Theories and sources\<close> (all under \<open>src/\<close>).
  \<^item> \<open>Rice_Prelude\<close>: calls that return or panic (\<open>res\<close>, \<open>call\<close>, \<open>then_do\<close>), 64-bit wrap-around,
    lemmas on lists and options.
  \<^item> \<open>Params\<close>, \<open>Pattern\<close>, \<open>Radix_Tree\<close>: \<open>internal/router\<close>. \<open>Radix_Insert\<close> and \<open>Radix_Lookup\<close> hold
    the invariants of insertion and of the backtracking lookup, \<open>Router\<close> the exported tree
    with its specification as a map from patterns.
  \<^item> \<open>Chain\<close>: \<open>internal/chain\<close>. \<open>Routes\<close>: \<open>method.go\<close>, \<open>route.go\<close>, \<open>group.go\<close>, \<open>build.go\<close> and the
    registering half of \<open>static.go\<close>. \<open>Routes_Build\<close>: which Apps a program can make
    (\<open>reachable\<close>), what Build keeps, what a built App answers. \<open>Capture_Bound\<close>: that captures
    fit the buffers Build sizes. \<open>Route_Order\<close>: which sets of routes register, in any order.
  \<^item> \<open>Go_Errors\<close>, \<open>Ctx\<close>, \<open>Dispatch\<close>: \<open>errors.go\<close>, \<open>ctx*.go\<close>, \<open>pool.go\<close>, \<open>poison_*.go\<close>, \<open>App.handle\<close>.
  \<^item> \<open>Options\<close>: the options of \<open>app.go\<close>, \<open>transportError\<close>, \<open>FasthttpHandler\<close>.
  \<^item> \<open>Lifecycle\<close>: \<open>server.go\<close>, \<open>lifecycle.go\<close>, \<open>conns.go\<close>; \<open>Shutdown_Ends\<close> and
    \<open>Run_Ends\<close> show that a Shutdown and a RunContext end. 
  \<^item> \<open>Sse\<close>: the operations of \<open>stream.go\<close> and \<open>sse.go\<close>. \<open>Stream_Run\<close>: the goroutines of one stream.
  \<^item> \<open>Accept\<close>: \<open>ctx_accept.go\<close>. \<open>Static\<close>: the serving half of \<open>static.go\<close>.
  \<^item> \<open>Rate_Limit\<close>, \<open>Real_IP\<close>, \<open>Cors\<close>, \<open>Auth\<close>, \<open>Observe\<close>, \<open>Deadline\<close>: \<open>middleware/\<close>, and \<open>health/\<close> in
    the last. \<open>Binding\<close>: \<open>binding/\<close>. \<open>Otel\<close>: \<open>otelrice/\<close>.
  \<^item> \<open>Histogram\<close>, \<open>Load_Gen\<close>, \<open>Bench_Scenarios\<close>, \<open>Github_Api\<close>, \<open>Bench_App\<close>, \<open>Summary\<close>, \<open>Bench_Cmd\<close>: \<open>bench/compare\<close>, the
    files \<open>histogram.go\<close>, \<open>loadgen.go\<close>, \<open>scenarios.go\<close> and \<open>targets.go\<close>, \<open>githubapi.go\<close>, \<open>rice.go\<close> and
    \<open>check.go\<close>, \<open>summarize.go\<close>, and the commands under \<open>cmd/\<close>.

  \<^bold>\<open>State and effects.\<close> A struct is a record with the fields of the source, a slice that is
  truncated and refilled keeps its backing array, a pointer to a Group is an index. A
  method that may panic is a function from the state to a result and a state, so that what
  a panic leaves behind is visible. fasthttp is the record \<open>fasthttp\<close> of the calls made on
  it, over an arbitrary type of connections; where a theorem needs that a status or body
  written is read back, \<open>response_laws\<close> says so, and the \<open>wire\<close> of \<open>Ctx\<close> shows that it can hold.
  The clock, the hash seed, the random source, slog, OpenTelemetry, \<open>encoding/json\<close>, file
  systems and the callbacks a program passes are arguments. Each of Serve, Shutdown and
  RunContext is a step function over a program counter, one step for each critical section,
  channel operation or hook, and \<open>lreach\<close> interleaves any number of them.

  \<^bold>\<open>What is shown.\<close>
  \<^item> Routing: the parser accepts exactly the canonical patterns and they print back;
    insertion refines a map update; a lookup returns the best match and exactly its
    captures; Build never fails on what registration accepted, and a built App dispatches
    to the best route with its middleware in order, or misses when nothing matches;
    registration succeeds exactly on routes that do not clash, and their order changes no
    answer; no lookup grows a parameter buffer.
  \<^item> Requests: dispatch returns for every handler and ErrorHandler, panics included, and
    only blank Ctx values are pooled; the default funnel's answer for every error tree; the
    fast path equals the walk.
  \<^item> Serving: one Serve at a time, hooks once and in order, no readiness after Shutdown,
    RunContext waits for hooks, no connection escapes a force-close, durations saturate;
    a Shutdown whose ctx is over returns within a fixed number of its own steps, and
    Shutdown calls do not deadlock; a RunContext never gets stuck and returns.
  \<^item> Streams: a decoder of the event-stream format reads back the events sent; under
    every interleaving a stream whose callback is over ends by itself, its heartbeat first,
    and a retired stream does not touch its writer.
  \<^item> Middleware: the 64-bit sharded rate limiter is GCRA; forwarded addresses cannot be
    forged; CORS headers follow the policy and are safe; negotiation picks the first best
    offer; nothing passes an auth middleware without Validate; Logger writes one line, Otel
    one span and one measurement per request; Timeout and the readiness probe on every
    branch; the static redirect stays on the site; binding errors carry a status.
  \<^item> Benchmarks: rice's Apps answer every scenario as the equivalence gate wants, through a
    whole dispatch; a load run is reported as good only when all its answers were, with
    percentiles at most a sixteenth low; the summary holds every round once, and reads
    back what the load generator prints.

  \<^bold>\<open>Interfaces.\<close> A locale states what one part promises another, and is interpreted on the
  model's definitions: \<open>param_buffer\<close> for what the lookup needs of \<open>Params\<close>, \<open>route_table\<close> for what
  Build needs of a tree, \<open>rate_limit_store\<close> for what RateLimit needs of a store,
  \<open>credential_gate\<close> for both auth middlewares, and \<open>early_refusal\<close> of \<open>Gates\<close> for a middleware
  that answers a request itself, from which the behaviour of a whole dispatch follows.

  \<^bold>\<open>Recursion.\<close> Every function is total, by a measure where the recursion is not
  structural: the rest of the pattern, of the path or of the header, or the size of the
  error. No fuel is used. A sequence of concurrent steps is finite but unbounded in length.

  \<^bold>\<open>Not modelled.\<close> The \<open>doc.go\<close> files hold comments. In \<open>bench/compare\<close>, \<open>gin.go\<close>, \<open>echo.go\<close> and
  \<open>fiber.go\<close> only call those frameworks. Flag parsing and sockets are outside the commands'
  models. Float arithmetic is a parameter where the benchmarks use it. That the 203 routes
  of the GitHub table register is not evaluated: what is shown of that App holds of any App
  their registration returns. Memory allocation, the reuse of fasthttp's byte slices after a
  request and data races inside one critical section are outside the model.
\<close>

section \<open>Properties that span components\<close>

text \<open>
  C26: An App behind an auth middleware does not show its routes. With BasicAuth or KeyAuth
  outermost, a request without credentials, or with credentials Validate rejects, gets the
  same response from any two such Apps, whatever routes, groups and other middleware they
  have and whatever their pools hold: 401 \<open>Unauthorized\<close>, for a path that is registered and
  for one that is not.
\<close>

theorem auth_hides_routes:
  assumes "gate = BasicAuth_handler dbg F base validate \<lparr>k_id = Some slot, k_name = nm\<rparr> challenge
        \<and> refuses = basic_refuses F validate base
      \<or> gate = KeyAuth_handler dbg F base kvalidate \<lparr>k_id = Some slot, k_name = nm\<rparr> bearer header challenge
        \<and> refuses = key_refuses F kvalidate bearer header base"
    and "reachable notFound a" "built a" "app_mws a = gate # ms" "\<forall>d\<in>set pool. blank d"
    and "reachable notFound b" "built b" "app_mws b = gate # ms'" "\<forall>d\<in>set pool'. blank d"
    and "refuses (if drains then f_SetConnectionClose F w else w)" "response_laws F"
  shows "snd (snd (handle dbg F (DefaultErrorHandler F) stack drains a pick pool w)) =
      snd (snd (handle dbg F (DefaultErrorHandler F) stack drains b pick' pool' w))
    \<and> f_StatusCode F (snd (snd (handle dbg F (DefaultErrorHandler F) stack drains a pick pool w))) = 401
    \<and> f_Body F (snd (snd (handle dbg F (DefaultErrorHandler F) stack drains a pick pool w))) = ''Unauthorized''"
proof -
  let ?w = "if drains then f_SetConnectionClose F w else w"
  have "snd (snd (handle dbg F (DefaultErrorHandler F) stack drains x n p w)) =
      refusal F 401 ''Unauthorized'' (challenged F challenge ?w)"
    if "reachable notFound x" "built x" "app_mws x = gate # l" "\<forall>d\<in>set p. blank d" for x l n p
    using assms(1)
  proof (elim disjE conjE)
    assume "gate = BasicAuth_handler dbg F base validate \<lparr>k_id = Some slot, k_name = nm\<rparr> challenge"
      "refuses = basic_refuses F validate base"
    then show ?thesis using br.dispatch_refused [OF that(1,2) _ that(4)] that(3) assms(10) by blast
  next
    assume "gate = KeyAuth_handler dbg F base kvalidate \<lparr>k_id = Some slot, k_name = nm\<rparr> bearer header challenge"
      "refuses = key_refuses F kvalidate bearer header base"
    then show ?thesis using kr.dispatch_refused [OF that(1,2) _ that(4)] that(3) assms(10) by blast
  qed
  from this [OF assms(2-5)] this [OF assms(6-9)] show ?thesis
    using refusal_read [OF assms(11), of 401] by simp
qed

theorem auth_hides_routes_witness:
  "let gate = BasicAuth_handler False wire_http () demo_validate \<lparr>k_id = Some 3, k_name = ''u''\<rparr> ''Basic'';
       a = one_route notFound gate ''/'' (\<lambda>c. (Ret None, c));
       b = one_route notFound gate ''/other'' (\<lambda>c. (Panic errNil, c))
   in snd (snd (handle False wire_http (DefaultErrorHandler wire_http) [] False a 0 [] get_wire)) =
        snd (snd (handle False wire_http (DefaultErrorHandler wire_http) [] False b 0 [newCtx 1] get_wire))
      \<and> f_StatusCode wire_http (snd (snd (handle False wire_http (DefaultErrorHandler wire_http) [] False a 0 [] get_wire))) = 401"
proof -
  let ?gate = "BasicAuth_handler False wire_http () demo_validate \<lparr>k_id = Some 3, k_name = ''u''\<rparr> ''Basic''"
  have "basic_refuses wire_http demo_validate () get_wire"
    by (simp add: basic_refuses_def basic_credentials_def) code_simp
  then show ?thesis
    using auth_hides_routes [of ?gate False wire_http "()" demo_validate 3 "''u''" "''Basic''"
        "basic_refuses wire_http demo_validate ()" undefined undefined undefined
        "one_route notFound ?gate ''/'' (\<lambda>c. (Ret None, c))" "[]" "[]"
        "one_route notFound ?gate ''/other'' (\<lambda>c. (Panic errNil, c))" "[]" "[newCtx 1]" False get_wire "[]" 0 0]
    by (auto simp: one_route_fields blank_newCtx wire_laws Let_def)
qed

end
